(* ===== verification/Prelude.thy ===== *)
theory Prelude
  imports Main "HOL-Library.Word"
begin

text \<open>
  Prelude of the development: the fixed-width integer types the Rust code uses, the
  collections of rewrite rules the component theories fill, the flag-set interfaces that the
  capability masks and the namespace flags share, and generic lemmas on lists.
\<close>

unbundle bit_operations_syntax

section \<open>Integer types\<close>

type_synonym u8 = "8 word"
type_synonym u16 = "16 word"
type_synonym u32 = "32 word"
type_synonym u64 = "64 word"

section \<open>Collections of rules\<close>

named_theorems io_simps \<open>unfolding of effectful programs into their calls\<close>
named_theorems wp_simps \<open>verification conditions of the effectful primitives\<close>
named_theorems str_simps \<open>evaluation of the string functions of the standard library\<close>

section \<open>Lists\<close>

lemma find_Some_filter:
  "find P xs = Some x \<Longrightarrow> x \<in> set xs \<and> P x"
  by (induction xs) (auto split: if_splits)

lemma find_unique:
  assumes "x \<in> set xs" and "P x" and "\<And>y. y \<in> set xs \<Longrightarrow> P y \<Longrightarrow> y = x"
  shows "find P xs = Some x"
proof -
  obtain y where y: "find P xs = Some y"
    using assms(1,2) by (cases "find P xs") (auto simp: find_None_iff)
  with find_Some_filter [OF y] assms(3) show ?thesis by metis
qed

lemma list_split_append:
  "xs @ ys = pre @ x # post \<longleftrightarrow>
     (\<exists>mid. xs = pre @ x # mid \<and> post = mid @ ys) \<or>
     (\<exists>mid. pre = xs @ mid \<and> ys = mid @ x # post)"
proof (induction xs arbitrary: pre)
  case Nil
  then show ?case by auto
next
  case (Cons a xs)
  then show ?case by (cases pre) auto
qed

lemma Cons_split_append:
  "e # es = pre @ x # post \<longleftrightarrow>
     (pre = [] \<and> e = x \<and> es = post) \<or> (\<exists>mid. pre = e # mid \<and> es = mid @ x # post)"
  by (cases pre) auto

section \<open>Flags\<close>

text \<open>A word with one bit, written as a number.\<close>

lemma bit_flag_word:
  "w = push_bit k (1 :: 'a::len word) \<Longrightarrow> k < LENGTH('a) \<Longrightarrow> bit w n \<longleftrightarrow> n = k"
  by (auto simp: bit_push_bit_iff possible_bit_def bit_1_iff simp del: push_bit_of_1)

section \<open>Flag sets\<close>

text \<open>
  A word used as a set of flags. The first interface only adds flags (the code that folds
  namespaces into \<open>clone\<close> flags needs no more); the second also removes them (the capability
  masks). A client is proved once against the laws and then read off at the words.
\<close>

locale flag_adder =
  fixes add :: "'f \<Rightarrow> 'v \<Rightarrow> 'v"
    and has :: "'f \<Rightarrow> 'v \<Rightarrow> bool"
  assumes has_add: "has f (add g v) \<longleftrightarrow> f = g \<or> has f v"
begin

lemma has_fold_add: "has f (fold add gs v) \<longleftrightarrow> f \<in> set gs \<or> has f v"
  by (induction gs arbitrary: v) (auto simp: has_add)

lemma has_fold_add_perm:
  "set gs = set hs \<Longrightarrow> has f (fold add gs v) \<longleftrightarrow> has f (fold add hs v)"
  by (simp add: has_fold_add)

end

locale flag_set = flag_adder +
  fixes rem :: "'f \<Rightarrow> 'v \<Rightarrow> 'v"
  assumes has_rem: "has f (rem g v) \<longleftrightarrow> f \<noteq> g \<and> has f v"
begin

lemma has_fold_rem: "has f (fold rem gs v) \<longleftrightarrow> f \<notin> set gs \<and> has f v"
  by (induction gs arbitrary: v) (auto simp: has_rem)

text \<open>Removing first and adding afterwards: what is added wins.\<close>

lemma has_rem_then_add:
  "has f (fold add as (fold rem rs v)) \<longleftrightarrow> f \<in> set as \<or> (f \<notin> set rs \<and> has f v)"
  by (simp add: has_fold_add has_fold_rem)

end

end
