(* ===== verification/RustStr.thy ===== *)
theory RustStr
  imports Prelude "HOL-Library.Sublist" "HOL-Library.Char_ord" "HOL-Library.List_Lexorder"
begin

text \<open>
  The string functions of Rust's standard library that the code uses. A Rust string is its
  UTF-8 bytes, a \<^typ>\<open>string\<close> (each \<^typ>\<open>char\<close> is one byte); the order on
  strings is the byte-wise lexicographic order of \<open>Ord for str\<close>. Everything here is
  executable. The lemmas show what the component theories need of them: decimal rendering
  and parsing are inverse, splitting and joining are inverse, trimming and upper-casing fix
  the plain upper-case names of the code's tables.
\<close>

section \<open>Decimal numbers\<close>

definition digit_char :: "nat \<Rightarrow> char" where
  "digit_char d = char_of (48 + d)"

fun show_nat :: "nat \<Rightarrow> string" where
  "show_nat n = (if n < 10 then [digit_char n] else show_nat (n div 10) @ [digit_char (n mod 10)])"

declare show_nat.simps [simp del]

definition show_int :: "int \<Rightarrow> string" where
  "show_int i = (if i < 0 then CHR ''-'' # show_nat (nat (- i)) else show_nat (nat i))"

definition is_digit :: "char \<Rightarrow> bool" where
  "is_digit c \<longleftrightarrow> 48 \<le> (of_char c :: nat) \<and> (of_char c :: nat) \<le> 57"

definition digit_val :: "char \<Rightarrow> nat" where
  "digit_val c = of_char c - 48"

text \<open>\<open>parse_digits acc s\<close> is the digit loop of \<open>from_str_radix\<close>: \<open>None\<close> on a byte
  that is no digit.\<close>

fun parse_digits :: "nat \<Rightarrow> string \<Rightarrow> nat option" where
  "parse_digits acc [] = Some acc"
| "parse_digits acc (c # cs) = (if is_digit c then parse_digits (10 * acc + digit_val c) cs else None)"

definition parse_nonempty :: "string \<Rightarrow> nat option" where
  "parse_nonempty s = (if s = [] then None else parse_digits 0 s)"

text \<open>\<open>str::parse::<i32>\<close>: an optional sign, at least one digit, and a value of 32 bits.\<close>

definition in_i32 :: "int \<Rightarrow> bool" where
  "in_i32 i \<longleftrightarrow> - (2 ^ 31) \<le> i \<and> i < 2 ^ 31"

definition check_i32 :: "int \<Rightarrow> int option" where
  "check_i32 i = (if in_i32 i then Some i else None)"

fun parse_i32 :: "string \<Rightarrow> int option" where
  "parse_i32 [] = None"
| "parse_i32 (c # cs) =
     (if c = CHR ''-'' then
        (case parse_nonempty cs of None \<Rightarrow> None | Some n \<Rightarrow> check_i32 (- int n))
      else if c = CHR ''+'' then
        (case parse_nonempty cs of None \<Rightarrow> None | Some n \<Rightarrow> check_i32 (int n))
      else
        (case parse_nonempty (c # cs) of None \<Rightarrow> None | Some n \<Rightarrow> check_i32 (int n)))"

lemma of_char_digit_char: "d < 10 \<Longrightarrow> (of_char (digit_char d) :: nat) = 48 + d"
  by (simp add: digit_char_def)

lemma is_digit_digit_char [simp]: "d < 10 \<Longrightarrow> is_digit (digit_char d)"
  by (simp add: is_digit_def of_char_digit_char)

lemma digit_val_digit_char [simp]: "d < 10 \<Longrightarrow> digit_val (digit_char d) = d"
  by (simp add: digit_val_def of_char_digit_char)

lemma show_nat_nonempty [simp]: "show_nat n \<noteq> []"
  by (subst show_nat.simps) simp

lemma show_nat_digits: "c \<in> set (show_nat n) \<Longrightarrow> is_digit c"
proof (induction n rule: show_nat.induct)
  case (1 n)
  then show ?case by (subst (asm) (2) show_nat.simps) (auto split: if_splits)
qed

lemma parse_digits_append:
  "parse_digits acc (xs @ ys) = (case parse_digits acc xs of None \<Rightarrow> None | Some a \<Rightarrow> parse_digits a ys)"
  by (induction xs arbitrary: acc) auto

lemma parse_digits_show_nat: "parse_digits 0 (show_nat n) = Some n"
proof (induction n rule: show_nat.induct)
  case (1 n)
  then show ?case
    by (subst show_nat.simps) (auto simp: parse_digits_append mult.commute [of 10])
qed

lemma parse_nonempty_show_nat [simp]: "parse_nonempty (show_nat n) = Some n"
  by (simp add: parse_nonempty_def parse_digits_show_nat)

lemma not_digit_chars [simp]:
  "\<not> is_digit (CHR ''-'')" "\<not> is_digit (CHR ''+'')" "\<not> is_digit (CHR '' '')"
  "\<not> is_digit (CHR 0x0A)" "\<not> is_digit (CHR 0x00)" "\<not> is_digit (CHR ''/'')" "\<not> is_digit (CHR '':'')"
  by (simp_all add: is_digit_def)

lemma show_nat_inj [simp]: "show_nat m = show_nat n \<longleftrightarrow> m = n"
proof
  assume "show_nat m = show_nat n"
  then have "parse_digits 0 (show_nat m) = parse_digits 0 (show_nat n)" by simp
  then show "m = n" by (simp add: parse_digits_show_nat)
qed simp

lemma parse_i32_show_int:
  assumes "in_i32 i"
  shows "parse_i32 (show_int i) = Some i"
proof (cases "i < 0")
  case True
  with assms show ?thesis by (simp add: show_int_def check_i32_def)
next
  case False
  obtain c cs where c: "show_nat (nat i) = c # cs" by (cases "show_nat (nat i)") simp_all
  then have "is_digit c" using show_nat_digits [of c "nat i"] by simp
  then have "c \<noteq> CHR ''-''" "c \<noteq> CHR ''+''" by auto
  moreover have "parse_nonempty (c # cs) = Some (nat i)"
    using parse_nonempty_show_nat [of "nat i"] unfolding c .
  ultimately show ?thesis using False assms by (simp add: show_int_def c check_i32_def)
qed

lemma parse_i32_range: "parse_i32 s = Some i \<Longrightarrow> in_i32 i"
  by (cases s) (auto simp: check_i32_def split: if_splits option.splits)

section \<open>Splitting and joining\<close>

text \<open>\<open>str::split(c)\<close>: never empty, one piece more than there are separators.\<close>

fun split_char :: "char \<Rightarrow> string \<Rightarrow> string list" where
  "split_char c [] = [[]]"
| "split_char c (x # xs) =
     (if x = c then [] # split_char c xs
      else (case split_char c xs of [] \<Rightarrow> [[x]] | y # ys \<Rightarrow> (x # y) # ys))"

text \<open>\<open>str::split_once(c)\<close>.\<close>

fun split_once :: "char \<Rightarrow> string \<Rightarrow> (string \<times> string) option" where
  "split_once c [] = None"
| "split_once c (x # xs) =
     (if x = c then Some ([], xs)
      else (case split_once c xs of None \<Rightarrow> None | Some (a, b) \<Rightarrow> Some (x # a, b)))"

text \<open>\<open>[String]::join(sep)\<close>.\<close>

fun join_str :: "string \<Rightarrow> string list \<Rightarrow> string" where
  "join_str sep [] = []"
| "join_str sep [x] = x"
| "join_str sep (x # y # ys) = x @ sep @ join_str sep (y # ys)"

definition starts_with :: "string \<Rightarrow> string \<Rightarrow> bool" where
  "starts_with p s \<longleftrightarrow> take (length p) s = p"

text \<open>\<open>str::lines\<close>: the pieces between line feeds, without a carriage return before the line
  feed; no line after a final line feed.\<close>

definition strip_cr :: "string \<Rightarrow> string" where
  "strip_cr s = (if s \<noteq> [] \<and> last s = CHR 0x0D then butlast s else s)"

definition lines_of :: "string \<Rightarrow> string list" where
  "lines_of s =
     (let ps = split_char (CHR 0x0A) s
      in map strip_cr (butlast ps) @ (if last ps = [] then [] else [last ps]))"

lemma split_char_nonempty [simp]: "split_char c s \<noteq> []"
  by (induction s) (auto split: list.splits)

lemma split_char_no_sep: "c \<notin> set s \<Longrightarrow> split_char c s = [s]"
  by (induction s) auto

lemma split_char_append_sep:
  "c \<notin> set x \<Longrightarrow> split_char c (x @ c # rest) = x # split_char c rest"
  by (induction x) auto

lemma join_split_char: "join_str [c] (split_char c s) = s"
proof (induction s)
  case (Cons x xs)
  show ?case
  proof (cases "split_char c xs")
    case (Cons y ys)
    with Cons.IH show ?thesis by (cases ys) (auto simp: neq_Nil_conv)
  qed simp
qed simp

lemma split_char_join:
  "xs \<noteq> [] \<Longrightarrow> \<forall>x \<in> set xs. c \<notin> set x \<Longrightarrow> split_char c (join_str [c] xs) = xs"
  by (induction "[c]" xs rule: join_str.induct)
    (auto simp: split_char_no_sep split_char_append_sep)

lemma split_char_pieces: "p \<in> set (split_char c s) \<Longrightarrow> c \<notin> set p"
proof (induction s arbitrary: p)
  case (Cons x xs)
  then show ?case by (cases "split_char c xs") (auto split: if_splits)
qed simp

lemma split_once_None: "split_once c s = None \<longleftrightarrow> c \<notin> set s"
  by (induction s) (auto split: option.splits)

lemma split_once_append: "c \<notin> set a \<Longrightarrow> split_once c (a @ c # b) = Some (a, b)"
  by (induction a) auto

lemma split_once_SomeD: "split_once c s = Some (a, b) \<Longrightarrow> s = a @ c # b \<and> c \<notin> set a"
  by (induction s arbitrary: a b) (auto split: if_splits option.splits)

lemma join_str_inj:
  assumes "xs \<noteq> []" "ys \<noteq> []" "\<forall>x \<in> set xs. c \<notin> set x" "\<forall>y \<in> set ys. c \<notin> set y"
    and "join_str [c] xs = join_str [c] ys"
  shows "xs = ys"
  using assms split_char_join by metis

section \<open>White space and upper case\<close>

text \<open>
  Unicode white space as UTF-8: one byte (tab to carriage return, space), two bytes (U+0085,
  U+00A0) or three (U+1680, U+2000 to U+200A, U+2028, U+2029, U+202F, U+205F, U+3000).
\<close>

definition ws1 :: "char \<Rightarrow> bool" where
  "ws1 c \<longleftrightarrow> c \<in> set [CHR 0x09, CHR 0x0A, CHR 0x0B, CHR 0x0C, CHR 0x0D, CHR 0x20]"

definition ws2 :: "char \<Rightarrow> char \<Rightarrow> bool" where
  "ws2 c d \<longleftrightarrow> c = CHR 0xC2 \<and> (d = CHR 0x85 \<or> d = CHR 0xA0)"

definition ws3 :: "char \<Rightarrow> char \<Rightarrow> char \<Rightarrow> bool" where
  "ws3 c d e \<longleftrightarrow>
     (c, d, e) \<in> set [(CHR 0xE1, CHR 0x9A, CHR 0x80), (CHR 0xE2, CHR 0x80, CHR 0xA8),
       (CHR 0xE2, CHR 0x80, CHR 0xA9), (CHR 0xE2, CHR 0x80, CHR 0xAF),
       (CHR 0xE2, CHR 0x81, CHR 0x9F), (CHR 0xE3, CHR 0x80, CHR 0x80)] \<or>
     (c = CHR 0xE2 \<and> d = CHR 0x80 \<and> 0x80 \<le> (of_char e :: nat) \<and> (of_char e :: nat) \<le> 0x8A)"

fun trim_start :: "string \<Rightarrow> string" where
  "trim_start [] = []"
| "trim_start (c # s) =
     (if ws1 c then trim_start s
      else (case s of [] \<Rightarrow> c # s
            | d # s' \<Rightarrow>
                (if ws2 c d then trim_start s'
                 else (case s' of [] \<Rightarrow> c # s
                       | e # s'' \<Rightarrow> if ws3 c d e then trim_start s'' else c # s))))"

text \<open>\<open>trim_end_rev\<close> works on the reversed bytes, so the bytes of one character come last first.\<close>

fun trim_end_rev :: "string \<Rightarrow> string" where
  "trim_end_rev [] = []"
| "trim_end_rev (c # s) =
     (if ws1 c then trim_end_rev s
      else (case s of [] \<Rightarrow> c # s
            | d # s' \<Rightarrow>
                (if ws2 d c then trim_end_rev s'
                 else (case s' of [] \<Rightarrow> c # s
                       | e # s'' \<Rightarrow> if ws3 e d c then trim_end_rev s'' else c # s))))"

text \<open>\<open>str::trim\<close>.\<close>

definition trim :: "string \<Rightarrow> string" where
  "trim s = rev (trim_end_rev (rev (trim_start s)))"

text \<open>
  \<open>str::to_uppercase\<close>, as far as a comparison with an ASCII name can see it. ASCII letters
  are mapped as usual. Exactly these other characters have an ASCII upper case: U+0131
  (dotless i, to I), U+017F (long s, to S), U+00DF (sharp s, to SS) and the ligatures U+FB00
  to U+FB06. Every other character keeps a non-ASCII character in its upper case (an
  ASCII letter may stand beside a combining mark); it is left as it is, so a result made of
  ASCII bytes alone is exactly what the library computes.
\<close>

definition is_lower :: "char \<Rightarrow> bool" where
  "is_lower c \<longleftrightarrow> 97 \<le> (of_char c :: nat) \<and> (of_char c :: nat) \<le> 122"

definition upper1 :: "char \<Rightarrow> char" where
  "upper1 c = (if is_lower c then char_of ((of_char c :: nat) - 32) else c)"

definition upper2 :: "char \<Rightarrow> char \<Rightarrow> string option" where
  "upper2 c d = map_of
     [((CHR 0xC4, CHR 0xB1), ''I''), ((CHR 0xC5, CHR 0xBF), ''S''), ((CHR 0xC3, CHR 0x9F), ''SS'')]
     (c, d)"

definition upper3 :: "char \<Rightarrow> char \<Rightarrow> char \<Rightarrow> string option" where
  "upper3 c d e = (if c = CHR 0xEF \<and> d = CHR 0xAC then map_of
     [(CHR 0x80, ''FF''), (CHR 0x81, ''FI''), (CHR 0x82, ''FL''), (CHR 0x83, ''FFI''),
      (CHR 0x84, ''FFL''), (CHR 0x85, ''ST''), (CHR 0x86, ''ST'')] e else None)"

fun to_uppercase :: "string \<Rightarrow> string" where
  "to_uppercase [] = []"
| "to_uppercase [c] = [upper1 c]"
| "to_uppercase [c, d] =
     (case upper2 c d of Some u \<Rightarrow> u | None \<Rightarrow> [upper1 c, upper1 d])"
| "to_uppercase (c # d # e # s) =
     (case upper2 c d of Some u \<Rightarrow> u @ to_uppercase (e # s)
      | None \<Rightarrow> (case upper3 c d e of Some u \<Rightarrow> u @ to_uppercase s
                 | None \<Rightarrow> upper1 c # to_uppercase (d # e # s)))"

definition is_ascii_printing :: "char \<Rightarrow> bool" where
  "is_ascii_printing c \<longleftrightarrow> 33 \<le> (of_char c :: nat) \<and> (of_char c :: nat) \<le> 126"

lemma ascii_printing_facts:
  assumes "is_ascii_printing c"
  shows "\<not> ws1 c" "\<not> ws2 c d" "\<not> ws3 c d e" "\<not> ws2 d c" "\<not> ws3 d e c"
    "upper2 c d = None" "upper3 c d e = None"
  using assms by (auto simp: is_ascii_printing_def ws1_def ws2_def ws3_def upper2_def upper3_def)

lemma trim_start_ascii:
  "s \<noteq> [] \<Longrightarrow> is_ascii_printing (hd s) \<Longrightarrow> trim_start s = s"
  by (cases s) (auto simp: ascii_printing_facts split: list.splits)

lemma trim_end_rev_ascii:
  "s \<noteq> [] \<Longrightarrow> is_ascii_printing (hd s) \<Longrightarrow> trim_end_rev s = s"
  by (cases s) (auto simp: ascii_printing_facts split: list.splits)

text \<open>Trimming changes nothing when the first and the last byte are printing ASCII.\<close>

lemma trim_ascii:
  "s \<noteq> [] \<Longrightarrow> is_ascii_printing (hd s) \<Longrightarrow> is_ascii_printing (last s) \<Longrightarrow> trim s = s"
  by (simp add: trim_def trim_start_ascii trim_end_rev_ascii hd_rev)

lemma to_uppercase_ascii:
  "list_all is_ascii_printing s \<Longrightarrow> to_uppercase s = map upper1 s"
  by (induction s rule: to_uppercase.induct) (auto simp: ascii_printing_facts)

lemma upper1_idem [simp]: "upper1 (upper1 c) = upper1 c"
proof -
  have "\<not> is_lower (char_of ((of_char c :: nat) - 32))" if "is_lower c"
    using that by (auto simp: is_lower_def)
  then show ?thesis by (auto simp: upper1_def)
qed

lemma upper1_ascii: "is_ascii_printing c \<Longrightarrow> is_ascii_printing (upper1 c)"
  by (auto simp: upper1_def is_lower_def is_ascii_printing_def)

end
