(* ===== verification/RustPath.thy ===== *)
theory RustPath
  imports RustStr
begin

text \<open>
  Paths as \<open>std::path\<close> treats them on Unix: \<open>PathBuf::push\<close>, \<open>Path::parent\<close> and
  \<open>Path::is_absolute\<close>, on the bytes of the path. The lemmas say when a pushed path stays
  below the base and when it replaces it.
\<close>

definition is_absolute :: "string \<Rightarrow> bool" where
  "is_absolute p \<longleftrightarrow> (\<exists>r. p = CHR ''/'' # r)"

lemma is_absolute_code [code]:
  "is_absolute p = (case p of [] \<Rightarrow> False | c # _ \<Rightarrow> c = CHR ''/'')"
  by (auto simp: is_absolute_def split: list.splits)

lemma is_absolute_simps [simp]:
  "\<not> is_absolute []" "is_absolute (c # p) \<longleftrightarrow> c = CHR ''/''"
  by (auto simp: is_absolute_def)

text \<open>\<open>PathBuf::push\<close>: an absolute path replaces the buffer, any other is appended after one
  separator (none is added to an empty buffer or after a final separator).\<close>

definition path_push :: "string \<Rightarrow> string \<Rightarrow> string" where
  "path_push buf p =
     (if is_absolute p then p
      else if buf \<noteq> [] \<and> last buf \<noteq> CHR ''/'' then buf @ ''/'' @ p
      else buf @ p)"

lemma path_push_absolute: "is_absolute p \<Longrightarrow> path_push buf p = p"
  by (simp add: path_push_def)

lemma path_push_relative_prefix: "\<not> is_absolute p \<Longrightarrow> prefix buf (path_push buf p)"
  by (simp add: path_push_def)

lemma path_push_Cons:
  "c \<noteq> CHR ''/'' \<Longrightarrow> buf \<noteq> [] \<Longrightarrow> last buf \<noteq> CHR ''/'' \<Longrightarrow>
     path_push buf (c # p) = buf @ CHR ''/'' # c # p"
  by (simp add: path_push_def)

text \<open>
  \<open>Path::parent\<close>. Pieces are split at separators; empty pieces and \<open>.\<close> pieces are no
  components, except a leading \<open>.\<close> of a relative path. The last component is dropped and the
  rest is the slice up to its last component; the root and the empty path have no parent.
\<close>

definition no_component :: "nat \<Rightarrow> bool \<Rightarrow> string \<Rightarrow> bool" where
  "no_component i absolute piece \<longleftrightarrow> piece = [] \<or> (piece = ''.'' \<and> (absolute \<or> 0 < i))"

fun strip_pieces :: "bool \<Rightarrow> string list \<Rightarrow> string list" where
  "strip_pieces absolute [] = []"
| "strip_pieces absolute (p # ps) =
     (if no_component (length ps) absolute p then strip_pieces absolute ps else p # ps)"

text \<open>The pieces in reverse order, so that the last comes first.\<close>

definition path_parent :: "string \<Rightarrow> string option" where
  "path_parent p =
     (let absolute = is_absolute p;
          pieces = (if absolute then tl (split_char (CHR ''/'') p) else split_char (CHR ''/'') p)
      in case strip_pieces absolute (rev pieces) of
           [] \<Rightarrow> None
         | _ # rest \<Rightarrow>
             (let up = join_str ''/'' (rev (strip_pieces absolute rest))
              in Some (if absolute then CHR ''/'' # up else up)))"

lemma path_parent_examples:
  "path_parent ''/a/b'' = Some ''/a''" "path_parent ''/a'' = Some ''/''"
  "path_parent ''/'' = None" "path_parent [] = None" "path_parent ''a'' = Some []"
  "path_parent ''a/b/.'' = Some ''a''" "path_parent ''/a//b/'' = Some ''/a''"
  by (simp_all add: path_parent_def no_component_def Let_def)

end
