(* ===== verification/Effects.thy ===== *)
theory Effects
  imports RustPath
begin

text \<open>
  Programs that call the operating system. styrolite is a sequence of system calls and
  standard-library file operations; what the kernel does is not part of the repository, so a
  program here is the tree of its calls: each node names one call with its arguments, and the
  rest of the program is a function of the reply. Nothing is assumed of the replies. A kernel
  is any function from its own state and a call to a reply (or to no reply at all, as when
  \<open>execve\<close> replaces the process image or a signal kills it); \<open>run\<close> runs a program against a
  kernel and collects the trace of its calls. Log output and memory are not calls.

  \<open>wp\<close> is the weakest precondition of a program over all kernels: a guard that every call
  must satisfy given the calls before it, and a postcondition on the whole trace and the
  outcome. \<open>run_wp\<close> transfers it to every run against every kernel.
\<close>

section \<open>Errors and results\<close>

text \<open>\<open>Context s e\<close> is the error \<open>e\<close> under the message \<open>s\<close> (a \<open>map_err\<close> that formats it, or
  anyhow's \<open>context\<close>), \<open>Hint e s\<close> the error \<open>e\<close> with \<open>s\<close> after its message.\<close>

datatype error =
    OsError int
  | NulError
  | ParseError
  | Msg string
  | Context string error
  | Hint error string

type_synonym 'a result = "error + 'a"

definition ENOENT :: int where "ENOENT = 2"
definition EPERM :: int where "EPERM = 1"
definition ENOEXEC :: int where "ENOEXEC = 8"
definition EACCES :: int where "EACCES = 13"
definition EROFS :: int where "EROFS = 30"

text \<open>\<open>CString::new\<close> refuses an interior NUL byte.\<close>

definition cstring_new :: "string \<Rightarrow> string result" where
  "cstring_new s = (if CHR 0x00 \<in> set s then Inl NulError else Inr s)"

lemma cstring_new_Inr [simp]: "cstring_new s = Inr c \<longleftrightarrow> c = s \<and> CHR 0x00 \<notin> set s"
  by (auto simp: cstring_new_def)

section \<open>Calls and replies\<close>

text \<open>\<open>CapInternalData\<close> of \<open>caps.rs\<close>, one of the two words of a capability set.\<close>

record CapInternalData =
  d_effective :: u32
  d_permitted :: u32
  d_inheritable :: u32

text \<open>\<open>libc::mount_attr\<close>.\<close>

record mount_attr =
  attr_set :: u64
  attr_clr :: u64
  propagation :: u64
  userns_fd :: u64

datatype rlimit_resource =
    RLIMIT_AS | RLIMIT_CORE | RLIMIT_CPU | RLIMIT_DATA | RLIMIT_FSIZE | RLIMIT_MEMLOCK
  | RLIMIT_MSGQUEUE | RLIMIT_NICE | RLIMIT_NOFILE | RLIMIT_NPROC | RLIMIT_RSS
  | RLIMIT_RTPRIO | RLIMIT_RTTIME | RLIMIT_SIGPENDING | RLIMIT_STACK

datatype signal = SIGTERM | SIGINT | SIGQUIT | SIGHUP | SIGUSR1 | SIGUSR2 | SIGPIPE | OtherSignal int

text \<open>The dispositions the code installs: its own forwarding handler, the default, or ignore.\<close>

datatype disposition = ForwardSignal | SigDfl | SigIgn

text \<open>\<open>nix::sys::wait::WaitStatus\<close>; the states the code does not tell apart are \<open>OtherStatus\<close>.\<close>

datatype wait_status = Exited_status int int | StillAlive | OtherStatus

datatype wait_target = AnyChild | ChildPid int

text \<open>The calls, by the part of the system they belong to: file operations of the standard
  library, mounts, namespaces, processes (with signals, event counters and the static
  \<open>CHILD_PID\<close>), credentials and limits (with the random seed of a hash set), and what the runner and
  the unit tests use (temporary files and directories, child processes).\<close>

datatype fs_call =
    ReadToString string | ReadFile string | WriteFile string string | ReadDir string | CreateDirAll string
  | CreateFile string | SymlinkMetadata string | Metadata string | ReadLink string
  | PathExists string | SetCurrentDir string | OpenWrite string | WriteAll int string

datatype mount_call =
    MountSys "string option" string "string option" u64 "string option"
  | OpenTree int string u32 | MoveMount int string int string u32
  | MountSetattr int string u32 mount_attr | PivotRoot string string | Umount2 string int

datatype ns_call = UnshareSys u32 | PidfdOpen int u32 | SetnsSys int u32

datatype proc_call =
    GetPid | Fork | Waitpid wait_target bool | Execvpe string "string list" "string list"
  | SetSignal signal disposition | Kill int signal | StoreChildPid int
  | EventFdNew u32 bool | EventFdRead int | EventFdWrite int nat

datatype cred_call =
    GetUid | SetUid u32 | GetGid | SetGid u32 | SetGroups "u32 list"
  | Capget u32 int | Capset u32 int CapInternalData CapInternalData
  | Prctl int int int int int | SeccompSetFilter u64 u64 u16 "(u16 \<times> u8 \<times> u8 \<times> u32) list"

datatype sys_call =
    SetRlimit rlimit_resource u64 u64 | SetHostname string nat | ClockBoottime
  | Faccessat string | IsATty int | Fchown int u32 u32 | HashSeed

datatype run_call =
    TempFileNew string string | TempFileWrite string string | TempFileFlush string
  | CommandStatus string "string list" | CommandExec string "string list"
  | GetEuid | GetEgid | CurrentDir | TempDirNew | TempDirDrop string

datatype syscall =
    Fs fs_call | Mnt mount_call | Ns ns_call | Proc proc_call | Cred cred_call
  | Sys sys_call | Run run_call

text \<open>
  What a call can return. \<open>rc\<close> is the raw return value; a \<open>Result\<close> of the standard library
  is \<open>Err\<close> with \<open>errno\<close> where \<open>rc\<close> is negative. The other fields are read only by the calls
  that return such a value (\<open>old_handler\<close> is the disposition that \<open>signal(2)\<close> returns); \<open>entries\<close> has \<open>None\<close> where a directory entry could not be read.
\<close>

record reply =
  rc :: int
  errno :: int
  contents :: string
  entries :: "string option list"
  is_dir :: bool
  status :: wait_status
  caplo :: CapInternalData
  caphi :: CapInternalData
  seed :: "nat list"
  tv_sec :: int
  old_handler :: disposition

definition reply0 :: reply where
  "reply0 = \<lparr>rc = 0, errno = 0, contents = [], entries = [], is_dir = False, status = StillAlive,
     caplo = \<lparr>d_effective = 0, d_permitted = 0, d_inheritable = 0\<rparr>,
     caphi = \<lparr>d_effective = 0, d_permitted = 0, d_inheritable = 0\<rparr>, seed = [], tv_sec = 0, old_handler = SigDfl\<rparr>"

abbreviation failed :: "reply \<Rightarrow> bool" where
  "failed r \<equiv> rc r < 0"

section \<open>Programs\<close>

text \<open>\<open>Halt c\<close> is \<open>process::exit(c)\<close>; \<open>OutOfFuel\<close> marks a loop cut off by its fuel.\<close>

datatype 'a prog = Ret 'a | Halt int | OutOfFuel | Call syscall "reply \<Rightarrow> 'a prog"

type_synonym 'a io = "'a result prog"

primrec bind :: "'a prog \<Rightarrow> ('a \<Rightarrow> 'b prog) \<Rightarrow> 'b prog" where
  "bind (Ret a) f = f a"
| "bind (Halt c) f = Halt c"
| "bind OutOfFuel f = OutOfFuel"
| "bind (Call s k) f = Call s (\<lambda>r. bind (k r) f)"

abbreviation ok :: "'a \<Rightarrow> 'a io" where
  "ok a \<equiv> Ret (Inr a)"

abbreviation fail :: "error \<Rightarrow> 'a io" where
  "fail e \<equiv> Ret (Inl e)"

text \<open>The \<open>?\<close> operator: go on with the value, or return the error.\<close>

definition try_io :: "'a io \<Rightarrow> ('a \<Rightarrow> 'b io) \<Rightarrow> 'b io" where
  "try_io m f = bind m (\<lambda>x. case x of Inl e \<Rightarrow> fail e | Inr a \<Rightarrow> f a)"

text \<open>\<open>map_err\<close> and \<open>context\<close>.\<close>

definition map_err :: "(error \<Rightarrow> error) \<Rightarrow> 'a io \<Rightarrow> 'a io" where
  "map_err g m = bind m (\<lambda>x. Ret (case x of Inl e \<Rightarrow> Inl (g e) | Inr a \<Rightarrow> Inr a))"

text \<open>\<open>if m.is_err() { warn }\<close>: the error is logged and dropped.\<close>

definition warn_on_err :: "'a io \<Rightarrow> unit io" where
  "warn_on_err m = bind m (\<lambda>_. ok ())"

text \<open>A bare call, a call whose negative return value is an error, and a call made only for
  its effect.\<close>

definition sys :: "syscall \<Rightarrow> reply io" where
  "sys s = Call s (\<lambda>r. ok r)"

definition sys_res :: "syscall \<Rightarrow> reply io" where
  "sys_res s = Call s (\<lambda>r. if failed r then fail (OsError (errno r)) else ok r)"

definition sys_unit :: "syscall \<Rightarrow> unit io" where
  "sys_unit s = Call s (\<lambda>r. if failed r then fail (OsError (errno r)) else ok ())"

text \<open>\<open>for x in xs { f(x)?; }\<close>.\<close>

primrec for_io :: "('a \<Rightarrow> unit io) \<Rightarrow> 'a list \<Rightarrow> unit io" where
  "for_io f [] = ok ()"
| "for_io f (x # xs) = try_io (f x) (\<lambda>_. for_io f xs)"

text \<open>Structural induction with the hypothesis for every reply.\<close>

lemma prog_induct [case_names Ret Halt OutOfFuel Call]:
  assumes "\<And>a. P (Ret a)" "\<And>c. P (Halt c)" "P OutOfFuel"
    and "\<And>s k. (\<And>r. P (k r)) \<Longrightarrow> P (Call s k)"
  shows "P p"
  by (induction p) (auto intro: assms)

lemma bind_Ret [simp]: "bind m Ret = m"
  by (induction m) auto

lemma bind_assoc [simp]: "bind (bind m f) g = bind m (\<lambda>a. bind (f a) g)"
  by (induction m) auto

lemma try_io_simps [simp]:
  "try_io (Ret (Inr a)) f = f a" "try_io (Ret (Inl e)) f = fail e"
  "try_io (Halt c) f = Halt c" "try_io OutOfFuel f = OutOfFuel"
  "try_io (Call s k) f = Call s (\<lambda>r. try_io (k r) f)"
  by (simp_all add: try_io_def)

lemma try_io_Ret: "try_io (Ret x) f = (case x of Inl e \<Rightarrow> fail e | Inr a \<Rightarrow> f a)"
  by (simp add: try_io_def)

lemma try_io_assoc [simp]: "try_io (try_io m f) g = try_io m (\<lambda>a. try_io (f a) g)"
  by (simp add: try_io_def) (rule arg_cong [of _ _ "bind m"], auto split: sum.splits)

lemma map_err_simps [simp]:
  "map_err g (Ret (Inr a)) = ok a" "map_err g (Ret (Inl e)) = fail (g e)"
  "map_err g (Halt c) = Halt c" "map_err g OutOfFuel = OutOfFuel"
  "map_err g (Call s k) = Call s (\<lambda>r. map_err g (k r))"
  by (simp_all add: map_err_def)

lemma warn_on_err_simps [simp]:
  "warn_on_err (Ret x) = ok ()"
  "warn_on_err (Halt c) = Halt c" "warn_on_err OutOfFuel = OutOfFuel"
  "warn_on_err (Call s k) = Call s (\<lambda>r. warn_on_err (k r))"
  by (simp_all add: warn_on_err_def)

lemma for_io_append: "for_io f (xs @ ys) = try_io (for_io f xs) (\<lambda>_. for_io f ys)"
  by (induction xs) auto

section \<open>Runs against a kernel\<close>

type_synonym event = "syscall \<times> reply option"

type_synonym 'w kernel = "'w \<Rightarrow> syscall \<Rightarrow> reply option \<times> 'w"

text \<open>How a run ends: with a value, by \<open>process::exit\<close>, inside a call that never returned, or
  cut off by fuel.\<close>

datatype 'a outcome = Done 'a | Exited int | Gone | NoFuel

primrec run :: "'w kernel \<Rightarrow> 'w \<Rightarrow> 'a prog \<Rightarrow> event list \<times> 'a outcome \<times> 'w" where
  "run K w (Ret a) = ([], Done a, w)"
| "run K w (Halt c) = ([], Exited c, w)"
| "run K w OutOfFuel = ([], NoFuel, w)"
| "run K w (Call s k) =
     (case K w s of
        (None, w') \<Rightarrow> ([(s, None)], Gone, w')
      | (Some r, w') \<Rightarrow> (case run K w' (k r) of (tr, out, w'') \<Rightarrow> ((s, Some r) # tr, out, w'')))"

definition trace :: "'w kernel \<Rightarrow> 'w \<Rightarrow> 'a prog \<Rightarrow> event list" where
  "trace K w p = fst (run K w p)"

definition outcome_of :: "'w kernel \<Rightarrow> 'w \<Rightarrow> 'a prog \<Rightarrow> 'a outcome" where
  "outcome_of K w p = fst (snd (run K w p))"

definition calls :: "event list \<Rightarrow> syscall list" where
  "calls tr = map fst tr"

text \<open>\<open>scripted\<close> is a kernel for examples: it answers from a function of the call, and does not
  return from the calls of the given predicate.\<close>

definition scripted :: "(syscall \<Rightarrow> bool) \<Rightarrow> (syscall \<Rightarrow> reply) \<Rightarrow> unit kernel" where
  "scripted noret f = (\<lambda>w s. (if noret s then None else Some (f s), w))"

lemma trace_simps [simp]:
  "trace K w (Ret a) = []" "trace K w (Halt c) = []" "trace K w OutOfFuel = []"
  "trace K w (Call s k) =
     (case K w s of (None, w') \<Rightarrow> [(s, None)] | (Some r, w') \<Rightarrow> (s, Some r) # trace K w' (k r))"
  by (auto simp: trace_def split: prod.splits option.splits)

lemma outcome_of_simps [simp]:
  "outcome_of K w (Ret a) = Done a" "outcome_of K w (Halt c) = Exited c"
  "outcome_of K w OutOfFuel = NoFuel"
  "outcome_of K w (Call s k) =
     (case K w s of (None, w') \<Rightarrow> Gone | (Some r, w') \<Rightarrow> outcome_of K w' (k r))"
  by (auto simp: outcome_of_def split: prod.splits option.splits)

section \<open>Weakest preconditions over all kernels\<close>

primrec wp :: "(event list \<Rightarrow> syscall \<Rightarrow> bool) \<Rightarrow> (event list \<Rightarrow> 'a outcome \<Rightarrow> bool) \<Rightarrow> 'a prog
    \<Rightarrow> event list \<Rightarrow> bool" where
  "wp G Q (Ret a) = (\<lambda>h. Q h (Done a))"
| "wp G Q (Halt c) = (\<lambda>h. Q h (Exited c))"
| "wp G Q OutOfFuel = (\<lambda>h. Q h NoFuel)"
| "wp G Q (Call s k) =
     (\<lambda>h. G h s \<and> Q (h @ [(s, None)]) Gone \<and> (\<forall>r. wp G Q (k r) (h @ [(s, Some r)])))"

lemma run_wp:
  assumes "wp G Q p h"
  shows "Q (h @ trace K w p) (outcome_of K w p) \<and>
    (\<forall>pre s r post. trace K w p = pre @ (s, r) # post \<longrightarrow> G (h @ pre) s)"
  using assms
proof (induction p arbitrary: h w)
  case (Call s k)
  obtain x w' where kw: "K w s = (x, w')" by (cases "K w s")
  show ?case
  proof (cases x)
    case None
    with Call.prems kw show ?thesis by (auto simp: Cons_split_append)
  next
    case (Some r)
    from Call.prems have "wp G Q (k r) (h @ [(s, Some r)])" by simp
    then have IH: "Q (h @ [(s, Some r)] @ trace K w' (k r)) (outcome_of K w' (k r)) \<and>
        (\<forall>pre s' r' post. trace K w' (k r) = pre @ (s', r') # post \<longrightarrow> G (h @ [(s, Some r)] @ pre) s')"
      using Call.IH [of "k r" "h @ [(s, Some r)]" w'] by simp
    with Some kw Call.prems show ?thesis
      by (auto simp: Cons_split_append)
  qed
qed simp_all

corollary run_wp_post: "wp G Q p [] \<Longrightarrow> Q (trace K w p) (outcome_of K w p)"
  using run_wp [of G Q p "[]" K w] by simp

corollary run_wp_guard:
  "wp G Q p [] \<Longrightarrow> trace K w p = pre @ (s, r) # post \<Longrightarrow> G pre s"
  using run_wp [of G Q p "[]" K w] by auto

lemma wp_mono:
  assumes "wp G Q p h" and "\<And>h s. G h s \<Longrightarrow> G' h s" and "\<And>h x. Q h x \<Longrightarrow> Q' h x"
  shows "wp G' Q' p h"
  using assms(1) by (induction p arbitrary: h) (auto simp: assms(2,3))

text \<open>The history before a program can be moved into the guard and the postcondition.\<close>

lemma wp_shift: "wp G Q p (h @ h') \<longleftrightarrow> wp (\<lambda>t. G (h @ t)) (\<lambda>t. Q (h @ t)) p h'"
  by (induction p arbitrary: h') auto

lemma wp_shift_Nil: "wp G Q p h \<longleftrightarrow> wp (\<lambda>t. G (h @ t)) (\<lambda>t. Q (h @ t)) p []"
  using wp_shift [of G Q p h "[]"] by simp

definition post_bind :: "(event list \<Rightarrow> 'b outcome \<Rightarrow> bool) \<Rightarrow> (event list \<Rightarrow> 'a \<Rightarrow> bool)
    \<Rightarrow> event list \<Rightarrow> 'a outcome \<Rightarrow> bool" where
  "post_bind Q F h x = (case x of Done a \<Rightarrow> F h a | Exited c \<Rightarrow> Q h (Exited c)
     | Gone \<Rightarrow> Q h Gone | NoFuel \<Rightarrow> Q h NoFuel)"

lemma post_bind_simps [simp]:
  "post_bind Q F h (Done a) = F h a" "post_bind Q F h (Exited c) = Q h (Exited c)"
  "post_bind Q F h Gone = Q h Gone" "post_bind Q F h NoFuel = Q h NoFuel"
  by (simp_all add: post_bind_def)

lemma wp_bind: "wp G Q (bind p f) = wp G (post_bind Q (\<lambda>h a. wp G Q (f a) h)) p"
  by (induction p) auto

definition post_try :: "(event list \<Rightarrow> 'b result outcome \<Rightarrow> bool) \<Rightarrow> (event list \<Rightarrow> 'a \<Rightarrow> bool)
    \<Rightarrow> event list \<Rightarrow> 'a result outcome \<Rightarrow> bool" where
  "post_try Q F = post_bind Q (\<lambda>h x. case x of Inl e \<Rightarrow> Q h (Done (Inl e)) | Inr a \<Rightarrow> F h a)"

lemma post_try_simps [simp]:
  "post_try Q F h (Done (Inl e)) = Q h (Done (Inl e))" "post_try Q F h (Done (Inr a)) = F h a"
  "post_try Q F h (Exited c) = Q h (Exited c)" "post_try Q F h Gone = Q h Gone"
  "post_try Q F h NoFuel = Q h NoFuel"
  by (simp_all add: post_try_def)

lemma wp_try: "wp G Q (try_io m f) = wp G (post_try Q (\<lambda>h a. wp G Q (f a) h)) m"
  by (simp add: try_io_def wp_bind post_try_def)
    (rule arg_cong [where f = "\<lambda>Q. wp G Q m"],
     auto simp: fun_eq_iff post_bind_def split: outcome.splits sum.splits)

section \<open>Which calls a program can make\<close>

text \<open>\<open>only_calls P p\<close>: whatever the kernel answers, \<open>p\<close> makes only calls in \<open>P\<close>.\<close>

primrec only_calls :: "(syscall \<Rightarrow> bool) \<Rightarrow> 'a prog \<Rightarrow> bool" where
  "only_calls P (Ret a) = True"
| "only_calls P (Halt c) = True"
| "only_calls P OutOfFuel = True"
| "only_calls P (Call s k) = (P s \<and> (\<forall>r. only_calls P (k r)))"

lemma only_calls_bind:
  "only_calls P p \<Longrightarrow> (\<And>a. only_calls P (f a)) \<Longrightarrow> only_calls P (bind p f)"
  by (induction p) auto

lemma only_calls_try [intro]:
  "only_calls P p \<Longrightarrow> (\<And>a. only_calls P (f a)) \<Longrightarrow> only_calls P (try_io p f)"
  unfolding try_io_def by (rule only_calls_bind) (auto split: sum.splits)

lemma only_calls_map_err [intro]: "only_calls P p \<Longrightarrow> only_calls P (map_err g p)"
  unfolding map_err_def by (rule only_calls_bind) auto

lemma only_calls_warn [intro]: "only_calls P p \<Longrightarrow> only_calls P (warn_on_err p)"
  unfolding warn_on_err_def by (rule only_calls_bind) auto

lemma only_calls_for [intro]:
  "(\<And>x. x \<in> set xs \<Longrightarrow> only_calls P (f x)) \<Longrightarrow> only_calls P (for_io f xs)"
  by (induction xs) auto

lemma only_calls_sys [simp]:
  "only_calls P (sys s) \<longleftrightarrow> P s" "only_calls P (sys_res s) \<longleftrightarrow> P s" "only_calls P (sys_unit s) \<longleftrightarrow> P s"
  by (auto simp: sys_def sys_res_def sys_unit_def)

lemma only_calls_mono: "only_calls P p \<Longrightarrow> (\<And>s. P s \<Longrightarrow> P' s) \<Longrightarrow> only_calls P' p"
  by (induction p) auto

lemma only_calls_trace: "only_calls P p \<Longrightarrow> (s, r) \<in> set (trace K w p) \<Longrightarrow> P s"
proof (induction p arbitrary: w)
  case (Call s' k)
  then show ?case by (cases "K w s'") (auto split: option.splits)
qed auto

lemma only_calls_calls: "only_calls P p \<Longrightarrow> list_all P (calls (trace K w p))"
  using only_calls_trace by (fastforce simp: list_all_iff calls_def)

text \<open>What is known of a program from its calls alone.\<close>

lemma wp_only_calls:
  assumes "only_calls P p" and "\<And>h' x. list_all (\<lambda>e. P (fst e)) h' \<Longrightarrow> Q (h @ h') x"
  shows "wp (\<lambda>_ _. True) Q p h"
  using assms
proof (induction p arbitrary: h rule: prog_induct)
  case (Call s k)
  have "wp (\<lambda>_ _. True) Q (k r) (h @ [(s, Some r)])" for r
  proof (rule Call.IH)
    show "only_calls P (k r)" using Call.prems(1) by simp
    show "Q ((h @ [(s, Some r)]) @ h') x" if "list_all (\<lambda>e. P (fst e)) h'" for h' x
      using Call.prems(2) [of "(s, Some r) # h'" x] that Call.prems(1) by simp
  qed
  with Call.prems(2) [of "[(s, None)]" Gone] Call.prems(1) show ?case by simp
next
  case (Ret a)
  then show ?case using Ret(2) [of "[]"] by simp
next
  case (Halt c)
  then show ?case using Halt(2) [of "[]"] by simp
next
  case OutOfFuel
  then show ?case using OutOfFuel(2) [of "[]"] by simp
qed

text \<open>
  \<open>ranked f p lo hi\<close>: the calls of \<open>p\<close> that \<open>f\<close> ranks come with ranks that never decrease,
  all between \<open>lo\<close> and \<open>hi\<close>; a program in phases is ranked by its phases.
\<close>

primrec ranked :: "(syscall \<Rightarrow> nat option) \<Rightarrow> 'a prog \<Rightarrow> nat \<Rightarrow> nat \<Rightarrow> bool" where
  "ranked f (Ret a) = (\<lambda>lo hi. lo \<le> hi)"
| "ranked f (Halt c) = (\<lambda>lo hi. lo \<le> hi)"
| "ranked f OutOfFuel = (\<lambda>lo hi. lo \<le> hi)"
| "ranked f (Call s k) = (\<lambda>lo hi. case f s of
     None \<Rightarrow> (\<forall>r. ranked f (k r) lo hi)
   | Some n \<Rightarrow> lo \<le> n \<and> n \<le> hi \<and> (\<forall>r. ranked f (k r) n hi))"

lemma ranked_le: "ranked f p lo hi \<Longrightarrow> lo \<le> hi"
  by (induction p arbitrary: lo) (auto split: option.splits dest: le_trans)

lemma ranked_mono: "ranked f p lo hi \<Longrightarrow> lo' \<le> lo \<Longrightarrow> hi \<le> hi' \<Longrightarrow> ranked f p lo' hi'"
proof (induction p arbitrary: lo lo' rule: prog_induct)
  case (Call s k)
  then show ?case by (cases "f s") (auto intro: le_trans)
qed auto

lemma ranked_bind:
  assumes "ranked f p lo mid" and "\<And>a. ranked f (q a) mid hi"
  shows "ranked f (bind p q) lo hi"
proof -
  have hi: "mid \<le> hi" using assms(2) ranked_le by blast
  show ?thesis using assms(1)
  proof (induction p arbitrary: lo)
    case (Ret a)
    then show ?case using ranked_mono [OF assms(2), of lo hi a] by simp
  next
    case (Call s k)
    then show ?case using hi by (auto split: option.splits)
  qed (use hi in auto)
qed

lemma ranked_try [intro]:
  "ranked f p lo mid \<Longrightarrow> (\<And>a. ranked f (q a) mid hi) \<Longrightarrow> mid \<le> hi \<Longrightarrow> ranked f (try_io p q) lo hi"
  unfolding try_io_def by (erule ranked_bind) (auto split: sum.splits)

lemma ranked_map_err [intro]: "ranked f p lo hi \<Longrightarrow> ranked f (map_err g p) lo hi"
  unfolding map_err_def by (erule ranked_bind) auto

lemma ranked_warn [intro]: "ranked f p lo hi \<Longrightarrow> ranked f (warn_on_err p) lo hi"
  unfolding warn_on_err_def by (erule ranked_bind) auto

lemma ranked_only:
  "only_calls (\<lambda>s. f s = None \<or> f s = Some n) p \<Longrightarrow> lo \<le> n \<Longrightarrow> n \<le> hi \<Longrightarrow> ranked f p lo hi"
  by (induction p arbitrary: lo) (auto split: option.splits)

definition ranks :: "(syscall \<Rightarrow> nat option) \<Rightarrow> event list \<Rightarrow> nat list" where
  "ranks f tr = List.map_filter f (calls tr)"

lemma ranks_simps [simp]:
  "ranks f [] = []"
  "ranks f (e # tr) = (case f (fst e) of None \<Rightarrow> ranks f tr | Some n \<Rightarrow> n # ranks f tr)"
  by (simp_all add: ranks_def calls_def List.map_filter_simps split: option.split)

lemma ranked_trace:
  "ranked f p lo hi \<Longrightarrow> sorted (lo # ranks f (trace K w p)) \<and> set (ranks f (trace K w p)) \<subseteq> {lo..hi}"
proof (induction p arbitrary: lo w)
  case (Call s k)
  obtain x w' where kw: "K w s = (x, w')" by (cases "K w s")
  show ?case
  proof (cases x)
    case None
    with kw Call.prems show ?thesis by (auto split: option.splits)
  next
    case (Some r)
    show ?thesis
    proof (cases "f s")
      case None
      with Call.prems have "ranked f (k r) lo hi" by simp
      from Call.IH [OF _ this, of w'] None Some kw show ?thesis by simp
    next
      case (Some n)
      with Call.prems have n: "lo \<le> n" "n \<le> hi" and "ranked f (k r) n hi" by auto
      from Call.IH [OF _ this(3), of w'] n Some \<open>x = Some r\<close> kw show ?thesis
        by (fastforce simp: subset_iff)
    qed
  qed
qed auto

text \<open>How the calls of a sequence split into the calls of its parts.\<close>

lemma run_bind:
  "run K w (bind p f) =
     (case run K w p of (tr, out, w') \<Rightarrow>
        (case out of
           Done a \<Rightarrow> (case run K w' (f a) of (tr', out', w'') \<Rightarrow> (tr @ tr', out', w''))
         | Exited c \<Rightarrow> (tr, Exited c, w') | Gone \<Rightarrow> (tr, Gone, w') | NoFuel \<Rightarrow> (tr, NoFuel, w')))"
proof (induction p arbitrary: w rule: prog_induct)
  case (Call s k)
  show ?case
    by (simp add: Call.IH split: prod.split option.split outcome.split)
qed (simp_all split: prod.split)

section \<open>Successful runs\<close>

text \<open>\<open>succeeds K w p tr a w'\<close>: against \<open>K\<close> in state \<open>w\<close> the program returns \<open>Ok(a)\<close>, with the
  calls \<open>tr\<close> and the kernel in state \<open>w'\<close>. The rules take such a run apart along the program.\<close>

definition succeeds :: "'w kernel \<Rightarrow> 'w \<Rightarrow> 'a io \<Rightarrow> event list \<Rightarrow> 'a \<Rightarrow> 'w \<Rightarrow> bool" where
  "succeeds K w p tr a w' \<longleftrightarrow> run K w p = (tr, Done (Inr a), w')"

lemma succeeds_simps [simp]:
  "succeeds K w (Ret x) tr a w' \<longleftrightarrow> x = Inr a \<and> tr = [] \<and> w' = w"
  "\<not> succeeds K w (Halt c) tr a w'" "\<not> succeeds K w OutOfFuel tr a w'"
  "succeeds K w (Call s k) tr a w' \<longleftrightarrow>
     (\<exists>r w1 t. K w s = (Some r, w1) \<and> tr = (s, Some r) # t \<and> succeeds K w1 (k r) t a w')"
  by (auto simp: succeeds_def split: prod.splits option.splits)

lemma succeeds_try:
  "succeeds K w (try_io m f) tr b w' \<longleftrightarrow>
     (\<exists>t1 a w1 t2. succeeds K w m t1 a w1 \<and> succeeds K w1 (f a) t2 b w' \<and> tr = t1 @ t2)"
proof (induction m arbitrary: w tr rule: prog_induct)
  case (Ret x)
  then show ?case by (cases x) auto
next
  case (Call s k)
  show ?case
    by (simp add: Call.IH) (metis append_Cons)
qed simp_all

lemma succeeds_try_E:
  assumes "succeeds K w (try_io m f) tr b w'"
  obtains t1 a w1 t2 where "succeeds K w m t1 a w1" "succeeds K w1 (f a) t2 b w'" "tr = t1 @ t2"
  using assms unfolding succeeds_try by blast

lemma succeeds_map_err [simp]: "succeeds K w (map_err g m) tr a w' \<longleftrightarrow> succeeds K w m tr a w'"
proof (induction m arbitrary: w tr rule: prog_induct)
  case (Ret x)
  then show ?case by (cases x) auto
qed simp_all

lemma outcome_succeeds:
  "outcome_of K w p = Done (Inr a) \<longleftrightarrow> (\<exists>w'. succeeds K w p (trace K w p) a w')"
  by (cases "run K w p") (auto simp: succeeds_def outcome_of_def trace_def)

lemma succeeds_trace: "succeeds K w p tr a w' \<Longrightarrow> trace K w p = tr \<and> outcome_of K w p = Done (Inr a)"
  by (simp add: succeeds_def trace_def outcome_of_def)

lemma try_succeeds:
  assumes "succeeds K w m tr a w1"
  shows "trace K w (try_io m f) = tr @ trace K w1 (f a)" "outcome_of K w (try_io m f) = outcome_of K w1 (f a)"
  using assms by (simp_all add: succeeds_def trace_def outcome_of_def try_io_def run_bind split: prod.split)

text \<open>Either the first program succeeds and the second goes on, or its trace is the whole trace.\<close>

lemma try_cases:
  obtains (go_on) a w1 where "succeeds K w m (trace K w m) a w1"
      "trace K w (try_io m f) = trace K w m @ trace K w1 (f a)"
      "outcome_of K w (try_io m f) = outcome_of K w1 (f a)"
  | (stop) "trace K w (try_io m f) = trace K w m"
      "\<And>a. outcome_of K w m \<noteq> Done (Inr a)" "\<And>b. outcome_of K w (try_io m f) \<noteq> Done (Inr b)"
proof -
  have "(\<exists>a w1. succeeds K w m (trace K w m) a w1 \<and>
        trace K w (try_io m f) = trace K w m @ trace K w1 (f a) \<and>
        outcome_of K w (try_io m f) = outcome_of K w1 (f a)) \<or>
     (trace K w (try_io m f) = trace K w m \<and> (\<forall>a. outcome_of K w m \<noteq> Done (Inr a)) \<and>
        (\<forall>b. outcome_of K w (try_io m f) \<noteq> Done (Inr b)))"
  proof (induction m arbitrary: w rule: prog_induct)
    case (Ret x)
    then show ?case by (cases x) auto
  next
    case (Call s k)
    obtain x w' where kw: "K w s = (x, w')" by (cases "K w s")
    show ?case
    proof (cases x)
      case (Some r)
      with kw Call.IH [of w' r] show ?thesis by auto
    qed (simp add: kw)
  qed simp_all
  then show thesis using that by blast
qed

text \<open>A call that the first program cannot make is reached only through its success.\<close>

lemma try_reached:
  assumes "trace K w (try_io m f) = pre @ (s, r) # post" and "P s" and "only_calls (\<lambda>s. \<not> P s) m"
  obtains a w1 pre' where "succeeds K w m (trace K w m) a w1" "pre = trace K w m @ pre'"
    "trace K w1 (f a) = pre' @ (s, r) # post"
proof (cases rule: try_cases [of K w m f])
  case (go_on a w1)
  have "(s, r) \<notin> set (trace K w m)" using only_calls_trace [OF assms(3), of s r K w] assms(2) by blast
  then have "\<not> (\<exists>mid. trace K w m = pre @ (s, r) # mid \<and> post = mid @ trace K w1 (f a))" by auto
  with assms(1) go_on(2) obtain mid where "pre = trace K w m @ mid" "trace K w1 (f a) = mid @ (s, r) # post"
    by (auto simp: list_split_append)
  with go_on that show thesis by blast
next
  case stop
  with assms(1) have "(s, r) \<in> set (trace K w m)" by simp
  with only_calls_trace [OF assms(3), of s r K w] assms(2) show thesis by blast
qed

text \<open>A call that returned without an error, and one that returned zero.\<close>

definition event_ok :: "event \<Rightarrow> bool" where
  "event_ok e = (case snd e of None \<Rightarrow> False | Some r \<Rightarrow> \<not> failed r)"

definition event_zero :: "event \<Rightarrow> bool" where
  "event_zero e = (case snd e of None \<Rightarrow> False | Some r \<Rightarrow> rc r = 0)"

lemma event_ok_simps [simp]: "event_ok (s, Some r) \<longleftrightarrow> \<not> failed r" "\<not> event_ok (s, None)"
  by (simp_all add: event_ok_def)

lemma event_zero_simps [simp]: "event_zero (s, Some r) \<longleftrightarrow> rc r = 0" "\<not> event_zero (s, None)"
  by (simp_all add: event_zero_def)

lemma succeeds_warn:
  "succeeds K w (warn_on_err m) tr u w' \<longleftrightarrow> (\<exists>x. run K w m = (tr, Done x, w'))"
  by (simp add: succeeds_def warn_on_err_def run_bind split: prod.split outcome.split)

lemma succeeds_warn_sys [simp]:
  "succeeds K w (warn_on_err (sys_unit s)) tr u w' \<longleftrightarrow> (\<exists>r. K w s = (Some r, w') \<and> tr = [(s, Some r)])"
  by (auto simp: sys_unit_def split: if_splits)

lemma succeeds_sys [simp]:
  "succeeds K w (sys s) tr a w' \<longleftrightarrow> K w s = (Some a, w') \<and> tr = [(s, Some a)]"
  "succeeds K w (sys_res s) tr a w' \<longleftrightarrow> K w s = (Some a, w') \<and> tr = [(s, Some a)] \<and> \<not> failed a"
  "succeeds K w (sys_unit s) tr u w' \<longleftrightarrow> (\<exists>r. K w s = (Some r, w') \<and> tr = [(s, Some r)] \<and> \<not> failed r)"
  by (auto simp: sys_def sys_res_def sys_unit_def split: if_splits)

text \<open>A loop over single calls.\<close>

lemma succeeds_for_calls:
  assumes "\<And>x. x \<in> set xs \<Longrightarrow> f x = Call (c x) (\<lambda>r. if bad x r then fail (e x r) else ok ())"
  shows "succeeds K w (for_io f xs) tr a w' \<Longrightarrow> calls tr = map c xs \<and>
    list_all2 (\<lambda>x ev. \<exists>r. snd ev = Some r \<and> \<not> bad x r) xs tr"
  using assms
proof (induction xs arbitrary: w tr)
  case (Cons x xs)
  from Cons.prems(2) have fx: "f x = Call (c x) (\<lambda>r. if bad x r then fail (e x r) else ok ())" by simp
  from Cons.prems(1) obtain r w1 t where tr: "tr = (c x, Some r) # t" "\<not> bad x r"
    and t: "succeeds K w1 (for_io f xs) t a w'"
    by (auto simp: fx succeeds_try split: if_splits)
  from Cons.IH [OF t] Cons.prems(2) tr show ?case by (simp add: calls_def)
qed (simp add: calls_def)

text \<open>A loop in general: the traces of the rounds, one after the other.\<close>

lemma succeeds_for:
  "succeeds K w (for_io f xs) tr u w' \<Longrightarrow>
     \<exists>trs. tr = concat trs \<and> list_all2 (\<lambda>x t. \<exists>w1 w2. succeeds K w1 (f x) t () w2) xs trs"
proof (induction xs arbitrary: w tr)
  case (Cons x xs)
  from Cons.prems obtain t1 w1 t2 where 1: "succeeds K w (f x) t1 () w1"
    and 2: "succeeds K w1 (for_io f xs) t2 u w'" and "tr = t1 @ t2"
    by (auto simp: succeeds_try)
  moreover from Cons.IH [OF 2] obtain trs where "t2 = concat trs"
    "list_all2 (\<lambda>x t. \<exists>w1 w2. succeeds K w1 (f x) t () w2) xs trs" by blast
  ultimately show ?case by (intro exI [of _ "t1 # trs"]) auto
qed simp

lemma calls_simps [simp]: "calls [] = []" "calls (e # tr) = fst e # calls tr"
    "calls (tr @ tr') = calls tr @ calls tr'"
  by (simp_all add: calls_def)

end
