(* ===== verification/Caps.thy ===== *)
theory Caps
  imports Effects
begin

text \<open>
  \<open>src/caps.rs\<close>: the capability enumeration, its masks in a \<open>u64\<close>, the parser of capability
  names, the two-word layout of \<open>capget(2)\<close>/\<open>capset(2)\<close>, and the calls that read and write
  the process's capability sets. The lemmas show that the masks behave as a set of
  capabilities, that the layout conversion is a bijection, and which names the parser takes.
\<close>

section \<open>The enumeration\<close>

datatype CapabilityBit =
    Chown | DacOverride | DacReadSearch | Fowner | Fsetid
  | Kill | Setgid | Setuid | Setpcap | LinuxImmutable
  | NetBindService | NetBroadcast | NetAdmin | NetRaw | IpcLock
  | IpcOwner | SysModule | SysRawIO | SysChroot | SysPtrace
  | SysPacct | SysAdmin | SysBoot | SysNice | SysResource
  | SysTime | SysTtyConfig | Mknod | Lease | AuditWrite
  | AuditControl | Setfcap | MacOverride | MacAdmin | Syslog
  | WakeAlarm | BlockSuspend | AuditRead | Perfmon | Bpf
  | CheckpointRestore

fun to_cap_number :: "CapabilityBit \<Rightarrow> u8" where
  "to_cap_number Chown = 0"
| "to_cap_number DacOverride = 1"
| "to_cap_number DacReadSearch = 2"
| "to_cap_number Fowner = 3"
| "to_cap_number Fsetid = 4"
| "to_cap_number Kill = 5"
| "to_cap_number Setgid = 6"
| "to_cap_number Setuid = 7"
| "to_cap_number Setpcap = 8"
| "to_cap_number LinuxImmutable = 9"
| "to_cap_number NetBindService = 10"
| "to_cap_number NetBroadcast = 11"
| "to_cap_number NetAdmin = 12"
| "to_cap_number NetRaw = 13"
| "to_cap_number IpcLock = 14"
| "to_cap_number IpcOwner = 15"
| "to_cap_number SysModule = 16"
| "to_cap_number SysRawIO = 17"
| "to_cap_number SysChroot = 18"
| "to_cap_number SysPtrace = 19"
| "to_cap_number SysPacct = 20"
| "to_cap_number SysAdmin = 21"
| "to_cap_number SysBoot = 22"
| "to_cap_number SysNice = 23"
| "to_cap_number SysResource = 24"
| "to_cap_number SysTime = 25"
| "to_cap_number SysTtyConfig = 26"
| "to_cap_number Mknod = 27"
| "to_cap_number Lease = 28"
| "to_cap_number AuditWrite = 29"
| "to_cap_number AuditControl = 30"
| "to_cap_number Setfcap = 31"
| "to_cap_number MacOverride = 32"
| "to_cap_number MacAdmin = 33"
| "to_cap_number Syslog = 34"
| "to_cap_number WakeAlarm = 35"
| "to_cap_number BlockSuspend = 36"
| "to_cap_number AuditRead = 37"
| "to_cap_number Perfmon = 38"
| "to_cap_number Bpf = 39"
| "to_cap_number CheckpointRestore = 40"

definition ALL_caps :: "CapabilityBit list" where
  "ALL_caps =
    [Chown, DacOverride, DacReadSearch, Fowner, Fsetid, Kill,
     Setgid, Setuid, Setpcap, LinuxImmutable, NetBindService, NetBroadcast,
     NetAdmin, NetRaw, IpcLock, IpcOwner, SysModule, SysRawIO,
     SysChroot, SysPtrace, SysPacct, SysAdmin, SysBoot, SysNice,
     SysResource, SysTime, SysTtyConfig, Mknod, Lease, AuditWrite,
     AuditControl, Setfcap, MacOverride, MacAdmin, Syslog, WakeAlarm,
     BlockSuspend, AuditRead, Perfmon, Bpf, CheckpointRestore]"

text \<open>\<open>AsRef<str>\<close>.\<close>

fun as_ref :: "CapabilityBit \<Rightarrow> string" where
  "as_ref Chown = ''CHOWN''"
| "as_ref DacOverride = ''DAC_OVERRIDE''"
| "as_ref DacReadSearch = ''DAC_READ_SEARCH''"
| "as_ref Fowner = ''FOWNER''"
| "as_ref Fsetid = ''FSETID''"
| "as_ref Kill = ''KILL''"
| "as_ref Setgid = ''SETGID''"
| "as_ref Setuid = ''SETUID''"
| "as_ref Setpcap = ''SETPCAP''"
| "as_ref LinuxImmutable = ''LINUX_IMMUTABLE''"
| "as_ref NetBindService = ''NET_BIND_SERVICE''"
| "as_ref NetBroadcast = ''NET_BROADCAST''"
| "as_ref NetAdmin = ''NET_ADMIN''"
| "as_ref NetRaw = ''NET_RAW''"
| "as_ref IpcLock = ''IPC_LOCK''"
| "as_ref IpcOwner = ''IPC_OWNER''"
| "as_ref SysModule = ''SYS_MODULE''"
| "as_ref SysRawIO = ''SYS_RAW_IO''"
| "as_ref SysChroot = ''SYS_CHROOT''"
| "as_ref SysPtrace = ''SYS_PTRACE''"
| "as_ref SysPacct = ''SYS_PACCT''"
| "as_ref SysAdmin = ''SYS_ADMIN''"
| "as_ref SysBoot = ''SYS_BOOT''"
| "as_ref SysNice = ''SYS_NICE''"
| "as_ref SysResource = ''SYS_RESOURCE''"
| "as_ref SysTime = ''SYS_TIME''"
| "as_ref SysTtyConfig = ''SYS_TTY_CONFIG''"
| "as_ref Mknod = ''MKNOD''"
| "as_ref Lease = ''LEASE''"
| "as_ref AuditWrite = ''AUDIT_WRITE''"
| "as_ref AuditControl = ''AUDIT_CONTROL''"
| "as_ref Setfcap = ''SETFCAP''"
| "as_ref MacOverride = ''MAC_OVERRIDE''"
| "as_ref MacAdmin = ''MAC_ADMIN''"
| "as_ref Syslog = ''SYSLOG''"
| "as_ref WakeAlarm = ''WAKE_ALARM''"
| "as_ref BlockSuspend = ''BLOCK_SUSPEND''"
| "as_ref AuditRead = ''AUDIT_READ''"
| "as_ref Perfmon = ''PERFMON''"
| "as_ref Bpf = ''BPF''"
| "as_ref CheckpointRestore = ''CHECKPOINT_RESTORE''"

lemma ALL_caps_nth: "ALL_caps ! unat (to_cap_number c) = c"
  by (cases c) (simp_all add: ALL_caps_def)

lemma cap_number_less: "unat (to_cap_number c) < 41"
  by (cases c) simp_all

lemma length_ALL_caps: "length ALL_caps = 41"
  by (simp add: ALL_caps_def)

lemma in_ALL_caps [simp]: "c \<in> set ALL_caps"
  using ALL_caps_nth [of c] cap_number_less [of c] length_ALL_caps by (metis nth_mem)

lemma to_cap_number_inj: "to_cap_number c = to_cap_number d \<longleftrightarrow> c = d"
  using ALL_caps_nth by metis

lemma distinct_ALL_caps [simp]: "distinct ALL_caps"
  by (simp add: ALL_caps_def)

text \<open>The order of the discriminants, which is the order of \<open>ALL\<close>.\<close>

instantiation CapabilityBit :: linorder
begin

definition less_eq_CapabilityBit :: "CapabilityBit \<Rightarrow> CapabilityBit \<Rightarrow> bool" where
  "c \<le> d \<longleftrightarrow> to_cap_number c \<le> to_cap_number d"

definition less_CapabilityBit :: "CapabilityBit \<Rightarrow> CapabilityBit \<Rightarrow> bool" where
  "c < d \<longleftrightarrow> to_cap_number c < to_cap_number d"

instance
  by standard
    (auto simp: less_eq_CapabilityBit_def less_CapabilityBit_def less_le to_cap_number_inj)

end

lemma sorted_ALL_caps: "sorted_wrt (<) ALL_caps"
  by (simp add: ALL_caps_def less_CapabilityBit_def)

section \<open>Masks\<close>

definition bit_mask :: "CapabilityBit \<Rightarrow> u64" where
  "bit_mask c = push_bit (unat (to_cap_number c)) 1"

definition add_to :: "CapabilityBit \<Rightarrow> u64 \<Rightarrow> u64" where
  "add_to c v = v OR bit_mask c"

definition remove_from :: "CapabilityBit \<Rightarrow> u64 \<Rightarrow> u64" where
  "remove_from c v = v AND NOT (bit_mask c)"

definition get_from :: "CapabilityBit \<Rightarrow> u64 \<Rightarrow> bool" where
  "get_from c v \<longleftrightarrow> v AND bit_mask c = bit_mask c"

definition parse_bits :: "u64 \<Rightarrow> CapabilityBit list" where
  "parse_bits v = filter (\<lambda>c. get_from c v) ALL_caps"

definition set_bits :: "u64 \<Rightarrow> CapabilityBit list \<Rightarrow> u64" where
  "set_bits v bits = fold add_to bits v"

definition clear_bits :: "u64 \<Rightarrow> CapabilityBit list \<Rightarrow> u64" where
  "clear_bits v bits = fold remove_from bits v"

definition raw_bits :: "CapabilityBit list \<Rightarrow> u64" where
  "raw_bits bits = set_bits 0 bits"

definition cap_index :: "CapabilityBit \<Rightarrow> nat" where
  "cap_index c = unat (to_cap_number c)"

lemma cap_index_less: "cap_index c < 41"
  by (simp add: cap_index_def cap_number_less)

lemma cap_index_inj [simp]: "cap_index c = cap_index d \<longleftrightarrow> c = d"
  using ALL_caps_nth unfolding cap_index_def by metis

lemma bit_bit_mask: "bit (bit_mask c) n \<longleftrightarrow> n = cap_index c"
  using cap_number_less [of c] by (auto simp: bit_mask_def cap_index_def bit_simps)

lemma bit_add_to: "bit (add_to c v) n \<longleftrightarrow> n = cap_index c \<or> bit v n"
  by (auto simp: add_to_def bit_or_iff bit_bit_mask)

lemma bit_remove_from: "bit (remove_from c v) n \<longleftrightarrow> n \<noteq> cap_index c \<and> bit v n"
  by (auto simp: remove_from_def bit_and_iff bit_not_iff bit_bit_mask possible_bit_word
      dest: bit_imp_le_length)

lemma get_from_bit: "get_from c v \<longleftrightarrow> bit v (cap_index c)"
proof
  assume "get_from c v"
  then have "bit (v AND bit_mask c) (cap_index c)"
    by (simp add: get_from_def bit_bit_mask)
  then show "bit v (cap_index c)" by (simp add: bit_and_iff)
next
  assume "bit v (cap_index c)"
  then have "bit (v AND bit_mask c) n \<longleftrightarrow> bit (bit_mask c) n" for n
    by (auto simp: bit_and_iff bit_bit_mask)
  then show "get_from c v" by (simp add: get_from_def bit_eq_iff)
qed

interpretation cap_mask: flag_set add_to get_from remove_from
  by unfold_locales (auto simp: get_from_bit bit_add_to bit_remove_from)

lemmas get_from_set_bits = cap_mask.has_fold_add [folded set_bits_def]
lemmas get_from_clear_bits = cap_mask.has_fold_rem [folded clear_bits_def]

lemma get_from_0 [simp]: "\<not> get_from c 0"
  by (simp add: get_from_bit)

lemma get_from_raw_bits: "get_from c (raw_bits bits) \<longleftrightarrow> c \<in> set bits"
  by (simp add: raw_bits_def get_from_set_bits)

lemma set_parse_bits: "set (parse_bits v) = {c. get_from c v}"
  by (auto simp: parse_bits_def)

text \<open>Two masks with the same bits outside the 41 capabilities and the same capabilities are
  equal; what a mask holds beyond them is never touched.\<close>

lemma bit_set_bits_high: "41 \<le> n \<Longrightarrow> bit (set_bits v bits) n \<longleftrightarrow> bit v n"
proof (induction bits arbitrary: v)
  case (Cons c bits)
  then show ?case using cap_index_less [of c] by (simp add: set_bits_def bit_add_to)
qed (simp add: set_bits_def)

lemma bit_clear_bits_high: "41 \<le> n \<Longrightarrow> bit (clear_bits v bits) n \<longleftrightarrow> bit v n"
proof (induction bits arbitrary: v)
  case (Cons c bits)
  then show ?case using cap_index_less [of c] by (simp add: clear_bits_def bit_remove_from)
qed (simp add: clear_bits_def)

lemma cap_of_index: "n < 41 \<Longrightarrow> \<exists>c. cap_index c = n"
proof -
  assume n: "n < 41"
  have "map cap_index ALL_caps = [0..<41]"
    by (simp add: ALL_caps_def cap_index_def upt_rec)
  then have "cap_index (ALL_caps ! n) = n"
    using n nth_map [of n ALL_caps cap_index] by (simp add: length_ALL_caps)
  then show ?thesis ..
qed

text \<open>Extensionality: a mask is its capabilities and its bits from 41 on.\<close>

lemma mask_ext:
  assumes "\<And>c. get_from c v \<longleftrightarrow> get_from c w" and "\<And>n. 41 \<le> n \<Longrightarrow> bit v n \<longleftrightarrow> bit w n"
  shows "v = w"
proof (rule bit_eqI)
  fix n
  show "bit v n \<longleftrightarrow> bit w n"
  proof (cases "n < 41")
    case True
    then obtain c where "cap_index c = n" using cap_of_index by blast
    with assms(1) [of c] show ?thesis by (simp add: get_from_bit)
  qed (simp add: assms(2))
qed

lemma set_bits_perm: "set xs = set ys \<Longrightarrow> set_bits v xs = set_bits v ys"
  by (rule mask_ext) (simp_all add: get_from_set_bits bit_set_bits_high)

lemma clear_bits_perm: "set xs = set ys \<Longrightarrow> clear_bits v xs = clear_bits v ys"
  by (rule mask_ext) (simp_all add: get_from_clear_bits bit_clear_bits_high)

section \<open>Names\<close>

text \<open>\<open>FromStr\<close>. The prefix \<open>CAP_\<close> is looked for in the untrimmed input; where it is there the
  trimmed input is not used.\<close>

definition refine_name :: "string \<Rightarrow> string" where
  "refine_name s =
     (let input = (if starts_with ''CAP_'' s \<and> 4 < length s then drop 4 s else trim s)
      in trim (to_uppercase input))"

definition from_str :: "string \<Rightarrow> CapabilityBit result" where
  "from_str s =
     (case find (\<lambda>c. refine_name s = as_ref c) ALL_caps of
        Some c \<Rightarrow> Inr c
      | None \<Rightarrow> Inl (Msg (''unknown capability: '' @ [CHR 0x27] @ s @ [CHR 0x27])))"

lemma as_ref_nth: "map as_ref ALL_caps ! cap_index c = as_ref c"
  using cap_number_less [of c] by (simp add: cap_index_def ALL_caps_nth length_ALL_caps)

lemma distinct_names: "distinct (map as_ref ALL_caps)"
  by (simp add: ALL_caps_def)

lemma as_ref_inj [simp]: "as_ref c = as_ref d \<longleftrightarrow> c = d"
  using distinct_names by (auto simp: distinct_map dest: inj_onD)

lemma as_ref_shape:
  "as_ref c \<noteq> [] \<and> list_all is_ascii_printing (as_ref c) \<and> map upper1 (as_ref c) = as_ref c
   \<and> take 4 (as_ref c) \<noteq> ''CAP_''"
  by (cases c) (simp_all add: is_ascii_printing_def upper1_def is_lower_def)

lemma from_str_iff: "from_str s = Inr c \<longleftrightarrow> refine_name s = as_ref c"
proof
  assume "refine_name s = as_ref c"
  then have "find (\<lambda>c. refine_name s = as_ref c) ALL_caps = Some c"
    by (intro find_unique) auto
  then show "from_str s = Inr c" by (simp add: from_str_def)
qed (auto simp: from_str_def split: option.splits dest!: find_Some_filter)

lemma from_str_Inl_iff: "(\<exists>e. from_str s = Inl e) \<longleftrightarrow> (\<forall>c. refine_name s \<noteq> as_ref c)"
proof -
  have "(\<exists>e. from_str s = Inl e) \<longleftrightarrow> (\<forall>c. from_str s \<noteq> Inr c)"
    by (cases "from_str s") auto
  then show ?thesis by (simp add: from_str_iff)
qed

text \<open>Names of printing ASCII characters: only the case of the letters is forgotten.\<close>

lemma refine_plain:
  assumes "t \<noteq> []" "list_all is_ascii_printing t" "\<not> (starts_with ''CAP_'' t \<and> 4 < length t)"
  shows "refine_name t = map upper1 t"
proof -
  have "is_ascii_printing (hd t)" "is_ascii_printing (last t)"
    using assms by (auto simp: list_all_iff)
  moreover have "is_ascii_printing (hd (map upper1 t))" "is_ascii_printing (last (map upper1 t))"
    using assms by (auto simp: list_all_iff hd_map last_map upper1_ascii)
  ultimately show ?thesis
    using assms by (auto simp: refine_name_def Let_def trim_ascii to_uppercase_ascii)
qed

lemma refine_prefixed:
  assumes "t \<noteq> []" "list_all is_ascii_printing t"
  shows "refine_name (''CAP_'' @ t) = map upper1 t"
proof -
  have "is_ascii_printing (hd (map upper1 t))" "is_ascii_printing (last (map upper1 t))"
    using assms by (auto simp: list_all_iff hd_map last_map upper1_ascii)
  with assms show ?thesis
    by (simp add: refine_name_def Let_def starts_with_def trim_ascii to_uppercase_ascii)
qed

section \<open>The two-word layout\<close>

record CapResult =
  effective :: u64
  permitted :: u64
  inheritable :: u64

definition join_words :: "u32 \<Rightarrow> u32 \<Rightarrow> u64" where
  "join_words hi lo = push_bit 32 (ucast hi) OR ucast lo"

definition cap_data_to_result :: "CapInternalData \<times> CapInternalData \<Rightarrow> CapResult" where
  "cap_data_to_result data =
     \<lparr>effective = join_words (d_effective (snd data)) (d_effective (fst data)),
      permitted = join_words (d_permitted (snd data)) (d_permitted (fst data)),
      inheritable = join_words (d_inheritable (snd data)) (d_inheritable (fst data))\<rparr>"

definition cap_result_to_data :: "CapResult \<Rightarrow> CapInternalData \<times> CapInternalData" where
  "cap_result_to_data caps =
     (\<lparr>d_effective = ucast (effective caps), d_permitted = ucast (permitted caps),
       d_inheritable = ucast (inheritable caps)\<rparr>,
      \<lparr>d_effective = ucast (drop_bit 32 (effective caps)),
       d_permitted = ucast (drop_bit 32 (permitted caps)),
       d_inheritable = ucast (drop_bit 32 (inheritable caps))\<rparr>)"

lemma bit_join_words:
  "bit (join_words hi lo) n \<longleftrightarrow> (if n < 32 then bit lo n else n < 64 \<and> bit hi (n - 32))"
  by (auto simp: join_words_def bit_simps dest: bit_imp_le_length)

lemma join_words_low: "ucast (join_words hi lo) = lo"
  by (rule bit_eqI) (auto simp: bit_simps bit_join_words dest: bit_imp_le_length)

lemma join_words_high: "ucast (drop_bit 32 (join_words hi lo)) = hi"
  by (rule bit_eqI) (auto simp: bit_simps bit_join_words dest: bit_imp_le_length)

lemma join_words_split: "join_words (ucast (drop_bit 32 v)) (ucast v) = v"
  by (rule bit_eqI) (auto simp: bit_simps bit_join_words dest: bit_imp_le_length)

section \<open>The calls\<close>

text \<open>Constants the module exports without using them itself: the other securebits, the numbers of the
  two calls on every architecture (\<open>X32\<close> is \<open>x86_64\<close> with 32-bit pointers), and \<open>CapabilityState\<close>.\<close>

definition SECBIT_KEEP_CAPS :: int where "SECBIT_KEEP_CAPS = 16"
definition SECBIT_KEEP_CAPS_LOCKED :: int where "SECBIT_KEEP_CAPS_LOCKED = 32"

datatype target_arch =
    X86 | X86_64 | X32 | Aarch64 | Powerpc | Powerpc64 | Mips | Mips64 | Arm | S390x | Sparc | Sparc64
  | Riscv64 | Loongarch64

fun CAPGET :: "target_arch \<Rightarrow> int" where
  "CAPGET X86 = 184" | "CAPGET X86_64 = 125" | "CAPGET X32 = 0x40000000 + 125"
| "CAPGET Aarch64 = 90" | "CAPGET Powerpc = 183" | "CAPGET Powerpc64 = 183"
| "CAPGET Mips = 4204" | "CAPGET Mips64 = 5123" | "CAPGET Arm = 184" | "CAPGET S390x = 184"
| "CAPGET Sparc = 21" | "CAPGET Sparc64 = 21" | "CAPGET Riscv64 = 90" | "CAPGET Loongarch64 = 90"

fun CAPSET :: "target_arch \<Rightarrow> int" where
  "CAPSET X86 = 185" | "CAPSET X86_64 = 126" | "CAPSET X32 = 0x40000000 + 126"
| "CAPSET Aarch64 = 91" | "CAPSET Powerpc = 184" | "CAPSET Powerpc64 = 184"
| "CAPSET Mips = 4205" | "CAPSET Mips64 = 5124" | "CAPSET Arm = 185" | "CAPSET S390x = 185"
| "CAPSET Sparc = 22" | "CAPSET Sparc64 = 22" | "CAPSET Riscv64 = 91" | "CAPSET Loongarch64 = 91"

record CapabilityState =
  st_permitted :: "CapabilityBit list"
  st_effective :: "CapabilityBit list"
  st_inheritable :: "CapabilityBit list"

text \<open>The two calls are neighbours everywhere.\<close>

lemma CAPSET_CAPGET: "CAPSET a = CAPGET a + 1"
  by (cases a) simp_all

definition LINUX_CAPABILITY_VERSION_3 :: u32 where
  "LINUX_CAPABILITY_VERSION_3 = 0x20080522"

definition PR_SET_SECUREBITS :: int where "PR_SET_SECUREBITS = 28"
definition SECBIT_NO_SETUID_FIXUP :: int where "SECBIT_NO_SETUID_FIXUP = 4"

definition capget :: "int \<Rightarrow> (CapInternalData \<times> CapInternalData) io" where
  "capget pid =
     try_io (sys (Cred (Capget LINUX_CAPABILITY_VERSION_3 pid))) (\<lambda>r.
     if failed r then fail (Context ''capget(2) failed: '' (OsError (errno r)))
     else ok (caplo r, caphi r))"

text \<open>The masks that the error message of \<open>capset\<close> prints (in the order effective, permitted,
  inheritable): the first word is shifted to the high half.\<close>

definition capset_report :: "CapInternalData \<times> CapInternalData \<Rightarrow> u64 \<times> u64 \<times> u64" where
  "capset_report data =
     (join_words (d_effective (fst data)) (d_effective (snd data)),
      join_words (d_permitted (fst data)) (d_permitted (snd data)),
      join_words (d_inheritable (fst data)) (d_inheritable (snd data)))"

fun show_hex :: "nat \<Rightarrow> string" where
  "show_hex n =
     (let d = (if n mod 16 < 10 then char_of (48 + n mod 16) else char_of (87 + n mod 16))
      in if n < 16 then [d] else show_hex (n div 16) @ [d])"

declare show_hex.simps [simp del]

definition capset_message :: "CapInternalData \<times> CapInternalData \<Rightarrow> string" where
  "capset_message data =
     (case capset_report data of (e, p, i) \<Rightarrow>
        ''capset(2) failed (effective='' @ show_hex (unat e) @ '' permitted='' @ show_hex (unat p)
        @ '' inheritable='' @ show_hex (unat i) @ ''): '')"

definition capset :: "int \<Rightarrow> CapInternalData \<times> CapInternalData \<Rightarrow> unit io" where
  "capset pid data =
     try_io (sys (Cred (Capset LINUX_CAPABILITY_VERSION_3 pid (fst data) (snd data)))) (\<lambda>r.
     if failed r then fail (Context (capset_message data) (OsError (errno r)))
     else ok ())"

definition get_pid :: "int io" where
  "get_pid = try_io (sys (Proc GetPid)) (\<lambda>r. ok (rc r))"

definition get_caps :: "CapResult io" where
  "get_caps =
     try_io get_pid (\<lambda>pid.
     try_io (capget pid) (\<lambda>data.
     ok (cap_data_to_result data)))"

definition set_caps :: "CapResult \<Rightarrow> unit io" where
  "set_caps caps =
     try_io get_pid (\<lambda>pid.
     capset pid (cap_result_to_data caps))"

definition set_keep_caps :: "unit io" where
  "set_keep_caps =
     try_io (sys (Cred (Prctl PR_SET_SECUREBITS SECBIT_NO_SETUID_FIXUP 0 0 0))) (\<lambda>r.
     if failed r then fail (Context ''failed to set SECBIT_NO_SETUID_FIXUP: '' (OsError (errno r)))
     else ok ())"

section \<open>Properties\<close>

lemma upper1_printing: "is_ascii_printing (upper1 x) \<Longrightarrow> is_ascii_printing x"
  by (auto simp: upper1_def is_ascii_printing_def is_lower_def split: if_splits)

lemma upper_name_plain:
  assumes "map upper1 t = as_ref c"
  shows "t \<noteq> [] \<and> list_all is_ascii_printing t \<and> take 4 (map upper1 t) \<noteq> ''CAP_''"
  using as_ref_shape [of c] assms upper1_printing
  by (metis (no_types, lifting) list.map_disc_iff list_all_length length_map nth_map)

lemma starts_with_CAP_upper: "starts_with ''CAP_'' t \<Longrightarrow> take 4 (map upper1 t) = ''CAP_''"
proof -
  assume "starts_with ''CAP_'' t"
  then have "take 4 t = ''CAP_''" by (simp add: starts_with_def numeral_eq_Suc)
  then show ?thesis by (simp add: take_map upper1_def is_lower_def)
qed

text \<open>Capability names are parsed without regard to the case of their letters, with or
  without the prefix \<open>CAP_\<close>; the prefix itself must be upper case: with \<open>cap_\<close> in front the
  same name is refused.\<close>

theorem from_str_names:
  assumes "map upper1 t = as_ref c"
  shows "from_str t = Inr c \<and> from_str (''CAP_'' @ t) = Inr c \<and>
    (\<exists>e. from_str (''cap_'' @ t) = Inl e)"
proof (intro conjI)
  note t = upper_name_plain [OF assms]
  from t have no: "\<not> starts_with ''CAP_'' t"
    using starts_with_CAP_upper by blast
  show "from_str t = Inr c"
    using t no assms by (simp add: from_str_iff refine_plain)
  show "from_str (''CAP_'' @ t) = Inr c"
    using t assms refine_prefixed [of t] by (metis from_str_iff)
  have cap_upper: "map upper1 ''cap_'' = ''CAP_''" by code_simp
  have "refine_name (''cap_'' @ t) = ''CAP_'' @ as_ref c"
    using t assms cap_upper
    by (subst refine_plain) (simp_all add: starts_with_def is_ascii_printing_def)
  moreover have "take 4 (''CAP_'' @ as_ref c) = ''CAP_''" by (simp add: numeral_eq_Suc)
  ultimately have "refine_name (''cap_'' @ t) \<noteq> as_ref d" for d
    using as_ref_shape [of d] by metis
  then show "\<exists>e. from_str (''cap_'' @ t) = Inl e"
    by (simp only: from_str_Inl_iff) blast
qed

theorem from_str_names_witness:
  "from_str ''CAP_net_Admin'' = Inr NetAdmin \<and> from_str ''net_Admin'' = Inr NetAdmin"
proof -
  have "map upper1 ''net_Admin'' = as_ref NetAdmin" by code_simp
  from from_str_names [OF this] show ?thesis by simp
qed

lemma cap_result_to_data_back: "cap_data_to_result (cap_result_to_data caps) = caps"
  by (simp add: cap_data_to_result_def cap_result_to_data_def join_words_split)

text \<open>C35. The two 32-bit words of \<open>capget(2)\<close>/\<open>capset(2)\<close> and the 64-bit masks: capability number
  \<open>n < 32\<close> of a mask is bit \<open>n\<close> of the first word and capability number \<open>n + 32\<close> is bit \<open>n\<close> of the second,
  for each of the three sets, which is the layout of version 3 of the interface; and the conversion is a
  bijection, as both round trips are the identity.\<close>

theorem cap_layout_roundtrip:
  "(\<forall>n. bit (d_effective (fst (cap_result_to_data caps))) n = (n < 32 \<and> bit (effective caps) n) \<and>
      bit (d_permitted (fst (cap_result_to_data caps))) n = (n < 32 \<and> bit (permitted caps) n) \<and>
      bit (d_inheritable (fst (cap_result_to_data caps))) n = (n < 32 \<and> bit (inheritable caps) n) \<and>
      bit (d_effective (snd (cap_result_to_data caps))) n = (n < 32 \<and> bit (effective caps) (n + 32)) \<and>
      bit (d_permitted (snd (cap_result_to_data caps))) n = (n < 32 \<and> bit (permitted caps) (n + 32)) \<and>
      bit (d_inheritable (snd (cap_result_to_data caps))) n = (n < 32 \<and> bit (inheritable caps) (n + 32))) \<and>
   cap_data_to_result (cap_result_to_data caps) = caps \<and>
   cap_result_to_data (cap_data_to_result data) = data"
proof (intro conjI)
  show "cap_result_to_data (cap_data_to_result data) = data"
    by (cases data) (simp add: cap_data_to_result_def cap_result_to_data_def join_words_low join_words_high)
qed (auto simp: cap_result_to_data_back, auto simp: cap_result_to_data_def bit_simps add.commute [of 32])

text \<open>Encoding a list of capabilities as a mask and decoding it gives the set of the list in
  the order of the enumeration; decoding any mask and encoding it keeps exactly its 41 low bits.\<close>

theorem parse_raw_bits:
  "parse_bits (raw_bits bits) = sorted_list_of_set (set bits) \<and> raw_bits (parse_bits v) = take_bit 41 v"
proof
  have "sorted_wrt (<) (parse_bits (raw_bits bits))"
    unfolding parse_bits_def using sorted_ALL_caps by (rule sorted_wrt_filter)
  moreover have "set (parse_bits (raw_bits bits)) = set bits"
    by (simp add: set_parse_bits get_from_raw_bits)
  ultimately show "parse_bits (raw_bits bits) = sorted_list_of_set (set bits)"
    by (metis sorted_list_of_set.idem_if_sorted_distinct strict_sorted_iff)
  show "raw_bits (parse_bits v) = take_bit 41 v"
  proof (rule mask_ext)
    show "get_from c (raw_bits (parse_bits v)) \<longleftrightarrow> get_from c (take_bit 41 v)" for c
      using cap_index_less [of c]
      by (simp add: get_from_raw_bits set_parse_bits) (simp add: get_from_bit bit_take_bit_iff)
    show "bit (raw_bits (parse_bits v)) n \<longleftrightarrow> bit (take_bit 41 v) n" if "41 \<le> n" for n
      using that by (simp add: raw_bits_def bit_set_bits_high bit_take_bit_iff)
  qed
qed

text \<open>The mask computed by clearing drops and then setting raises: a capability is in it
  exactly if it is raised, or was there and is not dropped, so a raise wins over a drop; bits
  beyond the known capabilities are never changed; and neither list's order matters.\<close>

theorem clear_then_set:
  "(get_from c (set_bits (clear_bits v ds) rs) \<longleftrightarrow> c \<in> set rs \<or> (c \<notin> set ds \<and> get_from c v)) \<and>
   drop_bit 41 (set_bits (clear_bits v ds) rs) = drop_bit 41 v \<and>
   set_bits (clear_bits v (rev ds)) (rev rs) = set_bits (clear_bits v ds) rs"
proof (intro conjI)
  show "get_from c (set_bits (clear_bits v ds) rs) \<longleftrightarrow> c \<in> set rs \<or> (c \<notin> set ds \<and> get_from c v)"
    by (simp add: get_from_set_bits get_from_clear_bits)
  show "drop_bit 41 (set_bits (clear_bits v ds) rs) = drop_bit 41 v"
    by (rule bit_eqI) (simp add: bit_drop_bit_eq bit_set_bits_high bit_clear_bits_high)
  show "set_bits (clear_bits v (rev ds)) (rev rs) = set_bits (clear_bits v ds) rs"
    using clear_bits_perm [of "rev ds" ds v] set_bits_perm [of "rev rs" rs] by simp
qed

lemma bit_join_swapped:
  fixes v :: u64
  shows "k < 64 \<Longrightarrow> bit (join_words (ucast v) (ucast (drop_bit 32 v))) k \<longleftrightarrow>
    bit v (if k < 32 then k + 32 else k - 32)"
  by (auto simp: bit_join_words bit_simps add.commute [of 32])

text \<open>The error message of a failed \<open>capset\<close> prints masks with the two words swapped:
  capability number \<open>n\<close> of the requested effective set is reported at bit \<open>n + 32 mod 64\<close>.
  So a request for \<open>CAP_CHOWN\<close> (bit 0) is reported as bit 32, which is \<open>CAP_MAC_OVERRIDE\<close>.\<close>

theorem capset_report_swapped:
  "bit (fst (capset_report (cap_result_to_data caps))) ((n + 32) mod 64) \<longleftrightarrow>
     bit (effective caps) (n mod 64)"
proof -
  define m where "m = n mod 64"
  have m: "m < 64" by (simp add: m_def)
  have "(n + 32) mod 64 = (m + 32) mod 64" by (simp add: m_def mod_add_left_eq)
  also have "\<dots> = (if m < 32 then m + 32 else m - 32)"
    using m by (auto simp: mod_if)
  finally have k: "(n + 32) mod 64 = (if m < 32 then m + 32 else m - 32)" .
  have "fst (capset_report (cap_result_to_data caps)) =
      join_words (ucast (effective caps)) (ucast (drop_bit 32 (effective caps)))"
    by (simp add: capset_report_def cap_result_to_data_def)
  then show ?thesis
    using m by (cases "m < 32") (auto simp: k bit_join_swapped m_def [symmetric])
qed

end
