(* ===== verification/Namespaces.thy ===== *)
theory Namespaces
  imports Effects
begin

text \<open>
  \<open>src/namespace.rs\<close> and \<open>src/unshare.rs\<close>: the namespaces, their \<open>clone\<close> flags, and the
  calls that leave or join a set of namespaces. The lemmas show that the folded flag word is
  the set of the requested namespaces, no more and no less.
\<close>

section \<open>Flags\<close>

definition CLONE_NEWTIME :: u32 where "CLONE_NEWTIME = 0x00000080"
definition CLONE_NEWNS :: u32 where "CLONE_NEWNS = 0x00020000"
definition CLONE_NEWCGROUP :: u32 where "CLONE_NEWCGROUP = 0x02000000"
definition CLONE_NEWUTS :: u32 where "CLONE_NEWUTS = 0x04000000"
definition CLONE_NEWIPC :: u32 where "CLONE_NEWIPC = 0x08000000"
definition CLONE_NEWUSER :: u32 where "CLONE_NEWUSER = 0x10000000"
definition CLONE_NEWPID :: u32 where "CLONE_NEWPID = 0x20000000"
definition CLONE_NEWNET :: u32 where "CLONE_NEWNET = 0x40000000"

datatype Namespace = Mount | Uts | Ipc | User | Pid | Net | Cgroup | Time

fun to_clone_flags :: "Namespace \<Rightarrow> u32" where
  "to_clone_flags Mount = CLONE_NEWNS"
| "to_clone_flags Uts = CLONE_NEWUTS"
| "to_clone_flags Ipc = CLONE_NEWIPC"
| "to_clone_flags User = CLONE_NEWUSER"
| "to_clone_flags Pid = CLONE_NEWPID"
| "to_clone_flags Net = CLONE_NEWNET"
| "to_clone_flags Cgroup = CLONE_NEWCGROUP"
| "to_clone_flags Time = CLONE_NEWTIME"

lemmas clone_flag_defs = CLONE_NEWTIME_def CLONE_NEWNS_def CLONE_NEWCGROUP_def CLONE_NEWUTS_def
  CLONE_NEWIPC_def CLONE_NEWUSER_def CLONE_NEWPID_def CLONE_NEWNET_def

text \<open>\<open>fold(0, |acc, x| acc | to_clone_flags(*x))\<close>.\<close>

definition add_flag :: "Namespace \<Rightarrow> u32 \<Rightarrow> u32" where
  "add_flag ns acc = acc OR to_clone_flags ns"

definition ns_flags :: "Namespace list \<Rightarrow> u32" where
  "ns_flags nss = fold add_flag nss 0"

section \<open>The calls\<close>

definition unshare :: "Namespace list \<Rightarrow> unit io" where
  "unshare nss = sys_unit (Ns (UnshareSys (ns_flags nss)))"

definition pidfd_open :: "int \<Rightarrow> int io" where
  "pidfd_open target_pid = try_io (sys_res (Ns (PidfdOpen target_pid 0))) (\<lambda>r. ok (rc r))"

definition setns :: "int \<Rightarrow> Namespace list \<Rightarrow> unit io" where
  "setns target_pid nss =
     (let flags = ns_flags nss in
      try_io (pidfd_open target_pid) (\<lambda>pid_fd.
      sys_unit (Ns (SetnsSys pid_fd flags))))"

section \<open>Flag words are sets of namespaces\<close>

fun clone_bit :: "Namespace \<Rightarrow> nat" where
  "clone_bit Mount = 17" | "clone_bit Uts = 26" | "clone_bit Ipc = 27" | "clone_bit User = 28"
| "clone_bit Pid = 29" | "clone_bit Net = 30" | "clone_bit Cgroup = 25" | "clone_bit Time = 7"

lemma to_clone_flags_bit: "to_clone_flags ns = push_bit (clone_bit ns) 1"
  by (cases ns) (simp_all add: clone_flag_defs)

lemma clone_bit_less: "clone_bit ns < 32"
  by (cases ns) simp_all

lemma clone_bit_inj [simp]: "clone_bit ns = clone_bit ns' \<longleftrightarrow> ns = ns'"
  by (cases ns; cases ns') simp_all

lemma bit_clone_flag: "bit (to_clone_flags ns) n \<longleftrightarrow> n = clone_bit ns"
  using clone_bit_less [of ns] by (auto simp: to_clone_flags_bit bit_simps)

definition has_flag :: "Namespace \<Rightarrow> u32 \<Rightarrow> bool" where
  "has_flag ns v \<longleftrightarrow> bit v (clone_bit ns)"

interpretation ns_word: flag_adder add_flag has_flag
  by unfold_locales (auto simp: has_flag_def add_flag_def bit_or_iff bit_clone_flag)

lemma has_flag_ns_flags: "has_flag ns (ns_flags nss) \<longleftrightarrow> ns \<in> set nss"
  by (simp add: ns_flags_def ns_word.has_fold_add) (simp add: has_flag_def)

lemma bit_fold_flags: "bit (fold add_flag nss v) n \<longleftrightarrow> (\<exists>ns \<in> set nss. n = clone_bit ns) \<or> bit v n"
  by (induction nss arbitrary: v) (auto simp: add_flag_def bit_or_iff bit_clone_flag)

lemma bit_ns_flags: "bit (ns_flags nss) n \<longleftrightarrow> (\<exists>ns \<in> set nss. n = clone_bit ns)"
  by (simp add: ns_flags_def bit_fold_flags)

section \<open>Properties\<close>

text \<open>C37. The flag word passed to \<open>unshare(2)\<close> and \<open>setns(2)\<close> is exactly the requested set of
  namespaces: it has the flag of a namespace if and only if that namespace is in the list, no
  other bit is set, and two lists give the same word only if they have the same namespaces.\<close>

theorem ns_flags_exact:
  "(to_clone_flags ns AND ns_flags nss \<noteq> 0 \<longleftrightarrow> ns \<in> set nss) \<and>
   (bit (ns_flags nss) n \<longleftrightarrow> (\<exists>ns \<in> set nss. to_clone_flags ns = push_bit n 1 \<and> n < 32)) \<and>
   (ns_flags nss = ns_flags nss' \<longleftrightarrow> set nss = set nss')"
proof (intro conjI)
  show "to_clone_flags ns AND ns_flags nss \<noteq> 0 \<longleftrightarrow> ns \<in> set nss"
    unfolding bit_eq_iff [of _ 0]
    by (auto simp: bit_and_iff bit_clone_flag has_flag_ns_flags [symmetric] has_flag_def
        clone_bit_less)
  have "to_clone_flags ns' = push_bit n 1 \<and> n < 32 \<longleftrightarrow> n = clone_bit ns'" for ns'
  proof
    assume *: "to_clone_flags ns' = push_bit n 1 \<and> n < 32"
    then have "bit (to_clone_flags ns') n" by (simp add: bit_simps)
    then show "n = clone_bit ns'" by (simp add: bit_clone_flag)
  qed (simp add: to_clone_flags_bit clone_bit_less)
  then show "bit (ns_flags nss) n \<longleftrightarrow> (\<exists>ns \<in> set nss. to_clone_flags ns = push_bit n 1 \<and> n < 32)"
    by (simp add: bit_ns_flags)
  show "ns_flags nss = ns_flags nss' \<longleftrightarrow> set nss = set nss'"
  proof
    assume "ns_flags nss = ns_flags nss'"
    then have "has_flag x (ns_flags nss) \<longleftrightarrow> has_flag x (ns_flags nss')" for x by simp
    then show "set nss = set nss'" by (simp only: has_flag_ns_flags set_eq_iff) simp
  next
    assume eq: "set nss = set nss'"
    show "ns_flags nss = ns_flags nss'" by (rule bit_eqI) (simp only: bit_ns_flags eq)
  qed
qed

end
