(* ===== verification/Lsm.thy ===== *)
theory Lsm
  imports Effects
begin

text \<open>
  \<open>src/seccomp.rs\<close> and \<open>src/apparmor.rs\<close>: installing a seccomp-bpf program and staging an
  AppArmor profile for the next \<open>execve\<close>.
\<close>

section \<open>Seccomp\<close>

record SeccompFilter =
  instructions :: "(u16 \<times> u8 \<times> u8 \<times> u32) list"

text \<open>\<open>sock_fprog.len\<close> is \<open>filters.len() as u16\<close>, which truncates; \<open>filter\<close> points to all of
  them. The kernel reads the first \<open>len\<close> instructions.\<close>

definition sock_fprog_len :: "SeccompFilter \<Rightarrow> u16" where
  "sock_fprog_len f = word_of_nat (length (instructions f))"

definition install :: "SeccompFilter \<Rightarrow> unit io" where
  "install f =
     try_io (sys (Cred (SeccompSetFilter 1 1 (sock_fprog_len f) (instructions f)))) (\<lambda>r.
     if rc r \<noteq> 0 then fail (OsError (errno r)) else ok ())"

text \<open>C40. Installing a filter is one \<open>seccomp(2)\<close> call with \<open>SECCOMP_SET_MODE_FILTER\<close> and
  \<open>SECCOMP_FILTER_FLAG_TSYNC\<close>, whatever the kernel says. It carries all instructions of the filter, but
  its length is their number modulo 65536, so the length covers the whole filter exactly if that has
  fewer than 65536 instructions; a longer one is cut to its first (number mod 65536) instructions. A
  return value of 0 is a success and any other, a thread that could not be synchronised included, the
  error of \<open>errno\<close>.\<close>

theorem seccomp_installed:
  "\<exists>len x. trace K w (install f) = [(Cred (SeccompSetFilter 1 1 len (instructions f)), x)] \<and>
     unat len = length (instructions f) mod 65536 \<and>
     (take (unat len) (instructions f) = instructions f \<longleftrightarrow> length (instructions f) < 65536) \<and>
     outcome_of K w (install f) = (case x of None \<Rightarrow> Gone
       | Some r \<Rightarrow> Done (if rc r = 0 then Inr () else Inl (OsError (errno r))))"
proof -
  let ?n = "length (instructions f)"
  obtain x w' where kw: "K w (Cred (SeccompSetFilter 1 1 (sock_fprog_len f) (instructions f))) = (x, w')" by fastforce
  have len: "unat (sock_fprog_len f) = ?n mod 65536" by (simp add: sock_fprog_len_def unat_of_nat)
  have "take (?n mod 65536) (instructions f) = instructions f \<longleftrightarrow> ?n < 65536"
  proof
    assume "take (?n mod 65536) (instructions f) = instructions f"
    then have "length (take (?n mod 65536) (instructions f)) = ?n" by simp
    moreover have "length (take (?n mod 65536) (instructions f)) \<le> ?n mod 65536" by simp
    moreover have "?n mod 65536 < 65536" by simp
    ultimately show "?n < 65536" by linarith
  qed simp
  with kw len show ?thesis
    by (intro exI [of _ "sock_fprog_len f"] exI [of _ x]) (auto simp: install_def sys_def split: option.split)
qed

section \<open>AppArmor\<close>

definition attr_exec_lsm :: string where "attr_exec_lsm = ''/proc/self/attr/apparmor/exec''"
definition attr_exec_global :: string where "attr_exec_global = ''/proc/self/attr/exec''"

text \<open>The command is formatted into one buffer and written with one \<open>write_all\<close>.\<close>

definition change_onexec :: "string \<Rightarrow> unit io" where
  "change_onexec profile =
     (let cmd = ''exec '' @ profile in
      try_io
        (try_io (sys (Fs (OpenWrite attr_exec_lsm))) (\<lambda>r.
         if \<not> failed r then ok (rc r)
         else if errno r = ENOENT then
           try_io (sys_res (Fs (OpenWrite attr_exec_global))) (\<lambda>r'. ok (rc r'))
         else fail (OsError (errno r))))
        (\<lambda>fd. sys_unit (Fs (WriteAll fd cmd))))"

text \<open>Staging a profile makes one of five call sequences. The profile is written at most
  once, in one buffer, \<open>exec \<close> followed by the profile name, and the write is the last call. The
  global node is opened only after the AppArmor node, which must have been reported as not
  found. If staging succeeds, the write was made and did not fail.\<close>

theorem apparmor_single_write:
  "let tr = trace K w (change_onexec profile);
       lsm = Fs (OpenWrite attr_exec_lsm); glob = Fs (OpenWrite attr_exec_global);
       wr = (\<lambda>fd. Fs (WriteAll fd (''exec '' @ profile)))
   in ((\<exists>fd. calls tr \<in> {[lsm], [lsm, wr fd], [lsm, glob], [lsm, glob, wr fd]}) \<and>
       (glob \<in> set (calls tr) \<longrightarrow> (\<exists>r. hd tr = (lsm, Some r) \<and> failed r \<and> errno r = ENOENT)) \<and>
       (outcome_of K w (change_onexec profile) = Done (Inr ()) \<longrightarrow>
          (\<exists>fd r. last tr = (wr fd, Some r) \<and> \<not> failed r)))"
  unfolding Let_def
  by (rule run_wp_post [where G = "\<lambda>_ _. True"])
    (auto simp: change_onexec_def Let_def sys_def sys_res_def sys_unit_def calls_def
      attr_exec_lsm_def attr_exec_global_def)

text \<open>On a kernel without the AppArmor node the profile goes to the global one.\<close>

definition no_lsm_node :: "unit kernel" where
  "no_lsm_node = scripted (\<lambda>_. False) (\<lambda>s. if s = Fs (OpenWrite attr_exec_lsm)
     then reply0\<lparr>rc := -1, errno := ENOENT\<rparr> else reply0\<lparr>rc := 5\<rparr>)"

theorem apparmor_single_write_witness:
  "let tr = trace no_lsm_node () (change_onexec ''jail'')
   in calls tr = [Fs (OpenWrite attr_exec_lsm), Fs (OpenWrite attr_exec_global), Fs (WriteAll 5 ''exec jail'')]
      \<and> (\<exists>r. hd tr = (Fs (OpenWrite attr_exec_lsm), Some r) \<and> failed r \<and> errno r = ENOENT)"
proof -
  have c: "calls (trace no_lsm_node () (change_onexec ''jail'')) =
      [Fs (OpenWrite attr_exec_lsm), Fs (OpenWrite attr_exec_global), Fs (WriteAll 5 ''exec jail'')]"
    by (simp add: change_onexec_def Let_def sys_def sys_res_def sys_unit_def calls_def no_lsm_node_def
        attr_exec_lsm_def attr_exec_global_def scripted_def reply0_def ENOENT_def)
  show ?thesis
    using apparmor_single_write [of no_lsm_node "()" "''jail''"] c by (simp add: Let_def)
qed

end
