(* ===== verification/BTree.thy ===== *)
theory BTree
  imports RustStr
begin

text \<open>
  \<open>std::collections::BTreeMap\<close> as the code uses it: an association list kept sorted by key,
  with \<open>insert\<close>, lookup and iteration in key order. The interface \<open>ordered_map\<close> lists what
  the request builders and the cgroup code rely on; its client lemmas describe a run of
  insertions. The interpretation shows that the sorted list keeps the laws.
\<close>

section \<open>The map\<close>

type_synonym ('k, 'v) btree = "('k \<times> 'v) list"

fun bt_insert :: "'k::linorder \<Rightarrow> 'v \<Rightarrow> ('k, 'v) btree \<Rightarrow> ('k, 'v) btree" where
  "bt_insert k v [] = [(k, v)]"
| "bt_insert k v ((k', v') # m) =
     (if k < k' then (k, v) # (k', v') # m
      else if k = k' then (k, v) # m
      else (k', v') # bt_insert k v m)"

definition bt_get :: "('k, 'v) btree \<Rightarrow> 'k \<rightharpoonup> 'v" where
  "bt_get m = map_of m"

definition bt_keys :: "('k, 'v) btree \<Rightarrow> 'k list" where
  "bt_keys m = map fst m"

definition bt_inv :: "('k::linorder, 'v) btree \<Rightarrow> bool" where
  "bt_inv m \<longleftrightarrow> sorted_wrt (<) (map fst m)"

section \<open>The interface\<close>

locale ordered_map =
  fixes empty :: "'m"
    and ins :: "'k::linorder \<Rightarrow> 'v \<Rightarrow> 'm \<Rightarrow> 'm"
    and get :: "'m \<Rightarrow> 'k \<rightharpoonup> 'v"
    and keys :: "'m \<Rightarrow> 'k list"
    and inv :: "'m \<Rightarrow> bool"
  assumes inv_empty: "inv empty"
    and get_empty: "get empty = Map.empty"
    and inv_ins: "inv m \<Longrightarrow> inv (ins k v m)"
    and get_ins: "inv m \<Longrightarrow> get (ins k v m) = (get m)(k \<mapsto> v)"
    and sorted_keys: "inv m \<Longrightarrow> sorted_wrt (<) (keys m)"
    and set_keys: "inv m \<Longrightarrow> set (keys m) = dom (get m)"
begin

definition ins_all :: "('k \<times> 'v) list \<Rightarrow> 'm \<Rightarrow> 'm" where
  "ins_all kvs m = fold (\<lambda>(k, v). ins k v) kvs m"

lemma ins_all_simps:
  "ins_all [] m = m" "ins_all ((k, v) # kvs) m = ins_all kvs (ins k v m)"
  by (simp_all add: ins_all_def)

lemma inv_ins_all: "inv m \<Longrightarrow> inv (ins_all kvs m)"
proof (induction kvs arbitrary: m)
  case (Cons kv kvs)
  then show ?case by (cases kv) (simp add: ins_all_simps inv_ins)
qed (simp add: ins_all_simps)

text \<open>The last binding of a key wins.\<close>

lemma get_ins_all: "inv m \<Longrightarrow> get (ins_all kvs m) = get m ++ map_of (rev kvs)"
proof (induction kvs arbitrary: m)
  case (Cons kv kvs)
  obtain k v where kv: "kv = (k, v)" by (cases kv)
  have "get (ins_all (kv # kvs) m) = get (ins k v m) ++ map_of (rev kvs)"
    using Cons by (simp add: kv ins_all_simps inv_ins)
  also have "\<dots> = (get m)(k \<mapsto> v) ++ map_of (rev kvs)"
    by (simp only: get_ins [OF Cons.prems])
  finally have "get (ins_all (kv # kvs) m) = (get m)(k \<mapsto> v) ++ map_of (rev kvs)" .
  then show ?case by (simp add: kv map_add_def fun_eq_iff split: option.splits)
qed (simp add: ins_all_simps)

text \<open>The order of the keys does not depend on the order of the insertions.\<close>

lemma keys_ins_all:
  assumes "inv m" "inv m'" and "dom (get m) \<union> fst ` set kvs = dom (get m') \<union> fst ` set kvs'"
  shows "keys (ins_all kvs m) = keys (ins_all kvs' m')"
proof -
  have "set (keys (ins_all kvs m)) = set (keys (ins_all kvs' m'))"
    using assms by (simp add: set_keys inv_ins_all get_ins_all dom_map_of_conv_image_fst Un_commute)
  moreover have "sorted_wrt (<) (keys (ins_all kvs m))" "sorted_wrt (<) (keys (ins_all kvs' m'))"
    using assms(1,2) by (simp_all add: inv_ins_all sorted_keys)
  ultimately show ?thesis
    by (meson sorted_distinct_set_unique strict_sorted_iff)
qed

end

section \<open>The sorted list provides it\<close>

lemma map_of_bt_insert: "map_of (bt_insert k v m) = (map_of m)(k \<mapsto> v)"
  by (induction k v m rule: bt_insert.induct) (auto simp: fun_eq_iff)

lemma fst_set_bt_insert [simp]: "fst ` set (bt_insert k v m) = insert k (fst ` set m)"
  by (induction k v m rule: bt_insert.induct) auto

lemma bt_inv_insert: "bt_inv m \<Longrightarrow> bt_inv (bt_insert k v m)"
proof (induction k v m rule: bt_insert.induct)
  case (2 k v k' v' m)
  then show ?case by (auto simp: bt_inv_def)
qed (simp add: bt_inv_def)

interpretation bt: ordered_map "[]" bt_insert bt_get bt_keys bt_inv
  by unfold_locales
    (auto simp: bt_inv_def bt_get_def bt_keys_def map_of_bt_insert dom_map_of_conv_image_fst
      intro: bt_inv_insert [unfolded bt_inv_def])

text \<open>The tree is determined by what is found in it.\<close>

lemma bt_eq_iff:
  assumes "bt_inv m" "bt_inv m'"
  shows "m = m' \<longleftrightarrow> bt_get m = bt_get m'"
proof
  assume eq: "bt_get m = bt_get m'"
  have map: "n = map (\<lambda>k. (k, the (bt_get n k))) (bt_keys n)" if "bt_inv n" for n :: "('a, 'b) btree"
  proof -
    have "distinct (map fst n)" using that by (simp add: bt_inv_def strict_sorted_iff)
    then have "map_of n (fst kv) = Some (snd kv)" if "kv \<in> set n" for kv using that by simp
    then show ?thesis by (simp add: bt_get_def bt_keys_def map_idI)
  qed
  have "set (bt_keys m) = set (bt_keys m')"
    using eq assms by (simp add: bt.set_keys)
  then have "bt_keys m = bt_keys m'"
    using bt.sorted_keys [OF assms(1)] bt.sorted_keys [OF assms(2)]
    by (meson sorted_distinct_set_unique strict_sorted_iff)
  with eq map [OF assms(1)] map [OF assms(2)] show "m = m'" by metis
qed simp

end
