(* ===== verification/Config.thy ===== *)
theory Config
  imports Caps Namespaces Lsm BTree "HOL-Library.Multiset"
begin

text \<open>
  \<open>src/config.rs\<close>: the requests a caller sends, with the default values their \<open>Default\<close>
  instances give, validation and encapsulation, and the translation of capability names into
  a list of capabilities. The result of that translation is the iteration of a \<open>HashSet\<close>,
  whose order depends on a random seed; here the seed is a reply of the system.
\<close>

section \<open>The data\<close>

record ProcessResourceLimits =
  address_space_size :: "u64 option"
  core_size :: "u64 option"
  cpu_time :: "u64 option"
  data_space_size :: "u64 option"
  file_size :: "u64 option"
  locked_space_size :: "u64 option"
  msgqueue_size :: "u64 option"
  nice_ceiling :: "u64 option"
  open_files :: "u64 option"
  thread_limit :: "u64 option"
  resident_space_size :: "u64 option"
  real_time_priority :: "u64 option"
  real_time_limit :: "u64 option"
  pending_signal_limit :: "u64 option"
  main_thread_stack_size :: "u64 option"

type_synonym ResourceLimits = "(string, string) btree"

record IdMapping =
  base_nsid :: u32
  base_hostid :: u32
  remap_count :: u32

record ExecutableSpec =
  executable :: "string option"
  arguments :: "string list option"
  working_directory :: "string option"
  environment :: "(string, string) btree option"
  ex_uid :: "u32 option"
  ex_gid :: "u32 option"
  supplemental_gids :: "u32 list option"
  process_limits :: "ProcessResourceLimits option"
  no_new_privs :: bool
  seccomp :: "SeccompFilter option"
  apparmor :: "string option"
  oom_score_adj :: "int option"

record Capabilities =
  cap_raise :: "string list option"
  cap_raise_ambient :: "string list option"
  cap_drop :: "string list option"

record MountSpec =
  ms_source :: "string option"
  ms_target :: string
  ms_fstype :: "string option"
  ms_bind :: bool
  ms_recurse :: bool
  ms_unshare :: bool
  ms_safe :: bool
  ms_create_mountpoint :: bool
  ms_read_only :: bool
  ms_data :: "string option"

record CreateDirMutation =
  cd_target :: string

datatype Mutation = CreateDir CreateDirMutation

record CreateRequest =
  cr_workload_id :: "string option"
  cr_rootfs :: "string option"
  cr_rootfs_readonly :: "bool option"
  cr_exec :: ExecutableSpec
  cr_uid_mappings :: "IdMapping list option"
  cr_gid_mappings :: "IdMapping list option"
  cr_mounts :: "MountSpec list option"
  cr_masked_paths :: "string list option"
  cr_readonly_paths :: "string list option"
  cr_limits :: "ResourceLimits option"
  cr_cgroupfs :: "string option"
  cr_hostname :: "string option"
  cr_mutations :: "Mutation list option"
  cr_namespaces :: "Namespace list option"
  cr_setgroups_deny :: "bool option"
  cr_capabilities :: "Capabilities option"
  cr_skip_two_stage_userns :: "bool option"

record AttachRequest =
  ar_pid :: int
  ar_exec :: ExecutableSpec
  ar_workload_id :: "string option"
  ar_cgroupfs :: "string option"
  ar_namespaces :: "Namespace list option"
  ar_capabilities :: "Capabilities option"

datatype Config = Create CreateRequest | Attach AttachRequest

section \<open>Defaults\<close>

definition ExecutableSpec_default :: ExecutableSpec where
  "ExecutableSpec_default = \<lparr>executable = None, arguments = None, working_directory = None,
     environment = None, ex_uid = None, ex_gid = None, supplemental_gids = None,
     process_limits = None, no_new_privs = False, seccomp = None, apparmor = None,
     oom_score_adj = None\<rparr>"

definition Capabilities_default :: Capabilities where
  "Capabilities_default = \<lparr>cap_raise = None, cap_raise_ambient = None, cap_drop = None\<rparr>"

definition MountSpec_default :: MountSpec where
  "MountSpec_default = \<lparr>ms_source = None, ms_target = [], ms_fstype = None, ms_bind = False,
     ms_recurse = False, ms_unshare = False, ms_safe = False, ms_create_mountpoint = False,
     ms_read_only = False, ms_data = None\<rparr>"

definition CreateRequest_default :: CreateRequest where
  "CreateRequest_default = \<lparr>cr_workload_id = None, cr_rootfs = None, cr_rootfs_readonly = None,
     cr_exec = ExecutableSpec_default, cr_uid_mappings = None, cr_gid_mappings = None,
     cr_mounts = None, cr_masked_paths = None, cr_readonly_paths = None, cr_limits = None,
     cr_cgroupfs = None, cr_hostname = None, cr_mutations = None, cr_namespaces = None,
     cr_setgroups_deny = None, cr_capabilities = None, cr_skip_two_stage_userns = None\<rparr>"

definition AttachRequest_default :: AttachRequest where
  "AttachRequest_default = \<lparr>ar_pid = 0, ar_exec = ExecutableSpec_default, ar_workload_id = None,
     ar_cgroupfs = None, ar_namespaces = None, ar_capabilities = None\<rparr>"

definition ProcessResourceLimits_default :: ProcessResourceLimits where
  "ProcessResourceLimits_default = \<lparr>address_space_size = None, core_size = None, cpu_time = None,
     data_space_size = None, file_size = None, locked_space_size = None, msgqueue_size = None,
     nice_ceiling = None, open_files = None, thread_limit = None, resident_space_size = None,
     real_time_priority = None, real_time_limit = None, pending_signal_limit = None,
     main_thread_stack_size = None\<rparr>"

section \<open>Validation and encapsulation\<close>

definition validate_create :: "CreateRequest \<Rightarrow> unit result" where
  "validate_create req = Inr ()"

definition validate_attach :: "AttachRequest \<Rightarrow> unit result" where
  "validate_attach req = Inr ()"

definition encapsulate_create :: "CreateRequest \<Rightarrow> Config result" where
  "encapsulate_create req = Inr (Create req)"

definition encapsulate_attach :: "AttachRequest \<Rightarrow> Config result" where
  "encapsulate_attach req = Inr (Attach req)"

section \<open>The iteration order of a hash set\<close>

text \<open>The seed picks, one after the other, which of the remaining elements comes next; when it
  is used up the rest comes in the order given. Every order of the elements is one of some seed.\<close>

fun hash_order :: "nat list \<Rightarrow> 'a list \<Rightarrow> 'a list" where
  "hash_order [] xs = xs"
| "hash_order (k # ks) [] = []"
| "hash_order (k # ks) (x # xs) =
     (let i = k mod length (x # xs)
      in (x # xs) ! i # hash_order ks (take i (x # xs) @ drop (Suc i) (x # xs)))"

lemma mset_hash_order [simp]: "mset (hash_order ks xs) = mset xs"
proof (induction ks xs rule: hash_order.induct)
  case (3 k ks x xs)
  define i where "i = k mod length (x # xs)"
  have i: "i < length (x # xs)" by (simp add: i_def)
  have "mset (hash_order (k # ks) (x # xs)) = add_mset ((x # xs) ! i) (mset (take i (x # xs)) + mset (drop (Suc i) (x # xs)))"
    using 3 [OF i_def] by (simp add: Let_def i_def del: length_Cons)
  also have "\<dots> = mset (take i (x # xs) @ (x # xs) ! i # drop (Suc i) (x # xs))" by simp
  also have "\<dots> = mset (x # xs)" by (simp only: id_take_nth_drop [OF i, symmetric])
  finally show ?case .
qed simp_all

lemma set_hash_order [simp]: "set (hash_order ks xs) = set xs"
  using mset_hash_order [of ks xs] by (metis set_mset_mset)

lemma distinct_hash_order [simp]: "distinct (hash_order ks xs) \<longleftrightarrow> distinct xs"
  by (rule mset_eq_imp_distinct_iff) simp

lemma hash_order_surj:
  assumes "mset ys = mset xs"
  shows "\<exists>ks. hash_order ks xs = ys"
  using assms
proof (induction ys arbitrary: xs)
  case (Cons y ys)
  then have "y \<in> set xs" by (metis list.set_intros(1) set_mset_mset)
  then obtain i where i: "i < length xs" "xs ! i = y" by (auto simp: in_set_conv_nth)
  have "mset xs = add_mset y (mset (take i xs @ drop (Suc i) xs))"
    using id_take_nth_drop [OF i(1)] i(2)
    by (metis mset.simps(2) mset_append union_mset_add_mset_right)
  with Cons.prems have "mset ys = mset (take i xs @ drop (Suc i) xs)" by simp
  with Cons.IH obtain ks where "hash_order ks (take i xs @ drop (Suc i) xs) = ys" by blast
  with i have "hash_order (i # ks) xs = y # ys" by (cases xs) (simp_all add: Let_def)
  then show ?case by blast
qed (auto intro: exI [of _ "[]"])

section \<open>Capability names\<close>

definition unknown_capability :: "string \<Rightarrow> error" where
  "unknown_capability name = Msg (''unknown capability: '' @ name)"

fun collect_names :: "string list \<Rightarrow> CapabilityBit list \<Rightarrow> CapabilityBit list result" where
  "collect_names [] caps = Inr caps"
| "collect_names (name # names) caps =
     (case from_str name of
        Inr c \<Rightarrow> collect_names names (List.insert c caps)
      | Inl _ \<Rightarrow>
          if to_uppercase name = ''ALL'' then collect_names names (fold List.insert ALL_caps caps)
          else Inl (unknown_capability name))"

definition names_as_bits :: "string list \<Rightarrow> CapabilityBit list io" where
  "names_as_bits names =
     try_io (sys (Sys HashSeed)) (\<lambda>r.
     Ret (case collect_names names [] of
            Inl e \<Rightarrow> Inl e
          | Inr caps \<Rightarrow> Inr (hash_order (seed r) caps)))"

text \<open>What one name asks for; nothing if it is not recognised.\<close>

definition name_caps :: "string \<Rightarrow> CapabilityBit set" where
  "name_caps name =
     (case from_str name of
        Inr c \<Rightarrow> {c}
      | Inl _ \<Rightarrow> if to_uppercase name = ''ALL'' then UNIV else {})"

lemma set_fold_insert: "set (fold List.insert xs acc) = set xs \<union> set acc"
  by (induction xs arbitrary: acc) auto

lemma distinct_fold_insert: "distinct acc \<Longrightarrow> distinct (fold List.insert xs acc)"
  by (induction xs arbitrary: acc) (simp_all add: distinct_insert)

lemma set_ALL_caps: "set ALL_caps = UNIV"
  by auto

lemma collect_names_set:
  "collect_names names acc = Inr caps \<Longrightarrow>
     set caps = set acc \<union> (\<Union>n \<in> set names. name_caps n) \<and> list_all (\<lambda>n. name_caps n \<noteq> {}) names"
proof (induction names arbitrary: acc)
  case (Cons n ns)
  show ?case
  proof (cases "from_str n")
    case (Inl e)
    with Cons.prems have all: "to_uppercase n = ''ALL''" by (auto split: if_splits)
    with Inl have "name_caps n = UNIV" by (simp add: name_caps_def)
    with Cons.IH [of "fold List.insert ALL_caps acc"] Cons.prems Inl all show ?thesis
      by (simp add: set_fold_insert set_ALL_caps)
  next
    case (Inr c)
    then have "name_caps n = {c}" by (simp add: name_caps_def)
    with Cons.IH [of "List.insert c acc"] Cons.prems Inr show ?thesis by simp
  qed
qed simp

lemma collect_names_distinct:
  "collect_names names acc = Inr caps \<Longrightarrow> distinct acc \<Longrightarrow> distinct caps"
proof (induction names arbitrary: acc)
  case (Cons n ns)
  then show ?case
    by (cases "from_str n") (auto simp: distinct_insert distinct_fold_insert split: if_splits)
qed simp

lemma collect_names_error:
  "collect_names names acc = Inl e \<longleftrightarrow>
     (\<exists>n. find (\<lambda>n. name_caps n = {}) names = Some n \<and> e = unknown_capability n)"
proof (induction names arbitrary: acc)
  case (Cons n ns)
  have unk: "(\<exists>e. from_str n = Inl e) \<and> to_uppercase n \<noteq> ''ALL'' \<longleftrightarrow> name_caps n = {}"
    by (auto simp: name_caps_def split: sum.splits)
  show ?case
  proof (cases "name_caps n = {}")
    case True
    with unk obtain e' where "from_str n = Inl e'" "to_uppercase n \<noteq> ''ALL''" by blast
    with True show ?thesis by auto
  next
    case False
    then obtain acc' where "collect_names (n # ns) acc = collect_names ns acc'"
      by (auto simp: name_caps_def split: sum.splits if_splits)
    with Cons.IH [of acc'] False show ?thesis by simp
  qed
qed simp

section \<open>Properties\<close>

text \<open>C21. Translating capability names: every list is either refused, and then the first name
  that is neither a capability nor \<open>ALL\<close> is the one reported, or accepted, and then the result
  lists without repetition exactly the capabilities the names ask for, in an order that the hash
  seed alone decides and that can be any order.\<close>

theorem names_as_bits_spec:
  "case collect_names names [] of
     Inl e \<Rightarrow> outcome_of (scripted (\<lambda>_. False) (\<lambda>_. r)) () (names_as_bits names) = Done (Inl e) \<and>
       (\<exists>n. find (\<lambda>n. name_caps n = {}) names = Some n \<and> e = unknown_capability n)
   | Inr caps \<Rightarrow> distinct caps \<and> set caps = (\<Union>n \<in> set names. name_caps n) \<and>
       list_all (\<lambda>n. name_caps n \<noteq> {}) names \<and>
       {bits. \<exists>r. outcome_of (scripted (\<lambda>_. False) (\<lambda>_. r)) () (names_as_bits names) = Done (Inr bits)}
         = {bits. mset bits = mset caps}"
proof (cases "collect_names names []")
  case (Inl e)
  then show ?thesis
    using iffD1 [OF collect_names_error Inl] by (simp add: names_as_bits_def sys_def scripted_def)
next
  case (Inr caps)
  have "(\<exists>r :: reply. hash_order (seed r) caps = bits) \<longleftrightarrow> mset bits = mset caps" for bits
  proof
    assume "mset bits = mset caps"
    then obtain ks where "hash_order ks caps = bits" using hash_order_surj by blast
    then have "hash_order (seed (reply0\<lparr>seed := ks\<rparr>)) caps = bits" by simp
    then show "\<exists>r :: reply. hash_order (seed r) caps = bits" ..
  qed auto
  with Inr show ?thesis
    using collect_names_set [OF Inr] collect_names_distinct [OF Inr]
    by (auto simp: names_as_bits_def sys_def scripted_def)
qed

end
