(* ===== verification/Builders.thy ===== *)
theory Builders
  imports Config
begin

text \<open>
  The request builders of \<open>src/runner.rs\<close>. A builder owns the request it builds; each setter is a
  function from builder to builder, and the setters of lists and maps create them on first use. The
  properties: the environment depends only on the last value pushed for each name, and the three
  capability lists are independent of each other.
\<close>

section \<open>Pushing into optional containers\<close>

text \<open>\<open>if x.is_none() { x = vec![].into() }\<close>, then \<open>push\<close>; the same with a \<open>BTreeMap\<close> and \<open>insert\<close>.\<close>

definition push_opt :: "'a \<Rightarrow> 'a list option \<Rightarrow> 'a list option" where
  "push_opt x xs = map_option (\<lambda>ys. ys @ [x]) (case xs of None \<Rightarrow> Some [] | Some ys \<Rightarrow> Some ys)"

definition insert_opt :: "string \<Rightarrow> string \<Rightarrow> (string, string) btree option \<Rightarrow> (string, string) btree option" where
  "insert_opt k v m = map_option (bt_insert k v) (case m of None \<Rightarrow> Some [] | Some m \<Rightarrow> Some m)"

text \<open>\<open>get_list\<close> picks a field to be changed in place; here it is the update function of the field.\<close>

definition add_to_cap_list ::
  "string \<Rightarrow> ((string list option \<Rightarrow> string list option) \<Rightarrow> Capabilities \<Rightarrow> Capabilities)
    \<Rightarrow> Capabilities option \<Rightarrow> Capabilities option" where
  "add_to_cap_list name get_list caps =
     map_option (get_list (push_opt name))
       (case caps of None \<Rightarrow> Some Capabilities_default | Some c \<Rightarrow> Some c)"

section \<open>AttachRequestBuilder\<close>

record AttachRequestBuilder =
  ab_config :: AttachRequest

definition attach_new :: AttachRequestBuilder where
  "attach_new = \<lparr>ab_config = AttachRequest_default\<rparr>"

definition attach_set_pid :: "int \<Rightarrow> AttachRequestBuilder \<Rightarrow> AttachRequestBuilder" where
  "attach_set_pid pid = ab_config_update (ar_pid_update (\<lambda>_. pid))"

definition attach_exec :: "(ExecutableSpec \<Rightarrow> ExecutableSpec) \<Rightarrow> AttachRequestBuilder \<Rightarrow> AttachRequestBuilder" where
  "attach_exec f = ab_config_update (ar_exec_update f)"

definition attach_set_executable :: "string \<Rightarrow> AttachRequestBuilder \<Rightarrow> AttachRequestBuilder" where
  "attach_set_executable e = attach_exec (executable_update (\<lambda>_. Some e))"

definition attach_set_arguments :: "string list \<Rightarrow> AttachRequestBuilder \<Rightarrow> AttachRequestBuilder" where
  "attach_set_arguments args = attach_exec (arguments_update (\<lambda>_. Some args))"

definition attach_set_working_directory :: "string \<Rightarrow> AttachRequestBuilder \<Rightarrow> AttachRequestBuilder" where
  "attach_set_working_directory wd = attach_exec (working_directory_update (\<lambda>_. Some wd))"

definition attach_set_workload_id :: "string \<Rightarrow> AttachRequestBuilder \<Rightarrow> AttachRequestBuilder" where
  "attach_set_workload_id wid = ab_config_update (ar_workload_id_update (\<lambda>_. Some wid))"

definition attach_set_uid :: "u32 \<Rightarrow> AttachRequestBuilder \<Rightarrow> AttachRequestBuilder" where
  "attach_set_uid uid = attach_exec (ex_uid_update (\<lambda>_. Some uid))"

definition attach_set_gid :: "u32 \<Rightarrow> AttachRequestBuilder \<Rightarrow> AttachRequestBuilder" where
  "attach_set_gid gid = attach_exec (ex_gid_update (\<lambda>_. Some gid))"

definition attach_set_supplemental_gids :: "u32 list \<Rightarrow> AttachRequestBuilder \<Rightarrow> AttachRequestBuilder" where
  "attach_set_supplemental_gids gids = attach_exec (supplemental_gids_update (\<lambda>_. Some gids))"

definition attach_set_no_new_privs :: "bool \<Rightarrow> AttachRequestBuilder \<Rightarrow> AttachRequestBuilder" where
  "attach_set_no_new_privs b = attach_exec (no_new_privs_update (\<lambda>_. b))"

definition attach_push_environment :: "string \<Rightarrow> string \<Rightarrow> AttachRequestBuilder \<Rightarrow> AttachRequestBuilder" where
  "attach_push_environment k v = attach_exec (environment_update (insert_opt k v))"

definition attach_set_oom_score_adj :: "int \<Rightarrow> AttachRequestBuilder \<Rightarrow> AttachRequestBuilder" where
  "attach_set_oom_score_adj score = attach_exec (oom_score_adj_update (\<lambda>_. Some score))"

definition attach_push_namespace :: "Namespace \<Rightarrow> AttachRequestBuilder \<Rightarrow> AttachRequestBuilder" where
  "attach_push_namespace ns = ab_config_update (ar_namespaces_update (push_opt ns))"

definition attach_push_raise_capability :: "string \<Rightarrow> AttachRequestBuilder \<Rightarrow> AttachRequestBuilder" where
  "attach_push_raise_capability cap =
     ab_config_update (ar_capabilities_update (add_to_cap_list cap cap_raise_update))"

definition attach_push_raise_ambient_capability :: "string \<Rightarrow> AttachRequestBuilder \<Rightarrow> AttachRequestBuilder" where
  "attach_push_raise_ambient_capability cap =
     ab_config_update (ar_capabilities_update (add_to_cap_list cap cap_raise_ambient_update))"

definition attach_push_drop_capability :: "string \<Rightarrow> AttachRequestBuilder \<Rightarrow> AttachRequestBuilder" where
  "attach_push_drop_capability cap =
     ab_config_update (ar_capabilities_update (add_to_cap_list cap cap_drop_update))"

definition attach_to_request :: "AttachRequestBuilder \<Rightarrow> AttachRequest" where
  "attach_to_request b = ab_config b"

section \<open>CreateRequestBuilder\<close>

record CreateRequestBuilder =
  cb_config :: CreateRequest

definition create_new :: CreateRequestBuilder where
  "create_new = \<lparr>cb_config = CreateRequest_default\<rparr>"

definition create_exec :: "(ExecutableSpec \<Rightarrow> ExecutableSpec) \<Rightarrow> CreateRequestBuilder \<Rightarrow> CreateRequestBuilder" where
  "create_exec f = cb_config_update (cr_exec_update f)"

definition create_set_rootfs :: "string \<Rightarrow> CreateRequestBuilder \<Rightarrow> CreateRequestBuilder" where
  "create_set_rootfs rootfs = cb_config_update (cr_rootfs_update (\<lambda>_. Some rootfs))"

definition create_set_rootfs_readonly :: "bool \<Rightarrow> CreateRequestBuilder \<Rightarrow> CreateRequestBuilder" where
  "create_set_rootfs_readonly b = cb_config_update (cr_rootfs_readonly_update (\<lambda>_. Some b))"

definition create_set_skip_two_stage_userns :: "bool \<Rightarrow> CreateRequestBuilder \<Rightarrow> CreateRequestBuilder" where
  "create_set_skip_two_stage_userns b = cb_config_update (cr_skip_two_stage_userns_update (\<lambda>_. Some b))"

definition create_set_executable :: "string \<Rightarrow> CreateRequestBuilder \<Rightarrow> CreateRequestBuilder" where
  "create_set_executable e = create_exec (executable_update (\<lambda>_. Some e))"

definition create_set_arguments :: "string list \<Rightarrow> CreateRequestBuilder \<Rightarrow> CreateRequestBuilder" where
  "create_set_arguments args = create_exec (arguments_update (\<lambda>_. Some args))"

definition create_set_working_directory :: "string \<Rightarrow> CreateRequestBuilder \<Rightarrow> CreateRequestBuilder" where
  "create_set_working_directory wd = create_exec (working_directory_update (\<lambda>_. Some wd))"

definition create_set_workload_id :: "string \<Rightarrow> CreateRequestBuilder \<Rightarrow> CreateRequestBuilder" where
  "create_set_workload_id wid = cb_config_update (cr_workload_id_update (\<lambda>_. Some wid))"

definition create_set_uid :: "u32 \<Rightarrow> CreateRequestBuilder \<Rightarrow> CreateRequestBuilder" where
  "create_set_uid uid = create_exec (ex_uid_update (\<lambda>_. Some uid))"

definition create_set_gid :: "u32 \<Rightarrow> CreateRequestBuilder \<Rightarrow> CreateRequestBuilder" where
  "create_set_gid gid = create_exec (ex_gid_update (\<lambda>_. Some gid))"

definition create_set_supplemental_gids :: "u32 list \<Rightarrow> CreateRequestBuilder \<Rightarrow> CreateRequestBuilder" where
  "create_set_supplemental_gids gids = create_exec (supplemental_gids_update (\<lambda>_. Some gids))"

definition create_set_no_new_privs :: "bool \<Rightarrow> CreateRequestBuilder \<Rightarrow> CreateRequestBuilder" where
  "create_set_no_new_privs b = create_exec (no_new_privs_update (\<lambda>_. b))"

definition create_set_oom_score_adj :: "int \<Rightarrow> CreateRequestBuilder \<Rightarrow> CreateRequestBuilder" where
  "create_set_oom_score_adj score = create_exec (oom_score_adj_update (\<lambda>_. Some score))"

definition create_set_hostname :: "string \<Rightarrow> CreateRequestBuilder \<Rightarrow> CreateRequestBuilder" where
  "create_set_hostname h = cb_config_update (cr_hostname_update (\<lambda>_. Some h))"

definition create_set_setgroups_deny :: "bool \<Rightarrow> CreateRequestBuilder \<Rightarrow> CreateRequestBuilder" where
  "create_set_setgroups_deny b = cb_config_update (cr_setgroups_deny_update (\<lambda>_. Some b))"

definition create_set_process_resource_limits :: "ProcessResourceLimits \<Rightarrow> CreateRequestBuilder \<Rightarrow> CreateRequestBuilder" where
  "create_set_process_resource_limits l = create_exec (process_limits_update (\<lambda>_. Some l))"

definition create_push_resource_limit :: "string \<Rightarrow> string \<Rightarrow> CreateRequestBuilder \<Rightarrow> CreateRequestBuilder" where
  "create_push_resource_limit k v = cb_config_update (cr_limits_update (insert_opt k v))"

definition create_push_environment :: "string \<Rightarrow> string \<Rightarrow> CreateRequestBuilder \<Rightarrow> CreateRequestBuilder" where
  "create_push_environment k v = create_exec (environment_update (insert_opt k v))"

definition create_push_namespace :: "Namespace \<Rightarrow> CreateRequestBuilder \<Rightarrow> CreateRequestBuilder" where
  "create_push_namespace ns = cb_config_update (cr_namespaces_update (push_opt ns))"

definition create_push_uid_mapping :: "IdMapping \<Rightarrow> CreateRequestBuilder \<Rightarrow> CreateRequestBuilder" where
  "create_push_uid_mapping m = cb_config_update (cr_uid_mappings_update (push_opt m))"

definition create_push_gid_mapping :: "IdMapping \<Rightarrow> CreateRequestBuilder \<Rightarrow> CreateRequestBuilder" where
  "create_push_gid_mapping m = cb_config_update (cr_gid_mappings_update (push_opt m))"

definition create_push_mount :: "MountSpec \<Rightarrow> CreateRequestBuilder \<Rightarrow> CreateRequestBuilder" where
  "create_push_mount spec = cb_config_update (cr_mounts_update (push_opt spec))"

definition create_push_masked_path :: "string \<Rightarrow> CreateRequestBuilder \<Rightarrow> CreateRequestBuilder" where
  "create_push_masked_path path = cb_config_update (cr_masked_paths_update (push_opt path))"

definition create_push_readonly_path :: "string \<Rightarrow> CreateRequestBuilder \<Rightarrow> CreateRequestBuilder" where
  "create_push_readonly_path path = cb_config_update (cr_readonly_paths_update (push_opt path))"

definition create_push_mutation :: "Mutation \<Rightarrow> CreateRequestBuilder \<Rightarrow> CreateRequestBuilder" where
  "create_push_mutation spec = cb_config_update (cr_mutations_update (push_opt spec))"

definition create_push_raise_capability :: "string \<Rightarrow> CreateRequestBuilder \<Rightarrow> CreateRequestBuilder" where
  "create_push_raise_capability cap =
     cb_config_update (cr_capabilities_update (add_to_cap_list cap cap_raise_update))"

definition create_push_raise_ambient_capability :: "string \<Rightarrow> CreateRequestBuilder \<Rightarrow> CreateRequestBuilder" where
  "create_push_raise_ambient_capability cap =
     cb_config_update (cr_capabilities_update (add_to_cap_list cap cap_raise_ambient_update))"

definition create_push_drop_capability :: "string \<Rightarrow> CreateRequestBuilder \<Rightarrow> CreateRequestBuilder" where
  "create_push_drop_capability cap =
     cb_config_update (cr_capabilities_update (add_to_cap_list cap cap_drop_update))"

definition create_to_request :: "CreateRequestBuilder \<Rightarrow> CreateRequest" where
  "create_to_request b = cb_config b"

section \<open>Pushing in sequence\<close>

lemma push_opt_simps [simp]: "push_opt x None = Some [x]" "push_opt x (Some xs) = Some (xs @ [x])"
  by (simp_all add: push_opt_def)

lemma insert_opt_simps [simp]:
  "insert_opt k v None = Some [(k, v)]" "insert_opt k v (Some m) = Some (bt_insert k v m)"
  by (simp_all add: insert_opt_def)

lemma add_to_cap_list_simps [simp]:
  "add_to_cap_list n upd None = Some (upd (push_opt n) Capabilities_default)"
  "add_to_cap_list n upd (Some c) = Some (upd (push_opt n) c)"
  by (simp_all add: add_to_cap_list_def)

lemma fold_push_opt: "fold push_opt xs acc = (if xs = [] then acc else Some (case acc of None \<Rightarrow> xs | Some ys \<Rightarrow> ys @ xs))"
  by (induction xs arbitrary: acc) (auto split: option.splits)

lemma fold_insert_opt:
  "fold (\<lambda>(k, v). insert_opt k v) kvs acc =
     (if kvs = [] then acc else Some (bt.ins_all kvs (case acc of None \<Rightarrow> [] | Some m \<Rightarrow> m)))"
proof (induction kvs arbitrary: acc)
  case (Cons kv kvs)
  obtain k v where "kv = (k, v)" by (cases kv)
  with Cons show ?case by (cases acc) (simp_all add: bt.ins_all_simps)
qed simp

section \<open>Well-formed requests\<close>

text \<open>The builders that a caller can get, by any setters in any order.\<close>

inductive create_built :: "CreateRequestBuilder \<Rightarrow> bool" where
  create_built_new: "create_built create_new"
| "create_built b \<Longrightarrow> create_built (create_set_rootfs x b)"
| "create_built b \<Longrightarrow> create_built (create_set_rootfs_readonly x b)"
| "create_built b \<Longrightarrow> create_built (create_set_skip_two_stage_userns x b)"
| "create_built b \<Longrightarrow> create_built (create_set_executable x b)"
| "create_built b \<Longrightarrow> create_built (create_set_arguments x b)"
| "create_built b \<Longrightarrow> create_built (create_set_working_directory x b)"
| "create_built b \<Longrightarrow> create_built (create_set_workload_id x b)"
| "create_built b \<Longrightarrow> create_built (create_set_uid x b)"
| "create_built b \<Longrightarrow> create_built (create_set_gid x b)"
| "create_built b \<Longrightarrow> create_built (create_set_supplemental_gids x b)"
| "create_built b \<Longrightarrow> create_built (create_set_no_new_privs x b)"
| "create_built b \<Longrightarrow> create_built (create_set_oom_score_adj x b)"
| "create_built b \<Longrightarrow> create_built (create_set_hostname x b)"
| "create_built b \<Longrightarrow> create_built (create_set_setgroups_deny x b)"
| "create_built b \<Longrightarrow> create_built (create_set_process_resource_limits x b)"
| "create_built b \<Longrightarrow> create_built (create_push_resource_limit x y b)"
| "create_built b \<Longrightarrow> create_built (create_push_environment x y b)"
| "create_built b \<Longrightarrow> create_built (create_push_namespace x b)"
| "create_built b \<Longrightarrow> create_built (create_push_uid_mapping x b)"
| "create_built b \<Longrightarrow> create_built (create_push_gid_mapping x b)"
| "create_built b \<Longrightarrow> create_built (create_push_mount x b)"
| "create_built b \<Longrightarrow> create_built (create_push_masked_path x b)"
| "create_built b \<Longrightarrow> create_built (create_push_readonly_path x b)"
| "create_built b \<Longrightarrow> create_built (create_push_mutation x b)"
| "create_built b \<Longrightarrow> create_built (create_push_raise_capability x b)"
| "create_built b \<Longrightarrow> create_built (create_push_raise_ambient_capability x b)"
| "create_built b \<Longrightarrow> create_built (create_push_drop_capability x b)"

inductive attach_built :: "AttachRequestBuilder \<Rightarrow> bool" where
  attach_built_new: "attach_built attach_new"
| "attach_built b \<Longrightarrow> attach_built (attach_set_pid x b)"
| "attach_built b \<Longrightarrow> attach_built (attach_set_executable x b)"
| "attach_built b \<Longrightarrow> attach_built (attach_set_arguments x b)"
| "attach_built b \<Longrightarrow> attach_built (attach_set_working_directory x b)"
| "attach_built b \<Longrightarrow> attach_built (attach_set_workload_id x b)"
| "attach_built b \<Longrightarrow> attach_built (attach_set_uid x b)"
| "attach_built b \<Longrightarrow> attach_built (attach_set_gid x b)"
| "attach_built b \<Longrightarrow> attach_built (attach_set_supplemental_gids x b)"
| "attach_built b \<Longrightarrow> attach_built (attach_set_no_new_privs x b)"
| "attach_built b \<Longrightarrow> attach_built (attach_push_environment x y b)"
| "attach_built b \<Longrightarrow> attach_built (attach_set_oom_score_adj x b)"
| "attach_built b \<Longrightarrow> attach_built (attach_push_namespace x b)"
| "attach_built b \<Longrightarrow> attach_built (attach_push_raise_capability x b)"
| "attach_built b \<Longrightarrow> attach_built (attach_push_raise_ambient_capability x b)"
| "attach_built b \<Longrightarrow> attach_built (attach_push_drop_capability x b)"

text \<open>A container that is there has something in it, and a map is sorted by key.\<close>

definition wf_list :: "'a list option \<Rightarrow> bool" where
  "wf_list xs \<longleftrightarrow> xs \<noteq> Some []"

definition wf_map :: "(string, string) btree option \<Rightarrow> bool" where
  "wf_map m = (case m of None \<Rightarrow> True | Some m \<Rightarrow> m \<noteq> [] \<and> bt_inv m)"

definition wf_caps :: "Capabilities option \<Rightarrow> bool" where
  "wf_caps c = (case c of None \<Rightarrow> True
     | Some c \<Rightarrow> wf_list (cap_raise c) \<and> wf_list (cap_raise_ambient c) \<and> wf_list (cap_drop c) \<and>
         \<not> (cap_raise c = None \<and> cap_raise_ambient c = None \<and> cap_drop c = None))"

lemma wf_push [simp]: "wf_list None" "wf_list (push_opt x xs)" "wf_map None" "wf_caps None"
  by (simp_all add: wf_list_def wf_map_def wf_caps_def push_opt_def split: option.split)

lemma wf_insert [simp]: "wf_map m \<Longrightarrow> wf_map (insert_opt k v m)"
proof -
  have "bt_insert k v n \<noteq> []" for n :: "(string, string) btree"
    by (induction k v n rule: bt_insert.induct) auto
  then show "wf_map m \<Longrightarrow> wf_map (insert_opt k v m)"
    by (auto simp: wf_map_def insert_opt_def bt.inv_ins bt.inv_empty split: option.splits)
      (simp add: bt_inv_def)
qed

lemma wf_add_cap [simp]:
  "wf_caps c \<Longrightarrow> wf_caps (add_to_cap_list n cap_raise_update c)"
  "wf_caps c \<Longrightarrow> wf_caps (add_to_cap_list n cap_raise_ambient_update c)"
  "wf_caps c \<Longrightarrow> wf_caps (add_to_cap_list n cap_drop_update c)"
  by (auto simp: wf_caps_def wf_list_def add_to_cap_list_def push_opt_def Capabilities_default_def
      split: option.splits)

definition wf_create :: "CreateRequest \<Rightarrow> bool" where
  "wf_create r \<longleftrightarrow> wf_map (environment (cr_exec r)) \<and> wf_map (cr_limits r) \<and> wf_caps (cr_capabilities r) \<and>
     wf_list (cr_namespaces r) \<and> wf_list (cr_uid_mappings r) \<and> wf_list (cr_gid_mappings r) \<and>
     wf_list (cr_mounts r) \<and> wf_list (cr_masked_paths r) \<and> wf_list (cr_readonly_paths r) \<and>
     wf_list (cr_mutations r)"

definition wf_attach :: "AttachRequest \<Rightarrow> bool" where
  "wf_attach r \<longleftrightarrow> wf_map (environment (ar_exec r)) \<and> wf_list (ar_namespaces r) \<and> wf_caps (ar_capabilities r)"

lemmas create_setters =
  create_set_rootfs_def create_set_rootfs_readonly_def create_set_skip_two_stage_userns_def
  create_set_executable_def create_set_arguments_def create_set_working_directory_def
  create_set_workload_id_def create_set_uid_def create_set_gid_def create_set_supplemental_gids_def
  create_set_no_new_privs_def create_set_oom_score_adj_def create_set_hostname_def
  create_set_setgroups_deny_def create_set_process_resource_limits_def
  create_push_resource_limit_def create_push_environment_def create_push_namespace_def
  create_push_uid_mapping_def create_push_gid_mapping_def create_push_mount_def
  create_push_masked_path_def create_push_readonly_path_def create_push_mutation_def
  create_push_raise_capability_def create_push_raise_ambient_capability_def
  create_push_drop_capability_def

lemmas attach_setters =
  attach_set_pid_def attach_set_executable_def attach_set_arguments_def
  attach_set_working_directory_def attach_set_workload_id_def attach_set_uid_def attach_set_gid_def
  attach_set_supplemental_gids_def attach_set_no_new_privs_def attach_push_environment_def
  attach_set_oom_score_adj_def attach_push_namespace_def attach_push_raise_capability_def
  attach_push_raise_ambient_capability_def attach_push_drop_capability_def

lemma create_built_wf: "create_built b \<Longrightarrow> wf_create (create_to_request b)"
  unfolding create_to_request_def
  by (induction rule: create_built.induct)
    (simp_all add: wf_create_def create_new_def create_exec_def CreateRequest_default_def
      ExecutableSpec_default_def create_setters)

lemma attach_built_wf: "attach_built a \<Longrightarrow> wf_attach (attach_to_request a)"
  unfolding attach_to_request_def
  by (induction rule: attach_built.induct)
    (simp_all add: wf_attach_def attach_new_def attach_exec_def AttachRequest_default_def
      ExecutableSpec_default_def attach_setters)

section \<open>Properties\<close>

definition built_environment :: "(string \<times> string) list \<Rightarrow> (string, string) btree option" where
  "built_environment kvs =
     environment (cr_exec (create_to_request (fold (\<lambda>(k, v). create_push_environment k v) kvs create_new)))"

lemma built_environment_eq: "built_environment kvs = (if kvs = [] then None else Some (bt.ins_all kvs []))"
proof -
  have "environment (cr_exec (cb_config (fold (\<lambda>(k, v). create_push_environment k v) kvs b))) =
      fold (\<lambda>(k, v). insert_opt k v) kvs (environment (cr_exec (cb_config b)))" for b
    by (induction kvs arbitrary: b) (auto simp: create_push_environment_def create_exec_def)
  then show ?thesis
    by (simp add: built_environment_def create_to_request_def fold_insert_opt create_new_def
        CreateRequest_default_def ExecutableSpec_default_def)
qed

text \<open>The environment built by pushing pairs: the names are in increasing order, whatever the
  order of the pushes; the value of a name is the last one pushed for it; so two sequences of pushes
  build the same environment exactly if they have the same last values.\<close>

theorem environment_built:
  "(case built_environment kvs of
      None \<Rightarrow> kvs = []
    | Some m \<Rightarrow> kvs \<noteq> [] \<and> sorted_wrt (<) (bt_keys m) \<and> bt_get m = map_of (rev kvs)) \<and>
   (built_environment kvs = built_environment kvs' \<longleftrightarrow> map_of (rev kvs) = map_of (rev kvs'))"
proof -
  have inv: "bt_inv (bt.ins_all l [])" and get: "bt_get (bt.ins_all l []) = map_of (rev l)"
    for l :: "(string \<times> string) list"
    using bt.inv_ins_all [OF bt.inv_empty] bt.get_ins_all [OF bt.inv_empty] by (simp_all add: bt.get_empty)
  have "bt.ins_all kvs [] = bt.ins_all kvs' [] \<longleftrightarrow> map_of (rev kvs) = map_of (rev kvs')"
    by (simp add: bt_eq_iff [OF inv inv] get)
  moreover have "map_of (rev l) = Map.empty \<longleftrightarrow> l = []" for l :: "(string \<times> string) list"
    by (cases l rule: rev_cases) auto
  ultimately show ?thesis
    using bt.sorted_keys [OF inv] get by (auto simp: built_environment_eq)
qed

text \<open>The three kinds of pushes, to speak of any sequence of them.\<close>

datatype cap_push = Raise string | Ambient string | Drop string

definition push_cap :: "cap_push \<Rightarrow> CreateRequestBuilder \<Rightarrow> CreateRequestBuilder" where
  "push_cap p = (case p of
      Raise n \<Rightarrow> create_push_raise_capability n
    | Ambient n \<Rightarrow> create_push_raise_ambient_capability n
    | Drop n \<Rightarrow> create_push_drop_capability n)"

definition pushed :: "('a \<Rightarrow> string option) \<Rightarrow> 'a list \<Rightarrow> string list option" where
  "pushed sel ps = (let ns = List.map_filter sel ps in if ns = [] then None else Some ns)"

definition pushed_caps :: "cap_push list \<Rightarrow> Capabilities" where
  "pushed_caps ps = \<lparr>
     cap_raise = pushed (\<lambda>p. case p of Raise n \<Rightarrow> Some n | _ \<Rightarrow> None) ps,
     cap_raise_ambient = pushed (\<lambda>p. case p of Ambient n \<Rightarrow> Some n | _ \<Rightarrow> None) ps,
     cap_drop = pushed (\<lambda>p. case p of Drop n \<Rightarrow> Some n | _ \<Rightarrow> None) ps\<rparr>"

lemma pushed_snoc: "pushed sel (ps @ [p]) = (case sel p of None \<Rightarrow> pushed sel ps | Some n \<Rightarrow> push_opt n (pushed sel ps))"
  by (auto simp: pushed_def Let_def List.map_filter_def split: option.splits)

text \<open>Capabilities pushed in any interleaving of raise, ambient and drop: each list has exactly
  the names pushed to it, in the order of the pushes, and is absent if there was none; no push
  affects another list; and nothing else of the request is changed.\<close>

theorem capabilities_built:
  "create_to_request (fold push_cap ps create_new) =
     CreateRequest_default\<lparr>cr_capabilities := (if ps = [] then None else Some (pushed_caps ps))\<rparr>"
proof (induction ps rule: rev_induct)
  case (snoc p ps)
  have "cr_capabilities_update (add_to_cap_list n upd)
      (CreateRequest_default\<lparr>cr_capabilities := (if ps = [] then None else Some (pushed_caps ps))\<rparr>) =
    CreateRequest_default\<lparr>cr_capabilities := Some (upd (push_opt n) (if ps = [] then Capabilities_default else pushed_caps ps))\<rparr>"
    for n upd by simp
  moreover have "(if ps = [] then Capabilities_default else pushed_caps ps) = pushed_caps ps"
    by (simp add: pushed_caps_def pushed_def List.map_filter_def Capabilities_default_def)
  ultimately show ?case
    using snoc by (cases p) (simp_all add: create_to_request_def push_cap_def pushed_caps_def pushed_snoc
        create_push_raise_capability_def create_push_raise_ambient_capability_def create_push_drop_capability_def)
qed (simp add: create_to_request_def create_new_def CreateRequest_default_def)

text \<open>C38. The form of the requests, whatever setters built them, in whatever order and however often. A
  list that is filled by pushes (namespaces, id mappings, mounts, masked and read-only paths, mutations,
  the three lists of capability names) is not there without an element, and so is a map; the environment
  and the limits have their keys in increasing order, not that of insertion as the comment in
  \<open>src/config.rs\<close> says, and each only once; capabilities given at all name at least one. The arguments
  and the supplementary groups are set as a whole and taken as they are, also where they are empty,
  and setting them changes nothing else.\<close>

theorem built_requests_well_formed:
  assumes "create_built b" and "attach_built a"
  shows "wf_create (create_to_request b) \<and> wf_attach (attach_to_request a) \<and>
    create_to_request (create_set_arguments args b) =
      (create_to_request b)\<lparr>cr_exec := (cr_exec (create_to_request b))\<lparr>arguments := Some args\<rparr>\<rparr> \<and>
    create_to_request (create_set_supplemental_gids gids b) =
      (create_to_request b)\<lparr>cr_exec := (cr_exec (create_to_request b))\<lparr>supplemental_gids := Some gids\<rparr>\<rparr> \<and>
    attach_to_request (attach_set_arguments args a) =
      (attach_to_request a)\<lparr>ar_exec := (ar_exec (attach_to_request a))\<lparr>arguments := Some args\<rparr>\<rparr> \<and>
    attach_to_request (attach_set_supplemental_gids gids a) =
      (attach_to_request a)\<lparr>ar_exec := (ar_exec (attach_to_request a))\<lparr>supplemental_gids := Some gids\<rparr>\<rparr>"
  using create_built_wf [OF assms(1)] attach_built_wf [OF assms(2)]
  by (simp add: create_to_request_def attach_to_request_def create_setters attach_setters create_exec_def attach_exec_def)

theorem built_requests_well_formed_witness:
  "wf_create (create_to_request (create_push_environment ''A'' ''1'' (create_push_environment ''B'' ''2'' create_new))) \<and>
   wf_attach (attach_to_request (attach_push_raise_capability ''CHOWN'' attach_new)) \<and>
   arguments (cr_exec (create_to_request (create_set_arguments []
     (create_push_environment ''A'' ''1'' (create_push_environment ''B'' ''2'' create_new))))) = Some []"
proof -
  have "create_built (create_push_environment ''A'' ''1'' (create_push_environment ''B'' ''2'' create_new))"
    "attach_built (attach_push_raise_capability ''CHOWN'' attach_new)"
    by (intro create_built.intros attach_built.intros)+
  from built_requests_well_formed [OF this, of "[]" "[]"] show ?thesis by simp
qed

end
