(* ===== verification/Mounts.thy ===== *)
theory Mounts
  imports Config
begin

text \<open>
  \<open>src/mount.rs\<close>: the mount system calls, mounting a \<open>MountSpec\<close>, masking and write-protecting
  container paths, and pivoting to a new root. An error message that prints values is kept up to
  its first printed value. The lemmas show which calls a successful mount has made with which
  flags and attributes, and how container paths are placed below the root.
\<close>

section \<open>Constants\<close>

definition AT_FDCWD :: int where "AT_FDCWD = -100"
definition MOVE_MOUNT_F_EMPTY_PATH :: u32 where "MOVE_MOUNT_F_EMPTY_PATH = 0x4"
definition AT_EMPTY_PATH :: u32 where "AT_EMPTY_PATH = 0x1000"
definition AT_RECURSIVE :: u32 where "AT_RECURSIVE = 0x8000"
definition OPEN_TREE_CLOEXEC :: u32 where "OPEN_TREE_CLOEXEC = 0x80000"
definition MNT_DETACH :: int where "MNT_DETACH = 2"

definition MS_BIND :: u64 where "MS_BIND = 4096"
definition MS_REC :: u64 where "MS_REC = 16384"
definition MS_SILENT :: u64 where "MS_SILENT = 32768"
definition MS_PRIVATE :: u64 where "MS_PRIVATE = 0x40000"

definition MOUNT_ATTR_RDONLY :: u64 where "MOUNT_ATTR_RDONLY = 1"
definition MOUNT_ATTR_NOSUID :: u64 where "MOUNT_ATTR_NOSUID = 2"
definition MOUNT_ATTR_NODEV :: u64 where "MOUNT_ATTR_NODEV = 4"
definition MOUNT_ATTR_NOEXEC :: u64 where "MOUNT_ATTR_NOEXEC = 8"

lemmas ms_flag_defs = MS_BIND_def MS_REC_def MS_SILENT_def MS_PRIVATE_def
lemmas mount_attr_defs = MOUNT_ATTR_RDONLY_def MOUNT_ATTR_NOSUID_def MOUNT_ATTR_NODEV_def
  MOUNT_ATTR_NOEXEC_def

section \<open>System calls\<close>

definition open_tree :: "int \<Rightarrow> string \<Rightarrow> u32 \<Rightarrow> int io" where
  "open_tree dfd path flags =
     try_io (Ret (cstring_new path)) (\<lambda>c_path.
     try_io (sys_res (Mnt (OpenTree dfd c_path flags))) (\<lambda>r.
     ok (rc r)))"

definition move_mount :: "int \<Rightarrow> string \<Rightarrow> int \<Rightarrow> string \<Rightarrow> u32 \<Rightarrow> unit io" where
  "move_mount from_dfd from_path to_dfd to_path flags =
     try_io (Ret (cstring_new from_path)) (\<lambda>c_from.
     try_io (Ret (cstring_new to_path)) (\<lambda>c_to.
     sys_unit (Mnt (MoveMount from_dfd c_from to_dfd c_to flags))))"

definition mount_setattr :: "int \<Rightarrow> string \<Rightarrow> u32 \<Rightarrow> mount_attr \<Rightarrow> unit io" where
  "mount_setattr dfd path flags attr =
     try_io (Ret (cstring_new path)) (\<lambda>c_path.
     sys_unit (Mnt (MountSetattr dfd c_path flags attr)))"

definition unpack :: "string option \<Rightarrow> string" where
  "unpack d =
     (case d of
        None \<Rightarrow> []
      | Some s \<Rightarrow> (case cstring_new s of Inr cstr \<Rightarrow> cstr | Inl _ \<Rightarrow> []))"

definition move_mount_fd_to :: "int \<Rightarrow> string \<Rightarrow> unit io" where
  "move_mount_fd_to fd target = move_mount fd [] AT_FDCWD target MOVE_MOUNT_F_EMPTY_PATH"

definition mount_setattr_fd :: "int \<Rightarrow> bool \<Rightarrow> mount_attr \<Rightarrow> unit io" where
  "mount_setattr_fd fd recursive attr =
     mount_setattr fd []
       (if recursive then AT_EMPTY_PATH OR AT_RECURSIVE else AT_EMPTY_PATH) attr"

section \<open>Mountable\<close>

definition zeroed_attr :: mount_attr where
  "zeroed_attr = \<lparr>attr_set = 0, attr_clr = 0, propagation = 0, userns_fd = 0\<rparr>"

definition seal :: "MountSpec \<Rightarrow> unit io" where
  "seal ms =
     try_io (case ms_source ms of None \<Rightarrow> fail (Msg ''source missing'') | Some s \<Rightarrow> ok s) (\<lambda>src.
     try_io (open_tree AT_FDCWD src OPEN_TREE_CLOEXEC) (\<lambda>tree.
     mount_setattr_fd tree False
       (zeroed_attr\<lparr>attr_set := attr_set zeroed_attr OR MOUNT_ATTR_RDONLY\<rparr>)))"

text \<open>The target is created as a file exactly for a bind mount whose source can be looked at
  and is not a directory.\<close>

definition source_is_file :: "MountSpec \<Rightarrow> bool io" where
  "source_is_file ms =
     (if ms_bind ms then
        case ms_source ms of
          None \<Rightarrow> ok False
        | Some s \<Rightarrow> try_io (sys (Fs (Metadata s))) (\<lambda>r. ok (\<not> failed r \<and> \<not> is_dir r))
      else ok False)"

definition create_target :: "MountSpec \<Rightarrow> unit io" where
  "create_target ms =
     try_io (source_is_file ms) (\<lambda>is_file.
     if is_file then
       try_io (case path_parent (ms_target ms) of
                 None \<Rightarrow> ok ()
               | Some parent \<Rightarrow> sys_unit (Fs (CreateDirAll parent))) (\<lambda>_.
       sys_unit (Fs (CreateFile (ms_target ms))))
     else sys_unit (Fs (CreateDirAll (ms_target ms))))"

definition mount_flags :: "MountSpec \<Rightarrow> u64" where
  "mount_flags ms =
     (let flags = MS_SILENT;
          flags = (if ms_bind ms then flags OR MS_BIND else flags);
          flags = (if ms_unshare ms then flags OR MS_PRIVATE else flags);
          flags = (if ms_recurse ms then flags OR MS_REC else flags)
      in flags)"

definition mount_attrs :: "MountSpec \<Rightarrow> u64" where
  "mount_attrs ms =
     (let set = 0;
          set = (if ms_safe ms then set OR MOUNT_ATTR_NOSUID OR MOUNT_ATTR_NODEV OR MOUNT_ATTR_NOEXEC
                 else set);
          set = (if ms_read_only ms then set OR MOUNT_ATTR_RDONLY else set)
      in set)"

definition mount_data :: "MountSpec \<Rightarrow> string option result" where
  "mount_data ms =
     (case ms_data ms of
        None \<Rightarrow> Inr None
      | Some d \<Rightarrow>
          (case cstring_new d of
             Inl e \<Rightarrow> Inl (Context (''mount data '' @ [CHR 0x27] @ d @ [CHR 0x27] @ '' for '' @ ms_target ms @
                        '' contains an interior NUL byte: '') e)
           | Inr c \<Rightarrow> Inr (Some c)))"

text \<open>The two calls at the end of \<open>mount\<close>, and the whole of it.\<close>

definition do_mount :: "MountSpec \<Rightarrow> string \<Rightarrow> unit io" where
  "do_mount ms target =
     (let source_p = (if ms_source ms = None then None else Some (unpack (ms_source ms)));
          fstype_p = (if ms_fstype ms = None \<or> ms_bind ms then None
                      else Some (unpack (ms_fstype ms)))
      in try_io (Ret (mount_data ms)) (\<lambda>data.
         try_io (sys (Mnt (MountSys source_p target fstype_p (mount_flags ms) data))) (\<lambda>r.
         if failed r then fail (Context ''unable to mount: '' (OsError (errno r)))
         else if mount_attrs ms \<noteq> 0 then
           mount_setattr AT_FDCWD (ms_target ms) (if ms_recurse ms then AT_RECURSIVE else 0)
             (zeroed_attr\<lparr>attr_set := mount_attrs ms\<rparr>)
         else ok ())))"

definition mount :: "MountSpec \<Rightarrow> unit io" where
  "mount ms =
     try_io (Ret (cstring_new (ms_target ms))) (\<lambda>target.
     try_io (if ms_create_mountpoint ms then create_target ms else ok ()) (\<lambda>_.
     do_mount ms target))"

definition pivot :: "MountSpec \<Rightarrow> unit io" where
  "pivot ms =
     try_io (sys_unit (Fs (SetCurrentDir (ms_target ms)))) (\<lambda>_.
     try_io (map_err (Context ''failed to pivot_root: '')
       (sys_unit (Mnt (PivotRoot ''.'' ''.'')))) (\<lambda>_.
     try_io (map_err (Context ''failed to unmount old root: '')
       (sys_unit (Mnt (Umount2 ''.'' MNT_DETACH)))) (\<lambda>_.
     sys_unit (Fs (SetCurrentDir ''/'')))))"

section \<open>Container paths\<close>

definition trim_end_slash :: "string \<Rightarrow> string" where
  "trim_end_slash s = rev (dropWhile (\<lambda>c. c = CHR ''/'') (rev s))"

definition trim_start_slash :: "string \<Rightarrow> string" where
  "trim_start_slash s = dropWhile (\<lambda>c. c = CHR ''/'') s"

definition join_rootfs :: "string \<Rightarrow> string \<Rightarrow> string" where
  "join_rootfs rootfs path = trim_end_slash rootfs @ ''/'' @ trim_start_slash path"

text \<open>The mounts that hide a directory and a file.\<close>

definition tmpfs_mask :: "string \<Rightarrow> MountSpec" where
  "tmpfs_mask target = \<lparr>ms_source = Some ''tmpfs'', ms_target = target, ms_fstype = Some ''tmpfs'',
     ms_bind = False, ms_recurse = False, ms_unshare = False, ms_safe = True,
     ms_create_mountpoint = False, ms_read_only = True, ms_data = Some ''size=0k''\<rparr>"

definition null_mask :: "string \<Rightarrow> MountSpec" where
  "null_mask target = \<lparr>ms_source = Some ''/dev/null'', ms_target = target, ms_fstype = None,
     ms_bind = True, ms_recurse = False, ms_unshare = False, ms_safe = False,
     ms_create_mountpoint = False, ms_read_only = False, ms_data = None\<rparr>"

definition mask_path :: "string \<Rightarrow> string \<Rightarrow> unit io" where
  "mask_path rootfs path =
     (let target = join_rootfs rootfs path in
      try_io (sys (Fs (SymlinkMetadata target))) (\<lambda>meta.
      if failed meta then
        (if errno meta = ENOENT then ok ()
         else fail (Context (''stat '' @ target @ '': '') (OsError (errno meta))))
      else mount (if is_dir meta then tmpfs_mask target else null_mask target)))"

definition readonly_bind :: "string \<Rightarrow> MountSpec" where
  "readonly_bind target = \<lparr>ms_source = Some target, ms_target = target, ms_fstype = Some ''none'',
     ms_bind = True, ms_recurse = True, ms_unshare = False, ms_safe = False,
     ms_create_mountpoint = False, ms_read_only = True, ms_data = None\<rparr>"

definition make_readonly :: "string \<Rightarrow> string \<Rightarrow> unit io" where
  "make_readonly rootfs path =
     (let target = join_rootfs rootfs path in
      try_io (sys (Fs (SymlinkMetadata target))) (\<lambda>meta.
      if failed meta then
        (if errno meta = ENOENT then ok ()
         else fail (Context (''stat '' @ target @ '': '') (OsError (errno meta))))
      else mount (readonly_bind target)))"

section \<open>What a mount can call\<close>

text \<open>\<open>mount\<close> looks at the source, creates the target, mounts and sets attributes; each of its
  calls is about its own target or source.\<close>

definition is_mkdir :: "syscall \<Rightarrow> bool" where
  "is_mkdir s = (case s of Fs (Metadata p) \<Rightarrow> True | Fs (CreateDirAll p) \<Rightarrow> True
     | Fs (CreateFile p) \<Rightarrow> True | _ \<Rightarrow> False)"

definition is_mount :: "syscall \<Rightarrow> bool" where
  "is_mount s = (case s of Mnt (MountSys src t f fl d) \<Rightarrow> True | Mnt (MountSetattr d p fl a) \<Rightarrow> True | _ \<Rightarrow> False)"

lemma is_mkdir_simps [simp]:
  "is_mkdir (Fs (Metadata p))" "is_mkdir (Fs (CreateDirAll p))" "is_mkdir (Fs (CreateFile p))"
  "\<not> is_mkdir (Mnt m)" "\<not> is_mkdir (Fs (WriteFile p v))" "\<not> is_mkdir (Fs (SetCurrentDir p))"
  "\<not> is_mkdir (Fs (SymlinkMetadata p))" "\<not> is_mkdir (Ns n)" "\<not> is_mkdir (Proc c)"
  "\<not> is_mkdir (Cred d)" "\<not> is_mkdir (Sys e)"
  by (simp_all add: is_mkdir_def)

lemma is_mount_simps [simp]:
  "is_mount (Mnt (MountSys src t f fl d))" "is_mount (Mnt (MountSetattr dfd p fl2 a))"
  "\<not> is_mount (Mnt (OpenTree dfd p fl2))" "\<not> is_mount (Mnt (PivotRoot p q))"
  "\<not> is_mount (Mnt (Umount2 p i))" "\<not> is_mount (Fs x)" "\<not> is_mount (Ns n)" "\<not> is_mount (Proc c)"
  "\<not> is_mount (Cred cr)" "\<not> is_mount (Sys e)"
  by (simp_all add: is_mount_def)

lemma only_calls_create_target: "only_calls is_mkdir (create_target ms)"
  by (auto simp: create_target_def source_is_file_def split: option.splits intro!: only_calls_try)

lemma only_calls_mount_setattr: "only_calls is_mount (mount_setattr dfd p fl a)"
  by (auto simp: mount_setattr_def intro!: only_calls_try)

lemma only_calls_mount: "only_calls (\<lambda>s. is_mkdir s \<or> is_mount s) (mount ms)"
  unfolding mount_def do_mount_def Let_def
  by (intro only_calls_try)
    (auto intro!: only_calls_try only_calls_mono [OF only_calls_create_target]
      only_calls_mono [OF only_calls_mount_setattr])

section \<open>Properties\<close>

lemma bit_ms_flags:
  "bit MS_BIND n \<longleftrightarrow> n = 12" "bit MS_REC n \<longleftrightarrow> n = 14" "bit MS_SILENT n \<longleftrightarrow> n = 15"
  "bit MS_PRIVATE n \<longleftrightarrow> n = 18"
  by (rule bit_flag_word; simp add: ms_flag_defs)+

lemma bit_mount_attrs:
  "bit MOUNT_ATTR_RDONLY n \<longleftrightarrow> n = 0" "bit MOUNT_ATTR_NOSUID n \<longleftrightarrow> n = 1"
  "bit MOUNT_ATTR_NODEV n \<longleftrightarrow> n = 2" "bit MOUNT_ATTR_NOEXEC n \<longleftrightarrow> n = 3"
  by (rule bit_flag_word; simp add: mount_attr_defs)+

lemma mount_attrs_zero: "mount_attrs ms = 0 \<longleftrightarrow> \<not> ms_safe ms \<and> \<not> ms_read_only ms"
  by (simp add: mount_attrs_def mount_attr_defs Let_def)

text \<open>The flag word of \<open>mount(2)\<close> always has \<open>MS_SILENT\<close> and has \<open>MS_BIND\<close>, \<open>MS_PRIVATE\<close> and
  \<open>MS_REC\<close> exactly where the specification asks for bind, unshare and recurse, and no other bit
  (so never \<open>MS_RDONLY\<close> or \<open>MS_NOSUID\<close>, which are set as attributes afterwards). The attribute
  word has read-only exactly for a read-only mount and nosuid, nodev and noexec exactly together
  and for a safe mount.\<close>

theorem mount_words:
  "(bit (mount_flags ms) n \<longleftrightarrow>
     n = 15 \<or> (n = 12 \<and> ms_bind ms) \<or> (n = 18 \<and> ms_unshare ms) \<or> (n = 14 \<and> ms_recurse ms)) \<and>
   (bit (mount_attrs ms) n \<longleftrightarrow> (n = 0 \<and> ms_read_only ms) \<or> (n \<in> {1, 2, 3} \<and> ms_safe ms))"
  by (auto simp: mount_flags_def mount_attrs_def Let_def bit_or_iff bit_ms_flags bit_mount_attrs)

text \<open>
  What a successful mount has done, as a predicate on its trace, in terms of the specification alone.
  The target is made exactly where the specification asks for it: a bind mount looks at its source,
  and if that is there and no directory an empty file is created, in a directory created for it;
  anything else gets a directory. Every creating call has succeeded.
\<close>

definition target_made :: "MountSpec \<Rightarrow> event list \<Rightarrow> bool" where
  "target_made ms tr \<longleftrightarrow>
     (if \<not> ms_create_mountpoint ms then tr = []
      else \<exists>look make is_file. tr = look @ make \<and> list_all event_ok make \<and>
        (case ms_source ms of
           Some s \<Rightarrow> if ms_bind ms then \<exists>r. look = [(Fs (Metadata s), Some r)] \<and> (is_file \<longleftrightarrow> \<not> failed r \<and> \<not> is_dir r)
             else look = [] \<and> \<not> is_file
         | None \<Rightarrow> look = [] \<and> \<not> is_file) \<and>
        calls make =
          (if is_file then
             (case path_parent (ms_target ms) of None \<Rightarrow> [] | Some parent \<Rightarrow> [Fs (CreateDirAll parent)]) @
             [Fs (CreateFile (ms_target ms))]
           else [Fs (CreateDirAll (ms_target ms))]))"

text \<open>The words by their bits: 12 is \<open>MS_BIND\<close>, 14 \<open>MS_REC\<close>, 15 \<open>MS_SILENT\<close>, 18 \<open>MS_PRIVATE\<close>; 0 to 3 are
  the attributes read-only, nosuid, nodev, noexec. A text with a NUL byte is passed as an empty one.\<close>

definition flag_word :: "MountSpec \<Rightarrow> u64 \<Rightarrow> bool" where
  "flag_word ms flags \<longleftrightarrow> (\<forall>n. bit flags n \<longleftrightarrow>
     n = 15 \<or> (n = 12 \<and> ms_bind ms) \<or> (n = 18 \<and> ms_unshare ms) \<or> (n = 14 \<and> ms_recurse ms))"

definition attr_word :: "MountSpec \<Rightarrow> u64 \<Rightarrow> bool" where
  "attr_word ms attrs \<longleftrightarrow> (\<forall>n. bit attrs n \<longleftrightarrow> (n = 0 \<and> ms_read_only ms) \<or> (n \<in> {1, 2, 3} \<and> ms_safe ms))"

definition c_text :: "string \<Rightarrow> string" where
  "c_text s = (if CHR 0x00 \<in> set s then [] else s)"

definition mounted :: "MountSpec \<Rightarrow> event list \<Rightarrow> bool" where
  "mounted ms tr \<longleftrightarrow>
     (\<exists>pre r0 r1 flags attrs.
        tr = pre @ (Mnt (MountSys (map_option c_text (ms_source ms)) (ms_target ms)
               (if ms_bind ms then None else map_option c_text (ms_fstype ms)) flags (ms_data ms)), Some r0) #
             (if ms_safe ms \<or> ms_read_only ms then
                [(Mnt (MountSetattr AT_FDCWD (ms_target ms) (if ms_recurse ms then AT_RECURSIVE else 0)
                    \<lparr>attr_set = attrs, attr_clr = 0, propagation = 0, userns_fd = 0\<rparr>), Some r1)]
              else []) \<and>
        target_made ms pre \<and> flag_word ms flags \<and> attr_word ms attrs \<and> \<not> failed r0 \<and> \<not> failed r1 \<and>
        list_all (\<lambda>t. CHR 0x00 \<notin> set t) (ms_target ms # (case ms_data ms of None \<Rightarrow> [] | Some d \<Rightarrow> [d])))"

lemma succeeds_create_target:
  assumes "ms_create_mountpoint ms" and "succeeds K w (create_target ms) tr u w'"
  shows "target_made ms tr"
proof -
  from assms(2) obtain look is_file w1 make where
    1: "succeeds K w (source_is_file ms) look is_file w1" and tr: "tr = look @ make"
    and 2: "succeeds K w1 (if is_file then
       try_io (case path_parent (ms_target ms) of
                 None \<Rightarrow> ok ()
               | Some parent \<Rightarrow> sys_unit (Fs (CreateDirAll parent))) (\<lambda>_.
       sys_unit (Fs (CreateFile (ms_target ms))))
     else sys_unit (Fs (CreateDirAll (ms_target ms)))) make u w'"
    unfolding create_target_def by (rule succeeds_try_E)
  from 2 have made: "list_all event_ok make \<and> calls make =
      (if is_file then (case path_parent (ms_target ms) of None \<Rightarrow> [] | Some parent \<Rightarrow> [Fs (CreateDirAll parent)]) @
         [Fs (CreateFile (ms_target ms))]
       else [Fs (CreateDirAll (ms_target ms))])"
    by (auto simp: succeeds_try split: if_splits option.splits)
  from 1 have "case ms_source ms of
      Some s \<Rightarrow> if ms_bind ms then \<exists>r. look = [(Fs (Metadata s), Some r)] \<and> (is_file \<longleftrightarrow> \<not> failed r \<and> \<not> is_dir r)
        else look = [] \<and> \<not> is_file
    | None \<Rightarrow> look = [] \<and> \<not> is_file"
    by (auto simp: source_is_file_def succeeds_try split: option.splits if_splits)
  with made tr assms(1) show ?thesis
    unfolding target_made_def by (simp only: not_True_eq_False if_False) blast
qed

lemma unpack_c_text [simp]: "unpack (Some s) = c_text s"
  by (simp add: unpack_def cstring_new_def c_text_def)

lemma mount_data_Inr: "mount_data ms = Inr data \<longleftrightarrow> data = ms_data ms \<and>
    list_all (\<lambda>t. CHR 0x00 \<notin> set t) (case ms_data ms of None \<Rightarrow> [] | Some d \<Rightarrow> [d])"
  by (auto simp: mount_data_def cstring_new_def split: option.splits)

lemma succeeds_do_mount:
  assumes "succeeds K w (do_mount ms (ms_target ms)) tr u w'" and "target_made ms pre"
    and "CHR 0x00 \<notin> set (ms_target ms)"
  shows "mounted ms (pre @ tr)"
proof -
  have words: "flag_word ms (mount_flags ms)" "attr_word ms (mount_attrs ms)"
    using mount_words [of ms] by (auto simp: flag_word_def attr_word_def)
  have src: "(if ms_source ms = None then None else Some (unpack (ms_source ms))) = map_option c_text (ms_source ms)"
    "(if ms_fstype ms = None \<or> ms_bind ms then None else Some (unpack (ms_fstype ms))) =
      (if ms_bind ms then None else map_option c_text (ms_fstype ms))"
    by (cases "ms_source ms"; cases "ms_fstype ms"; simp)+
  have ok0: "\<not> failed reply0" by (simp add: reply0_def)
  from assms(1) obtain r0 tl where tr: "tr = (Mnt (MountSys (map_option c_text (ms_source ms)) (ms_target ms)
        (if ms_bind ms then None else map_option c_text (ms_fstype ms)) (mount_flags ms) (ms_data ms)), Some r0) # tl"
    and r0: "\<not> failed r0" and d: "list_all (\<lambda>t. CHR 0x00 \<notin> set t) (case ms_data ms of None \<Rightarrow> [] | Some d \<Rightarrow> [d])"
    and tl: "if mount_attrs ms = 0 then tl = [] else
      \<exists>r1. \<not> failed r1 \<and> tl = [(Mnt (MountSetattr AT_FDCWD (ms_target ms) (if ms_recurse ms then AT_RECURSIVE else 0)
        \<lparr>attr_set = mount_attrs ms, attr_clr = 0, propagation = 0, userns_fd = 0\<rparr>), Some r1)]"
    by (auto simp: do_mount_def Let_def src succeeds_try mount_data_Inr mount_setattr_def zeroed_attr_def
        split: if_splits)
  from tl obtain r1 where "\<not> failed r1" "tl = (if ms_safe ms \<or> ms_read_only ms then
      [(Mnt (MountSetattr AT_FDCWD (ms_target ms) (if ms_recurse ms then AT_RECURSIVE else 0)
        \<lparr>attr_set = mount_attrs ms, attr_clr = 0, propagation = 0, userns_fd = 0\<rparr>), Some r1)] else [])"
    using ok0 by (auto simp: mount_attrs_zero split: if_splits)
  with tr r0 d assms(2,3) words show ?thesis
    unfolding mounted_def
    by (intro exI [of _ pre] exI [of _ r0] exI [of _ r1] exI [of _ "mount_flags ms"] exI [of _ "mount_attrs ms"]) simp
qed

lemma succeeds_mount:
  assumes "succeeds K w (mount ms) tr u w'"
  shows "mounted ms tr"
proof -
  from assms obtain w1 t1 t2 where nul: "CHR 0x00 \<notin> set (ms_target ms)"
    and 1: "succeeds K w (if ms_create_mountpoint ms then create_target ms else ok ()) t1 () w1"
    and 2: "succeeds K w1 (do_mount ms (ms_target ms)) t2 u w'" and tr: "tr = t1 @ t2"
    unfolding mount_def by (auto simp: succeeds_try)
  have "target_made ms t1"
  proof (cases "ms_create_mountpoint ms")
    case True
    with 1 show ?thesis using succeeds_create_target [OF True] by simp
  next
    case False
    with 1 show ?thesis by (simp add: target_made_def)
  qed
  from succeeds_do_mount [OF 2 this nul] tr show ?thesis by simp
qed


text \<open>A file bound, read-only and with all below it, to a target that is created for it.\<close>

definition conf_mount :: MountSpec where
  "conf_mount = \<lparr>ms_source = Some ''/etc/a'', ms_target = ''/r/b/a'', ms_fstype = None, ms_bind = True,
     ms_recurse = True, ms_unshare = False, ms_safe = False, ms_create_mountpoint = True, ms_read_only = True,
     ms_data = None\<rparr>"


subsection \<open>Masked and read-only paths\<close>

text \<open>What a successful hardening of one path has done: nothing for a target that is reported as
  missing, else the mount that \<open>mk\<close> chooses from the target and whether it is a directory.\<close>

definition hardened :: "(string \<Rightarrow> bool \<Rightarrow> MountSpec) \<Rightarrow> string \<Rightarrow> event list \<Rightarrow> bool" where
  "hardened mk target tr \<longleftrightarrow>
     (\<exists>r rest. tr = (Fs (SymlinkMetadata target), Some r) # rest \<and>
        (if failed r then errno r = ENOENT \<and> rest = [] else mounted (mk target (is_dir r)) rest))"

lemma succeeds_harden:
  assumes "succeeds K w (try_io (sys (Fs (SymlinkMetadata target))) (\<lambda>meta.
      if failed meta then (if errno meta = ENOENT then ok () else fail (e meta))
      else mount (mk target (is_dir meta)))) tr u w'"
  shows "hardened mk target tr"
  using assms by (auto simp: hardened_def succeeds_try split: if_splits intro: succeeds_mount)

lemma succeeds_mask:
  "succeeds K w (mask_path rootfs p) tr u w' \<Longrightarrow>
     hardened (\<lambda>target dir. if dir then tmpfs_mask target else null_mask target) (join_rootfs rootfs p) tr"
  unfolding mask_path_def Let_def
  by (rule succeeds_harden [where mk = "\<lambda>target dir. if dir then tmpfs_mask target else null_mask target"])

lemma succeeds_readonly:
  "succeeds K w (make_readonly rootfs p) tr u w' \<Longrightarrow>
     hardened (\<lambda>target _. readonly_bind target) (join_rootfs rootfs p) tr"
  unfolding make_readonly_def Let_def
  by (rule succeeds_harden [where mk = "\<lambda>target _. readonly_bind target"])

text \<open>C26. Masking a path that succeeds has looked at the target below the root file system
  (without following a link) and then: done nothing if the target does not exist; covered a
  directory by an empty read-only, nosuid, nodev, noexec tmpfs; bound \<open>/dev/null\<close>, without nodev
  and writable, over anything else.\<close>

theorem mask_path_covers:
  assumes "outcome_of K w (mask_path rootfs path) = Done (Inr ())"
  shows "hardened (\<lambda>target dir. if dir then tmpfs_mask target else null_mask target)
    (join_rootfs rootfs path) (trace K w (mask_path rootfs path))"
  using assms by (auto simp: outcome_succeeds intro: succeeds_mask)

theorem mask_path_covers_witness:
  "\<exists>r rest. trace (scripted (\<lambda>_. False) (\<lambda>_. reply0)) () (mask_path ''/r/'' ''/proc/kcore'') =
      (Fs (SymlinkMetadata ''/r/proc/kcore''), Some r) # rest \<and>
      mounted (null_mask ''/r/proc/kcore'') rest"
proof -
  have t: "join_rootfs ''/r/'' ''/proc/kcore'' = ''/r/proc/kcore''" by code_simp
  have "mount_attrs (null_mask p) = 0" for p by (simp add: mount_attrs_zero null_mask_def)
  then have "outcome_of (scripted (\<lambda>_. False) (\<lambda>_. reply0)) () (mask_path ''/r/'' ''/proc/kcore'') = Done (Inr ())"
    by (simp add: mask_path_def t mount_def do_mount_def null_mask_def mount_data_def cstring_new_def
        sys_def scripted_def reply0_def Let_def)
  from mask_path_covers [OF this] show ?thesis
    by (auto simp: hardened_def t scripted_def mask_path_def sys_def reply0_def Let_def)
qed

text \<open>Making a path read-only that succeeds has done nothing to a missing target, and has
  bound any other target onto itself, with everything mounted below it, and made the whole tree
  read-only.\<close>

theorem make_readonly_binds:
  assumes "outcome_of K w (make_readonly rootfs path) = Done (Inr ())"
  shows "hardened (\<lambda>target _. readonly_bind target) (join_rootfs rootfs path)
      (trace K w (make_readonly rootfs path)) \<and>
    AT_RECURSIVE \<noteq> 0 \<and> ms_recurse (readonly_bind (join_rootfs rootfs path)) \<and>
    mount_attrs (readonly_bind (join_rootfs rootfs path)) = MOUNT_ATTR_RDONLY"
  using assms by (auto simp: outcome_succeeds AT_RECURSIVE_def readonly_bind_def mount_attrs_def
      intro: succeeds_readonly [unfolded readonly_bind_def])

theorem make_readonly_binds_witness:
  "\<exists>r rest. trace (scripted (\<lambda>_. False) (\<lambda>_. reply0)) () (make_readonly ''/r'' ''proc/sys'') =
      (Fs (SymlinkMetadata ''/r/proc/sys''), Some r) # rest \<and>
      mounted (readonly_bind ''/r/proc/sys'') rest"
proof -
  have t: "join_rootfs ''/r'' ''proc/sys'' = ''/r/proc/sys''" by code_simp
  have "mount_attrs (readonly_bind p) \<noteq> 0" for p by (simp add: mount_attrs_zero readonly_bind_def)
  then have "outcome_of (scripted (\<lambda>_. False) (\<lambda>_. reply0)) () (make_readonly ''/r'' ''proc/sys'') = Done (Inr ())"
    by (simp add: make_readonly_def t mount_def do_mount_def readonly_bind_def mount_data_def cstring_new_def
        mount_setattr_def sys_def sys_unit_def scripted_def reply0_def Let_def)
  from make_readonly_binds [OF this] show ?thesis
    by (auto simp: hardened_def t scripted_def make_readonly_def sys_def reply0_def Let_def)
qed

subsection \<open>Where container paths go\<close>

definition components :: "string \<Rightarrow> string list" where
  "components p = filter (\<lambda>c. c \<noteq> []) (split_char (CHR ''/'') p)"

lemma split_char_append_char:
  "split_char c (x @ c # rest) = split_char c x @ split_char c rest"
  by (induction x) (auto split: list.splits)

lemma components_append: "components (a @ CHR ''/'' # b) = components a @ components b"
  by (simp add: components_def split_char_append_char)

lemma components_Cons_slash [simp]: "components (CHR ''/'' # p) = components p"
  by (simp add: components_def)

lemma components_trim_start [simp]: "components (trim_start_slash p) = components p"
  by (induction p) (auto simp: trim_start_slash_def)

lemma components_trim_end [simp]: "components (trim_end_slash p) = components p"
proof (induction p rule: rev_induct)
  case (snoc c p)
  have "components (p @ [CHR ''/'']) = components p"
    using components_append [of p "[]"] by (simp add: components_def)
  with snoc show ?case by (auto simp: trim_end_slash_def)
qed (simp add: trim_end_slash_def)

text \<open>A container path is placed below the root file system: the components of the joined
  path are those of the root followed by those of the path, however the two are separated, so
  two spellings of a path that differ only in slashes give the same target. (Components \<open>..\<close> are
  kept: a path with them can still point outside.)\<close>

theorem join_rootfs_components:
  "components (join_rootfs rootfs path) = components rootfs @ components path \<and>
   join_rootfs (rootfs @ replicate m (CHR ''/'')) (replicate n (CHR ''/'') @ path) = join_rootfs rootfs path"
proof
  show "components (join_rootfs rootfs path) = components rootfs @ components path"
    by (simp add: join_rootfs_def components_append)
  have "dropWhile (\<lambda>c. c = CHR ''/'') (replicate n (CHR ''/'') @ xs) = dropWhile (\<lambda>c. c = CHR ''/'') xs" for n xs
    by (induction n) auto
  then show "join_rootfs (rootfs @ replicate m (CHR ''/'')) (replicate n (CHR ''/'') @ path) = join_rootfs rootfs path"
    by (simp add: join_rootfs_def trim_end_slash_def trim_start_slash_def rev_replicate)
qed

subsection \<open>Pivoting\<close>

text \<open>Pivoting makes its four calls in order: enter the new root, \<open>pivot_root(".", ".")\<close>,
  detach the old root, and enter \<open>/\<close>. It stops at the first that fails, so the old root is never
  unmounted before the pivot, and success means that all four succeeded.\<close>

theorem pivot_calls:
  "let tr = trace K w (pivot ms);
       plan = [Fs (SetCurrentDir (ms_target ms)), Mnt (PivotRoot ''.'' ''.''),
               Mnt (Umount2 ''.'' MNT_DETACH), Fs (SetCurrentDir ''/'')]
   in prefix (calls tr) plan \<and>
      list_all (\<lambda>e. \<exists>r. snd e = Some r \<and> \<not> failed r) (butlast tr) \<and>
      (outcome_of K w (pivot ms) = Done (Inr ()) \<longleftrightarrow>
         length tr = 4 \<and> list_all (\<lambda>e. \<exists>r. snd e = Some r \<and> \<not> failed r) tr)"
  unfolding Let_def
  by (rule run_wp_post [where G = "\<lambda>_ _. True"]) (auto simp: pivot_def sys_unit_def calls_def)

end
