(* ===== verification/CGroups.thy ===== *)
theory CGroups
  imports Effects
begin

text \<open>
  \<open>src/cgroup.rs\<close>: a walker of the cgroup2 tree. \<open>to_str\<close> fails only on paths that are not
  UTF-8; every path here is built from \<open>String\<close>s, so that branch cannot be taken and is not a
  branch of the model. The lemmas give the paths that are written in terms of the walker's root.
\<close>

record CGroup =
  root :: string

definition CGroup_open :: "string \<Rightarrow> CGroup io" where
  "CGroup_open cgroot =
     try_io (Ret (cstring_new cgroot)) (\<lambda>path.
     try_io (sys (Sys (Faccessat path))) (\<lambda>r.
     if rc r \<noteq> 0 then fail (OsError (errno r)) else ok \<lparr>root = cgroot\<rparr>))"

definition open_child :: "CGroup \<Rightarrow> string \<Rightarrow> CGroup io" where
  "open_child cg child = CGroup_open (path_push (root cg) child)"

definition create_child :: "CGroup \<Rightarrow> string \<Rightarrow> CGroup io" where
  "create_child cg child =
     (let finalpath = path_push (root cg) child in
      try_io (sys_unit (Fs (CreateDirAll finalpath))) (\<lambda>_.
      CGroup_open finalpath))"

definition set_child_value :: "CGroup \<Rightarrow> string \<Rightarrow> string \<Rightarrow> unit io" where
  "set_child_value cg child value =
     sys_unit (Fs (WriteFile (path_push (root cg) child) value))"

lemma CGroup_open_wp [wp_simps]:
  "wp G Q (CGroup_open p) h =
     (if CHR 0x00 \<in> set p then Q h (Done (Inl NulError))
      else G h (Sys (Faccessat p)) \<and> Q (h @ [(Sys (Faccessat p), None)]) Gone \<and>
        (\<forall>r. Q (h @ [(Sys (Faccessat p), Some r)])
           (Done (if rc r \<noteq> 0 then Inl (OsError (errno r)) else Inr \<lparr>root = p\<rparr>))))"
  by (auto simp: CGroup_open_def cstring_new_def sys_def)

lemma only_calls_CGroup_open:
  "P (Sys (Faccessat p)) \<Longrightarrow> only_calls P (CGroup_open p)"
  by (auto simp: CGroup_open_def cstring_new_def sys_def)

lemma only_calls_create_child:
  "P (Fs (CreateDirAll (path_push (root cg) child))) \<Longrightarrow>
   P (Sys (Faccessat (path_push (root cg) child))) \<Longrightarrow> only_calls P (create_child cg child)"
  by (auto simp: create_child_def Let_def intro!: only_calls_try only_calls_CGroup_open)

lemma only_calls_set_child_value:
  "P (Fs (WriteFile (path_push (root cg) child) v)) \<Longrightarrow> only_calls P (set_child_value cg child v)"
  by (simp add: set_child_value_def)

text \<open>Creating a child of a cgroup and setting a value in it: on success the directory
  \<open>root/child\<close> was created first and found afterwards, and the value is written to
  \<open>root/child/key\<close> and nowhere else, provided that neither name is absolute; an absolute child
  name or key replaces the root instead.\<close>

theorem create_then_set:
  assumes "outcome_of K w (try_io (create_child cg child) (\<lambda>sub. set_child_value sub key v)) =
    Done (Inr ())"
  shows "let dir = path_push (root cg) child in
    calls (trace K w (try_io (create_child cg child) (\<lambda>sub. set_child_value sub key v))) =
      [Fs (CreateDirAll dir), Sys (Faccessat dir), Fs (WriteFile (path_push dir key) v)] \<and>
    (prefix (root cg) (path_push dir key) \<or> is_absolute child \<or> is_absolute key) \<and>
    (is_absolute key \<longrightarrow> path_push dir key = key)"
proof -
  let ?p = "try_io (create_child cg child) (\<lambda>sub. set_child_value sub key v)"
  let ?dir = "path_push (root cg) child"
  have "outcome_of K w ?p = Done (Inr ()) \<longrightarrow> calls (trace K w ?p) =
      [Fs (CreateDirAll ?dir), Sys (Faccessat ?dir), Fs (WriteFile (path_push ?dir key) v)]"
    by (rule run_wp_post [where G = "\<lambda>_ _. True"])
      (simp add: create_child_def Let_def wp_try wp_simps sys_unit_def set_child_value_def calls_def)
  moreover have "prefix (root cg) (path_push ?dir key)"
    if "\<not> is_absolute child" "\<not> is_absolute key"
    using path_push_relative_prefix [OF that(1)] path_push_relative_prefix [OF that(2)]
    by (meson prefix_order.trans)
  ultimately show ?thesis
    using assms path_push_absolute by (auto simp: Let_def)
qed

theorem create_then_set_witness:
  "calls (trace (scripted (\<lambda>_. False) (\<lambda>_. reply0)) ()
      (try_io (create_child \<lparr>root = ''/cg''\<rparr> ''a'') (\<lambda>sub. set_child_value sub ''/etc/x'' ''1''))) =
   [Fs (CreateDirAll ''/cg/a''), Sys (Faccessat ''/cg/a''), Fs (WriteFile ''/etc/x'' ''1'')]"
proof -
  have ok: "outcome_of (scripted (\<lambda>_. False) (\<lambda>_. reply0)) ()
      (try_io (create_child \<lparr>root = ''/cg''\<rparr> ''a'') (\<lambda>sub. set_child_value sub ''/etc/x'' ''1'')) =
    Done (Inr ())"
    by (simp add: create_child_def Let_def CGroup_open_def cstring_new_def sys_def sys_unit_def
        set_child_value_def scripted_def reply0_def path_push_def)
  show ?thesis
    using create_then_set [OF ok] by (simp add: Let_def path_push_def)
qed

end
