(* ===== verification/Signals.thy ===== *)
theory Signals
  imports Effects
begin

text \<open>
  \<open>src/signal.rs\<close>: the supervisor forwards six signals to its child. The handler reads the
  static \<open>CHILD_PID\<close>, which \<open>store_child_pid\<close> sets; \<open>Signal::try_from\<close> belongs to nix and is
  the parameter \<open>try_from\<close>. The lemmas show what the handler does in every state of
  \<open>CHILD_PID\<close>, and that resetting undoes exactly what setting up did.
\<close>

definition FORWARDED_SIGNALS :: "signal list" where
  "FORWARDED_SIGNALS = [SIGTERM, SIGINT, SIGQUIT, SIGHUP, SIGUSR1, SIGUSR2]"

definition forward_signal :: "(int \<Rightarrow> signal option) \<Rightarrow> int \<Rightarrow> int \<Rightarrow> unit prog" where
  "forward_signal try_from child_pid signum =
     (if child_pid \<le> 0 then Ret ()
      else (case try_from signum of
              None \<Rightarrow> Ret ()
            | Some sig \<Rightarrow> Call (Proc (Kill child_pid sig)) (\<lambda>_. Ret ())))"

definition set_signal :: "string \<Rightarrow> disposition \<Rightarrow> signal \<Rightarrow> unit io" where
  "set_signal msg d sig = map_err (Context msg) (sys_unit (Proc (SetSignal sig d)))"

definition setup_parent_signal_handlers :: "unit io" where
  "setup_parent_signal_handlers =
     for_io (set_signal ''Failed to set signal handler: '' ForwardSignal) FORWARDED_SIGNALS"

definition reset_child_signal_handlers :: "unit io" where
  "reset_child_signal_handlers =
     for_io (set_signal ''Failed to reset signal handler: '' SigDfl) FORWARDED_SIGNALS"

definition reset_sigpipe :: "unit io" where
  "reset_sigpipe = set_signal ''Failed to reset SIGPIPE handler: '' SigDfl SIGPIPE"

definition store_child_pid :: "int \<Rightarrow> unit io" where
  "store_child_pid pid = try_io (sys (Proc (StoreChildPid pid))) (\<lambda>_. ok ())"

section \<open>The signal state of a process\<close>

text \<open>What the calls of a process do to its signal dispositions and to \<open>CHILD_PID\<close>, which
  starts as 0.\<close>

record sig_state =
  disp :: "signal \<Rightarrow> disposition"
  child_pid :: int

fun sig_step :: "sig_state \<Rightarrow> event \<Rightarrow> sig_state" where
  "sig_step s (Proc (SetSignal sig d), Some r) =
     (if failed r then s else s\<lparr>disp := (disp s)(sig := d)\<rparr>)"
| "sig_step s (Proc (StoreChildPid pid), Some r) = s\<lparr>child_pid := pid\<rparr>"
| "sig_step s e = s"

definition sig_run :: "sig_state \<Rightarrow> event list \<Rightarrow> sig_state" where
  "sig_run s tr = foldl sig_step s tr"

lemma sig_run_simps [simp]: "sig_run s [] = s" "sig_run s (e # tr) = sig_run (sig_step s e) tr"
  by (simp_all add: sig_run_def)

text \<open>Setting the same disposition for a list of signals, one after another.\<close>

lemma set_signals_run:
  assumes "outcome_of K w (for_io (set_signal msg d) sigs) = Done (Inr ())"
  shows "sig_run s (trace K w (for_io (set_signal msg d) sigs)) =
    s\<lparr>disp := (\<lambda>sig. if sig \<in> set sigs then d else disp s sig)\<rparr>"
  using assms
proof (induction sigs arbitrary: s w)
  case (Cons sig sigs)
  have un: "set_signal msg d sig = Call (Proc (SetSignal sig d))
      (\<lambda>r. if failed r then fail (Context msg (OsError (errno r))) else ok ())"
    by (simp add: set_signal_def sys_unit_def) (rule ext, simp)
  obtain x w' where kw: "K w (Proc (SetSignal sig d)) = (x, w')" by (cases "K w (Proc (SetSignal sig d))")
  with Cons.prems obtain r where r: "x = Some r" "\<not> failed r"
    by (auto simp: un split: option.splits if_splits)
  with Cons.prems kw have "outcome_of K w' (for_io (set_signal msg d) sigs) = Done (Inr ())"
    by (simp add: un)
  from Cons.IH [OF this] kw r show ?case
    by (auto simp: un fun_eq_iff)
qed simp

section \<open>Properties\<close>

text \<open>The signal handler never signals process 0, a process group or every process (a
  non-positive pid): before a child is stored it does nothing at all; afterwards it sends
  exactly the trapped signal, once, to exactly the stored child, and nothing for a number that
  is no signal.\<close>

theorem forward_signal_target:
  "calls (trace K w (forward_signal try_from child signum)) =
     (if 0 < child \<and> try_from signum \<noteq> None then [Proc (Kill child (the (try_from signum)))] else [])"
  by (auto simp: forward_signal_def calls_def split: option.splits prod.splits)

text \<open>Resetting the child's handlers undoes what setting up the parent's did: after a
  successful setup each forwarded signal runs the forwarding handler and no other signal is
  touched; after a successful reset of the child every forwarded signal has its default action
  and the other signals are as they were before the setup; \<open>CHILD_PID\<close> is not touched.\<close>

theorem signal_reset_undoes_setup:
  assumes "outcome_of K w setup_parent_signal_handlers = Done (Inr ())"
    and "outcome_of K' w' reset_child_signal_handlers = Done (Inr ())"
  shows "let s1 = sig_run s0 (trace K w setup_parent_signal_handlers);
             s2 = sig_run s1 (trace K' w' reset_child_signal_handlers)
         in disp s1 = (\<lambda>sig. if sig \<in> set FORWARDED_SIGNALS then ForwardSignal else disp s0 sig) \<and>
            disp s2 = (\<lambda>sig. if sig \<in> set FORWARDED_SIGNALS then SigDfl else disp s0 sig) \<and>
            child_pid s1 = child_pid s0 \<and> child_pid s2 = child_pid s0"
  unfolding setup_parent_signal_handlers_def reset_child_signal_handlers_def
  by (simp add: Let_def fun_eq_iff
      set_signals_run [OF assms(1) [unfolded setup_parent_signal_handlers_def]]
      set_signals_run [OF assms(2) [unfolded reset_child_signal_handlers_def]])

theorem signal_reset_undoes_setup_witness:
  "disp (sig_run (sig_run \<lparr>disp = (\<lambda>_. SigIgn), child_pid = 0\<rparr>
       (trace (scripted (\<lambda>_. False) (\<lambda>_. reply0)) () setup_parent_signal_handlers))
       (trace (scripted (\<lambda>_. False) (\<lambda>_. reply0)) () reset_child_signal_handlers)) SIGTERM = SigDfl"
proof -
  have a: "outcome_of (scripted (\<lambda>_. False) (\<lambda>_. reply0)) () setup_parent_signal_handlers = Done (Inr ())"
    and b: "outcome_of (scripted (\<lambda>_. False) (\<lambda>_. reply0)) () reset_child_signal_handlers = Done (Inr ())"
    by (simp_all add: setup_parent_signal_handlers_def reset_child_signal_handlers_def
        FORWARDED_SIGNALS_def set_signal_def sys_unit_def scripted_def reply0_def)
  show ?thesis
    using signal_reset_undoes_setup [OF a b, of "\<lparr>disp = (\<lambda>_. SigIgn), child_pid = 0\<rparr>"]
    by (simp add: FORWARDED_SIGNALS_def Let_def)
qed

end
