(* ===== verification/Supervise.thy ===== *)
theory Supervise
  imports Config Signals
begin

text \<open>
  The supervising side of \<open>src/wrap.rs\<close>: \<open>reap_children\<close>, \<open>wait_for_pid\<close>, \<open>fork_and_wait\<close>,
  \<open>first_child_pid_of\<close> and \<open>render_uidgid_mappings\<close>. Reaping is a loop the kernel can keep going,
  so it takes fuel; \<open>reap_enough_fuel\<close> says how much is enough.
\<close>

section \<open>Waiting\<close>

fun reap_children :: "nat \<Rightarrow> unit io" where
  "reap_children 0 = OutOfFuel"
| "reap_children (Suc fuel) =
     try_io (sys (Proc (Waitpid AnyChild True))) (\<lambda>r.
     if failed r \<or> status r = StillAlive then ok () else reap_children fuel)"

definition exit_code :: "wait_status \<Rightarrow> int" where
  "exit_code s = (case s of Exited_status _ code \<Rightarrow> code | _ \<Rightarrow> 1)"

definition wait_for_pid :: "int \<Rightarrow> int io" where
  "wait_for_pid pid =
     try_io (sys_res (Proc (Waitpid (ChildPid pid) False))) (\<lambda>r. ok (exit_code (status r)))"

text \<open>\<open>if let Err(e) = m { warn; process::exit(1) }\<close>.\<close>

definition exit_on_err :: "unit io \<Rightarrow> unit io" where
  "exit_on_err m = bind m (\<lambda>x. case x of Inl e \<Rightarrow> Halt 1 | Inr _ \<Rightarrow> ok ())"

text \<open>\<open>fork\<close> returns 0 in the child and the child's pid in the parent; which of the two the run
  follows is the kernel's reply.\<close>

definition fork_and_wait :: "nat \<Rightarrow> unit io" where
  "fork_and_wait fuel =
     try_io (exit_on_err setup_parent_signal_handlers) (\<lambda>_.
     try_io (sys_res (Proc Fork)) (\<lambda>r.
     if rc r \<noteq> 0 then
       try_io (store_child_pid (rc r)) (\<lambda>_.
       try_io (wait_for_pid (rc r)) (\<lambda>exitcode.
       try_io (reap_children fuel) (\<lambda>_.
       Halt exitcode)))
     else exit_on_err reset_child_signal_handlers))"

section \<open>The process to attach to\<close>

definition ppid_needle :: "int \<Rightarrow> string" where
  "ppid_needle parent = ''PPid:'' @ [CHR 0x09] @ show_int parent"

definition starts_with_digit :: "string \<Rightarrow> bool" where
  "starts_with_digit s = (case s of [] \<Rightarrow> False | c # _ \<Rightarrow> is_digit c)"

text \<open>The entries of \<open>/proc\<close>; the error of an unreadable entry is that of the directory.\<close>

fun scan_proc :: "int \<Rightarrow> int \<Rightarrow> string option list \<Rightarrow> int io" where
  "scan_proc parent err [] =
     fail (Msg (''failed to find child PID of '' @ show_int parent))"
| "scan_proc parent err (None # es) = fail (OsError err)"
| "scan_proc parent err (Some name # es) =
     (if \<not> starts_with_digit name then scan_proc parent err es
      else
        try_io (sys (Fs (ReadToString (''/proc/'' @ name @ ''/status'')))) (\<lambda>r.
        if \<not> failed r \<and> ppid_needle parent \<in> set (lines_of (contents r)) \<and> parse_i32 name \<noteq> None
        then ok (the (parse_i32 name))
        else scan_proc parent err es))"

definition first_child_pid_of :: "int \<Rightarrow> int io" where
  "first_child_pid_of parent =
     try_io (sys (Fs (ReadToString
       (''/proc/'' @ show_int parent @ ''/task/'' @ show_int parent @ ''/children'')))) (\<lambda>r.
     case (if failed r then None else parse_i32 (hd (split_char (CHR '' '') (contents r)))) of
       Some v \<Rightarrow> ok v
     | None \<Rightarrow>
         try_io (sys_res (Fs (ReadDir ''/proc''))) (\<lambda>d.
         scan_proc parent (errno d) (entries d)))"

section \<open>Id maps\<close>

definition render_mapping :: "IdMapping \<Rightarrow> string" where
  "render_mapping m =
     show_nat (unat (base_nsid m)) @ '' '' @ show_nat (unat (base_hostid m)) @ '' ''
     @ show_nat (unat (remap_count m))"

definition render_uidgid_mappings :: "IdMapping list \<Rightarrow> string" where
  "render_uidgid_mappings mappings = join_str [CHR 0x0A] (map render_mapping mappings)"

section \<open>Reaping: properties\<close>

text \<open>C29. Reaping ends: if every reaped child makes some measure of the kernel's state smaller (a
  process has finitely many children, and none is reaped twice), then as many rounds as that
  measure, and one more, are enough whatever else the kernel does: the loop never runs out of
  fuel, never fails, and makes at most that many calls.\<close>

theorem reap_enough_fuel:
  assumes "\<And>w r w'. K w (Proc (Waitpid AnyChild True)) = (Some r, w') \<Longrightarrow> \<not> failed r \<Longrightarrow>
      status r \<noteq> StillAlive \<Longrightarrow> (f w' :: nat) < f w"
    and "f w < fuel"
  shows "outcome_of K w (reap_children fuel) \<in> {Done (Inr ()), Gone} \<and>
    length (trace K w (reap_children fuel)) \<le> Suc (f w)"
  using assms(2)
proof (induction fuel arbitrary: w)
  case (Suc fuel)
  obtain x w1 where kw: "K w (Proc (Waitpid AnyChild True)) = (x, w1)" by (cases "K w (Proc (Waitpid AnyChild True))")
  show ?case
  proof (cases x)
    case None
    with kw show ?thesis by (simp add: sys_def)
  next
    case (Some r)
    show ?thesis
    proof (cases "failed r \<or> status r = StillAlive")
      case True
      with kw Some show ?thesis by (auto simp: sys_def)
    next
      case False
      with kw Some have "f w1 < f w" using assms(1) by blast
      with Suc have "outcome_of K w1 (reap_children fuel) \<in> {Done (Inr ()), Gone} \<and>
          length (trace K w1 (reap_children fuel)) \<le> Suc (f w1)" by simp
      with kw Some False \<open>f w1 < f w\<close> show ?thesis by (auto simp: sys_def)
    qed
  qed
qed simp

text \<open>Three zombies.\<close>

definition zombies :: "nat kernel" where
  "zombies w s = (if w = 0 then (Some (reply0\<lparr>rc := -1\<rparr>), 0)
     else (Some (reply0\<lparr>status := Exited_status 7 0\<rparr>), w - 1))"

theorem reap_enough_fuel_witness:
  "outcome_of zombies 3 (reap_children 4) \<in> {Done (Inr ()), Gone}"
proof -
  have "w' < w" if "zombies w (Proc (Waitpid AnyChild True)) = (Some r, w')" "\<not> failed r" for w r w'
    using that by (auto simp: zombies_def split: if_splits)
  then show ?thesis using reap_enough_fuel [of zombies "\<lambda>w. w" 3 4] by simp
qed

section \<open>Forking: properties\<close>

definition is_set_signal :: "syscall \<Rightarrow> bool" where
  "is_set_signal s = (case s of Proc (SetSignal sig d) \<Rightarrow> True | _ \<Rightarrow> False)"

lemma is_set_signal_simps [simp]:
  "is_set_signal (Proc (SetSignal sig d))" "\<not> is_set_signal (Proc Fork)"
  "\<not> is_set_signal (Proc (Waitpid t b))" "\<not> is_set_signal (Proc (StoreChildPid p))"
  by (simp_all add: is_set_signal_def)

lemma only_calls_handlers:
  "only_calls is_set_signal setup_parent_signal_handlers" "only_calls is_set_signal reset_child_signal_handlers"
  by (auto simp: setup_parent_signal_handlers_def reset_child_signal_handlers_def set_signal_def
      intro!: only_calls_for only_calls_map_err)

lemma only_calls_reap: "only_calls (\<lambda>s. s = Proc (Waitpid AnyChild True)) (reap_children fuel)"
  by (induction fuel) (auto intro!: only_calls_try)

text \<open>How a run ends: in the parent by exiting with the child's code, in the child by returning.\<close>

definition wait_result :: "event list \<Rightarrow> unit result outcome \<Rightarrow> bool" where
  "wait_result tr out =
     (case out of
        Done (Inr _) \<Rightarrow> \<exists>r. (Proc Fork, Some r) \<in> set tr \<and> rc r = 0
      | Exited c \<Rightarrow>
          (c = 1 \<and> list_all (\<lambda>e. is_set_signal (fst e) \<or> (\<exists>r. e = (Proc Fork, Some r) \<and> rc r = 0)) tr) \<or>
          (\<exists>r r'. (Proc Fork, Some r) \<in> set tr \<and> rc r \<noteq> 0 \<and>
             (Proc (Waitpid (ChildPid (rc r)) False), Some r') \<in> set tr \<and> c = exit_code (status r'))
      | _ \<Rightarrow> True)"

lemma wp_set_signals:
  assumes "\<And>h' x. list_all (\<lambda>e. is_set_signal (fst e)) h' \<Longrightarrow> x = Gone \<or> (\<exists>y. x = Done y) \<Longrightarrow> Q (h @ h') x"
  shows "wp (\<lambda>_ _. True) Q (for_io (set_signal msg d) sigs) h"
  using assms
proof (induction sigs arbitrary: h)
  case Nil
  then show ?case using Nil [of "[]"] by simp
next
  case (Cons sig sigs)
  have un: "set_signal msg d sig = Call (Proc (SetSignal sig d))
      (\<lambda>r. if failed r then fail (Context msg (OsError (errno r))) else ok ())"
    by (simp add: set_signal_def sys_unit_def) (rule ext, simp)
  have "wp (\<lambda>_ _. True) Q (for_io (set_signal msg d) sigs) (h @ [(Proc (SetSignal sig d), Some r)])" for r
    by (rule Cons.IH) (use Cons.prems [of "(Proc (SetSignal sig d), Some r) # h'" for r h'] in simp)
  then show ?case
    using Cons.prems [of "[(Proc (SetSignal sig d), x)]" for x] by (simp add: un)
qed

lemma wp_handlers:
  assumes "\<And>h'. list_all (\<lambda>e. is_set_signal (fst e)) h' \<Longrightarrow> Q (h @ h') (Exited 1)"
    and "\<And>h'. list_all (\<lambda>e. is_set_signal (fst e)) h' \<Longrightarrow> Q (h @ h') Gone"
    and "\<And>h'. list_all (\<lambda>e. is_set_signal (fst e)) h' \<Longrightarrow> Q (h @ h') (Done (Inr ()))"
  shows "wp (\<lambda>_ _. True) Q (exit_on_err setup_parent_signal_handlers) h"
    and "wp (\<lambda>_ _. True) Q (exit_on_err reset_child_signal_handlers) h"
  unfolding exit_on_err_def wp_bind setup_parent_signal_handlers_def reset_child_signal_handlers_def
  by (rule wp_set_signals, use assms in \<open>auto simp: post_bind_def split: sum.splits\<close>)+

lemma wp_reap:
  assumes "\<And>h' x. list_all (\<lambda>e. fst e = Proc (Waitpid AnyChild True)) h' \<Longrightarrow>
      x \<in> {Done (Inr ()), Gone, NoFuel} \<Longrightarrow> Q (h @ h') x"
  shows "wp (\<lambda>_ _. True) Q (reap_children fuel) h"
  using assms
proof (induction fuel arbitrary: h)
  case 0
  then show ?case using 0 [of "[]" NoFuel] by simp
next
  case (Suc fuel)
  have "wp (\<lambda>_ _. True) Q (reap_children fuel) (h @ [(Proc (Waitpid AnyChild True), Some r)])" for r
    by (rule Suc.IH) (use Suc.prems [of "(Proc (Waitpid AnyChild True), Some r) # h'" for r h'] in simp)
  then show ?case
    using Suc.prems [of "[(Proc (Waitpid AnyChild True), x)]" for x] by (simp add: sys_def)
qed

text \<open>C28. The exit code of the supervisor of an attached process, and who goes on: a run that
  returns is the child's (its \<open>fork\<close> returned 0); the parent never returns. If the parent has
  waited for the child it forked, it exits with the child's exit code, and with 1 if the child did
  not exit normally. The only other exit code is 1, when the signal handlers could not be set
  (then nothing was forked, or the run is the child's).\<close>

theorem fork_and_wait_result:
  "wait_result (trace K w (fork_and_wait fuel)) (outcome_of K w (fork_and_wait fuel))"
proof (rule run_wp_post [where G = "\<lambda>_ _. True"])
  have parent: "wp (\<lambda>_ _. True) wait_result
      (try_io (store_child_pid (rc r)) (\<lambda>_.
       try_io (wait_for_pid (rc r)) (\<lambda>exitcode.
       try_io (reap_children fuel) (\<lambda>_.
       Halt exitcode)))) (h @ [(Proc Fork, Some r)])" if "rc r \<noteq> 0" for r h
    by (auto simp: store_child_pid_def wait_for_pid_def sys_def sys_res_def wp_try
        wait_result_def that post_try_def post_bind_def intro!: wp_reap) (use that in metis)
  have child: "wp (\<lambda>_ _. True) wait_result (exit_on_err reset_child_signal_handlers) (h @ [(Proc Fork, Some r)])"
    if "rc r = 0" "list_all (\<lambda>e. is_set_signal (fst e)) h" for r h
    by (rule wp_handlers) (use that in \<open>auto simp: wait_result_def list_all_iff\<close>)
  show "wp (\<lambda>_ _. True) wait_result (fork_and_wait fuel) []"
    unfolding fork_and_wait_def wp_try [of _ _ "exit_on_err _"]
  proof (rule wp_handlers)
    fix h' :: "event list"
    assume h': "list_all (\<lambda>e. is_set_signal (fst e)) h'"
    then show "post_try wait_result (\<lambda>h a. wp (\<lambda>_ _. True) wait_result
        (try_io (sys_res (Proc Fork)) (\<lambda>r.
         if rc r \<noteq> 0 then
           try_io (store_child_pid (rc r)) (\<lambda>_.
           try_io (wait_for_pid (rc r)) (\<lambda>exitcode.
           try_io (reap_children fuel) (\<lambda>_.
           Halt exitcode)))
         else exit_on_err reset_child_signal_handlers)) h) ([] @ h') (Done (Inr ()))"
      using parent [of _ h'] child [of _ h']
      by (simp add: sys_res_def) (simp add: wait_result_def)
  qed (auto simp: wait_result_def list_all_iff)
qed

section \<open>Finding the child: properties\<close>

lemma lines_of_single: "CHR 0x0A \<notin> set s \<Longrightarrow> s \<noteq> [] \<Longrightarrow> lines_of (s @ [CHR 0x0A]) = [strip_cr s]"
  using split_char_append_sep [of "CHR 0x0A" s "[]"] by (simp add: lines_of_def Let_def)

lemma show_int_digits: "set (show_int i) \<subseteq> insert (CHR ''-'') {c. is_digit c}"
  using show_nat_digits by (auto simp: show_int_def)

lemma succeeds_scan:
  "succeeds K w (scan_proc parent err es) tr pid w' \<Longrightarrow>
     \<exists>name r. Some name \<in> set es \<and> starts_with_digit name \<and> parse_i32 name = Some pid \<and> tr \<noteq> [] \<and>
       last tr = (Fs (ReadToString (''/proc/'' @ name @ ''/status'')), Some r) \<and> \<not> failed r \<and>
       ppid_needle parent \<in> set (lines_of (contents r))"
proof (induction es arbitrary: w tr)
  case (Cons e es)
  show ?case
  proof (cases e)
    case None
    with Cons.prems show ?thesis by simp
  next
    case (Some name)
    show ?thesis
    proof (cases "starts_with_digit name")
      case False
      with Cons Some show ?thesis by fastforce
    next
      case True
      with Cons.prems Some have "succeeds K w
          (try_io (sys (Fs (ReadToString (''/proc/'' @ name @ ''/status'')))) (\<lambda>r.
             if \<not> failed r \<and> ppid_needle parent \<in> set (lines_of (contents r)) \<and> parse_i32 name \<noteq> None
             then ok (the (parse_i32 name)) else scan_proc parent err es)) tr pid w'"
        by simp
      then obtain r w1 t2 where
        tr: "tr = (Fs (ReadToString (''/proc/'' @ name @ ''/status'')), Some r) # t2"
        and rest: "succeeds K w1
          (if \<not> failed r \<and> ppid_needle parent \<in> set (lines_of (contents r)) \<and> parse_i32 name \<noteq> None
           then ok (the (parse_i32 name)) else scan_proc parent err es) t2 pid w'"
        unfolding succeeds_try succeeds_sys by auto
      show ?thesis
      proof (cases "\<not> failed r \<and> ppid_needle parent \<in> set (lines_of (contents r)) \<and> parse_i32 name \<noteq> None")
        case hit: True
        with rest have "pid = the (parse_i32 name)" "t2 = []" by simp_all
        with hit tr True Some show ?thesis by (intro exI [of _ name] exI [of _ r]) auto
      next
        case False
        with rest have "succeeds K w1 (scan_proc parent err es) t2 pid w'" by (simp only: if_False)
        from Cons.IH [OF this] tr show ?thesis by fastforce
      qed
    qed
  qed
qed simp

lemma ppid_needle_inj: "ppid_needle p = ppid_needle q \<longleftrightarrow> p = q"
proof
  assume "ppid_needle p = ppid_needle q"
  then have eq: "show_int p = show_int q" by (simp add: ppid_needle_def)
  have no: "show_nat a \<noteq> CHR ''-'' # b" for a b
    using show_nat_digits [of "CHR ''-''" a] by auto
  with eq show "p = q" by (auto simp: show_int_def split: if_splits) (metis no)+
qed simp

text \<open>C30. The pid that attaching uses is one the kernel reported as a child of the given process:
  it is the first word of the process's \<open>children\<close> file, or the number of a directory of \<open>/proc\<close>
  whose status has a line \<open>PPid:\<close> with exactly that parent (and not a parent whose number only
  starts the same way). In both cases it is a pid of 32 bits.\<close>

theorem first_child_found:
  assumes "outcome_of K w (first_child_pid_of parent) = Done (Inr pid)"
  shows "in_i32 pid \<and>
    ((\<exists>r. trace K w (first_child_pid_of parent) =
        [(Fs (ReadToString (''/proc/'' @ show_int parent @ ''/task/'' @ show_int parent @ ''/children'')), Some r)] \<and>
        \<not> failed r \<and> parse_i32 (hd (split_char (CHR '' '') (contents r))) = Some pid) \<or>
     (\<exists>name r. parse_i32 name = Some pid \<and> \<not> failed r \<and>
        last (trace K w (first_child_pid_of parent)) = (Fs (ReadToString (''/proc/'' @ name @ ''/status'')), Some r) \<and>
        list_ex (\<lambda>l. l = ppid_needle parent) (lines_of (contents r)))) \<and>
    (ppid_needle p = ppid_needle q \<longleftrightarrow> p = q)"
proof -
  let ?path = "''/proc/'' @ show_int parent @ ''/task/'' @ show_int parent @ ''/children''"
  define T where "T = trace K w (first_child_pid_of parent)"
  from assms obtain w' where run: "succeeds K w (first_child_pid_of parent) T pid w'"
    by (auto simp: outcome_succeeds T_def)
  then obtain r w1 t2 where T: "T = (Fs (ReadToString ?path), Some r) # t2"
    and rest: "succeeds K w1 (case (if failed r then None else parse_i32 (hd (split_char (CHR '' '') (contents r)))) of
       Some v \<Rightarrow> ok v
     | None \<Rightarrow>
         try_io (sys_res (Fs (ReadDir ''/proc''))) (\<lambda>d.
         scan_proc parent (errno d) (entries d))) t2 pid w'"
    unfolding first_child_pid_of_def succeeds_try by auto
  show ?thesis
  proof (cases "if failed r then None else parse_i32 (hd (split_char (CHR '' '') (contents r)))")
    case None
    with rest obtain d w2 t3 where t2: "t2 = (Fs (ReadDir ''/proc''), Some d) # t3"
      and scan: "succeeds K w2 (scan_proc parent (errno d) (entries d)) t3 pid w'"
      unfolding None option.case succeeds_try by auto
    from succeeds_scan [OF scan] T t2 show ?thesis
      unfolding T_def [symmetric] by (auto simp: ppid_needle_inj list_ex_iff dest: parse_i32_range)
  next
    case (Some v)
    with rest have "pid = v" "t2 = []" by simp_all
    with Some T show ?thesis
      unfolding T_def [symmetric] by (auto simp: ppid_needle_inj dest: parse_i32_range split: if_splits)
  qed
qed

lemma no_char_show_nat: "\<not> is_digit c \<Longrightarrow> c \<notin> set (show_nat n)"
  using show_nat_digits by blast

lemma split_render_mapping:
  "split_char (CHR '' '') (render_mapping m) =
     [show_nat (unat (base_nsid m)), show_nat (unat (base_hostid m)), show_nat (unat (remap_count m))]"
  by (simp add: render_mapping_def split_char_append_sep split_char_no_sep no_char_show_nat)

lemma render_mapping_inj [simp]: "render_mapping m = render_mapping m' \<longleftrightarrow> m = m'"
proof
  assume "render_mapping m = render_mapping m'"
  then have "split_char (CHR '' '') (render_mapping m) = split_char (CHR '' '') (render_mapping m')" by simp
  then show "m = m'"
    by (simp only: split_render_mapping) (cases m; cases m'; auto simp: word_unat_eq_iff)
qed simp

lemma no_newline_render: "CHR 0x0A \<notin> set (render_mapping m)"
  by (simp add: render_mapping_def no_char_show_nat)

text \<open>Rendering id maps loses nothing: the text is the mappings' lines, each line is the three
  numbers with one blank between them, and two lists of mappings with the same text are equal.\<close>

theorem render_mappings_injective:
  "(render_uidgid_mappings ms = render_uidgid_mappings ms' \<longleftrightarrow> ms = ms') \<and>
   split_char (CHR '' '') (render_mapping m) =
     [show_nat (unat (base_nsid m)), show_nat (unat (base_hostid m)), show_nat (unat (remap_count m))] \<and>
   split_char (CHR 0x0A) (render_uidgid_mappings ms) = (if ms = [] then [[]] else map render_mapping ms)"
proof -
  have lines: "split_char (CHR 0x0A) (render_uidgid_mappings xs) = (if xs = [] then [[]] else map render_mapping xs)" for xs
    by (simp add: render_uidgid_mappings_def split_char_join no_newline_render)
  have "render_mapping x \<noteq> []" for x by (simp add: render_mapping_def)
  then have ne: "[[]] \<noteq> map render_mapping xs" for xs by (cases xs) (auto dest: sym)
  have "ms = ms'" if eq: "render_uidgid_mappings ms = render_uidgid_mappings ms'"
  proof -
    have "(if ms = [] then [[]] else map render_mapping ms) = (if ms' = [] then [[]] else map render_mapping ms')"
      using eq by (simp only: lines [symmetric])
    with ne [of ms] ne [of ms'] have "map render_mapping ms = map render_mapping ms'"
      by (metis list.map_disc_iff)
    then show ?thesis by (simp add: inj_map_eq_map inj_def)
  qed
  then show ?thesis
    by (intro conjI iffI) (simp_all add: lines split_render_mapping)
qed

text \<open>A kernel without \<open>children\<close> files, where 4321 is the first child of 12.\<close>

definition proc_kernel :: "unit kernel" where
  "proc_kernel = scripted (\<lambda>_. False) (\<lambda>s.
     if s = Fs (ReadDir ''/proc'') then reply0\<lparr>entries := [Some ''self'', Some ''123'', Some ''4321'']\<rparr>
     else if s = Fs (ReadToString ''/proc/123/status'') then reply0\<lparr>contents := ppid_needle 120\<rparr>
     else if s = Fs (ReadToString ''/proc/4321/status'') then reply0\<lparr>contents := ppid_needle 12 @ [CHR 0x0A]\<rparr>
     else reply0\<lparr>rc := -1\<rparr>)"

theorem first_child_found_witness:
  "outcome_of proc_kernel () (first_child_pid_of 12) = Done (Inr 4321) \<and> in_i32 4321"
proof -
  have a: "ppid_needle 12 \<notin> set (lines_of (ppid_needle 120))"
    "ppid_needle 12 \<in> set (lines_of (ppid_needle 12 @ [CHR 0x0A]))"
    "parse_i32 ''4321'' = Some 4321" "show_int 12 = ''12''"
    "\<not> starts_with_digit ''self''" "starts_with_digit ''123''" "starts_with_digit ''4321''"
    by code_simp+
  have "outcome_of proc_kernel () (first_child_pid_of 12) = Done (Inr 4321)"
    by (simp add: first_child_pid_of_def proc_kernel_def scripted_def sys_def sys_res_def a reply0_def del: parse_i32.simps)
  with first_child_found [OF this] show ?thesis by blast
qed

end
