(* ===== verification/CreateSetup.thy ===== *)
theory CreateSetup
  imports CGroups Supervise
begin

text \<open>
  The parts of \<open>impl CreateRequest\<close> in \<open>src/wrap.rs\<close> that run before the child's file system is
  set up: the boot time offset, the user namespace, the identity, the host name and the cgroup.
\<close>

section \<open>Boot time\<close>

definition get_boottime :: "int io" where
  "get_boottime = try_io (sys (Sys ClockBoottime)) (\<lambda>r. ok (if failed r then 0 else tv_sec r))"

definition boottime_offset :: "int \<Rightarrow> string" where
  "boottime_offset boot_time = (if boot_time \<le> 0 then ''0'' else ''-'' @ show_int boot_time)"

definition update_boottime :: "unit io" where
  "update_boottime =
     try_io get_boottime (\<lambda>t.
     let boot_time = t - 1;
         timecfg = ''boottime '' @ boottime_offset boot_time @ '' 0'' @ [CHR 0x0A]
     in sys_unit (Fs (WriteFile ''/proc/self/timens_offsets'' timecfg)))"

section \<open>User namespace\<close>

definition proc_file :: "int \<Rightarrow> string \<Rightarrow> string" where
  "proc_file pid name = ''/proc/'' @ show_int pid @ ''/'' @ name"

definition prepare_userns :: "CreateRequest \<Rightarrow> int \<Rightarrow> unit io" where
  "prepare_userns req pid =
     try_io (case cr_uid_mappings req of
               None \<Rightarrow> ok ()
             | Some ms \<Rightarrow> sys_unit (Fs (WriteFile (proc_file pid ''uid_map'') (render_uidgid_mappings ms)))) (\<lambda>_.
     let sgd = (case cr_setgroups_deny req of None \<Rightarrow> True | Some b \<Rightarrow> b) in
     try_io (if sgd then sys_unit (Fs (WriteFile (proc_file pid ''setgroups'') ''deny'')) else ok ()) (\<lambda>_.
     case cr_gid_mappings req of
       None \<Rightarrow> ok ()
     | Some ms \<Rightarrow> sys_unit (Fs (WriteFile (proc_file pid ''gid_map'') (render_uidgid_mappings ms)))))"

section \<open>Identity and host name\<close>

definition identity_of :: "string option \<Rightarrow> string io" where
  "identity_of workload_id =
     try_io get_pid (\<lambda>pid.
     ok (case workload_id of Some wid \<Rightarrow> wid | None \<Rightarrow> show_int pid))"

definition create_identity :: "CreateRequest \<Rightarrow> string io" where
  "create_identity req = identity_of (cr_workload_id req)"

definition update_hostname :: "CreateRequest \<Rightarrow> unit io" where
  "update_hostname req =
     try_io (create_identity req) (\<lambda>wid.
     let final_hostname = (case cr_hostname req of Some h \<Rightarrow> h | None \<Rightarrow> ''styrolite-'' @ wid);
         quoted = [CHR 0x27] @ final_hostname @ [CHR 0x27] in
     try_io (map_err (Context (''hostname '' @ quoted @ '' contains an interior NUL byte: ''))
       (Ret (cstring_new final_hostname))) (\<lambda>cstr.
     map_err (Context (''failed to set hostname to '' @ quoted @ '': ''))
       (sys_unit (Sys (SetHostname cstr (length cstr))))))"

section \<open>Cgroup\<close>

definition controller_of :: "string \<Rightarrow> string option" where
  "controller_of key =
     (let p = hd (split_char (CHR ''.'') key) in
      if p \<in> {''cpu'', ''memory'', ''io'', ''pids''} then Some p else None)"

definition controllers :: "ResourceLimits \<Rightarrow> string list" where
  "controllers limits = remdups (List.map_filter controller_of (bt_keys limits))"

definition controller_string :: "string list \<Rightarrow> string" where
  "controller_string cs = join_str '' '' (map (\<lambda>c. ''+'' @ c) cs)"

definition blocked_key :: "string \<Rightarrow> bool" where
  "blocked_key k = starts_with ''cgroup.'' k"

text \<open>One limit; a failed write is logged and ignored.\<close>

definition set_limit :: "CGroup \<Rightarrow> string \<times> string \<Rightarrow> unit io" where
  "set_limit subtree kv =
     (case kv of (k, v) \<Rightarrow>
        if blocked_key k then ok () else warn_on_err (set_child_value subtree k v))"

definition prepare_cgroup :: "CreateRequest \<Rightarrow> unit io" where
  "prepare_cgroup req =
     (if cr_limits req = None \<and> cr_cgroupfs req = None then ok ()
      else
        try_io get_pid (\<lambda>pid.
        let cgbase = (case cr_cgroupfs req of Some c \<Rightarrow> c | None \<Rightarrow> ''/sys/fs/cgroup'') in
        try_io (CGroup_open cgbase) (\<lambda>cgroot.
        case cr_limits req of
          Some limits \<Rightarrow>
            try_io (sys (Sys HashSeed)) (\<lambda>s.
            let cstr = controller_string (hash_order (seed s) (controllers limits)) in
            try_io (if cstr \<noteq> []
                    then warn_on_err (set_child_value cgroot ''cgroup.subtree_control'' cstr)
                    else ok ()) (\<lambda>_.
            try_io (create_identity req) (\<lambda>wid.
            try_io (create_child cgroot (''styrolite-'' @ wid)) (\<lambda>subtree.
            try_io (for_io (set_limit subtree) limits) (\<lambda>_.
            set_child_value subtree ''cgroup.procs'' (show_int pid))))))
        | None \<Rightarrow> set_child_value cgroot ''cgroup.procs'' (show_int pid))))"

section \<open>Boot time, user namespace, host name: properties\<close>

text \<open>The clock offset written for a host that has been up for \<open>t\<close> seconds is the decimal of a
  number that is never positive and makes the container's boot time start at 1 (or at \<open>t\<close> if that
  is less), so a non-negative boot time stays non-negative. If the clock cannot be read, the offset
  is 0.\<close>

theorem boottime_starts_at_one:
  "let tr = trace K w update_boottime in
     calls (take 1 tr) = [Sys ClockBoottime] \<and>
     (calls tr = [Sys ClockBoottime] \<or>
      (\<exists>r off. hd tr = (Sys ClockBoottime, Some r) \<and> off \<le> 0 \<and>
         off + (if failed r then 0 else tv_sec r) = min (if failed r then 0 else tv_sec r) 1 \<and>
         calls tr = [Sys ClockBoottime, Fs (WriteFile ''/proc/self/timens_offsets''
           (''boottime '' @ show_int off @ '' 0'' @ [CHR 0x0A]))]))"
proof -
  have off: "\<exists>off. boottime_offset (t - 1) = show_int off \<and> off \<le> 0 \<and> off + t = min t 1" for t
  proof (cases "t \<le> 1")
    case True
    have "show_int 0 = ''0''" by code_simp
    with True show ?thesis by (intro exI [of _ 0]) (simp add: boottime_offset_def)
  next
    case False
    then show ?thesis by (intro exI [of _ "1 - t"]) (simp add: boottime_offset_def show_int_def)
  qed
  show ?thesis
    unfolding Let_def
    by (rule run_wp_post [where G = "\<lambda>_ _. True"])
      (use off off [of 0] in \<open>auto simp: update_boottime_def get_boottime_def sys_def sys_unit_def Let_def\<close>)
qed

text \<open>What is written to configure the user namespace of process \<open>pid\<close>.\<close>

definition userns_plan :: "CreateRequest \<Rightarrow> int \<Rightarrow> syscall list" where
  "userns_plan req pid =
     (case cr_uid_mappings req of None \<Rightarrow> []
      | Some ms \<Rightarrow> [Fs (WriteFile (proc_file pid ''uid_map'') (render_uidgid_mappings ms))]) @
     (if cr_setgroups_deny req = Some False then []
      else [Fs (WriteFile (proc_file pid ''setgroups'') ''deny'')]) @
     (case cr_gid_mappings req of None \<Rightarrow> []
      | Some ms \<Rightarrow> [Fs (WriteFile (proc_file pid ''gid_map'') (render_uidgid_mappings ms))])"

lemma userns_wp:
  "wp (\<lambda>_ _. True) (\<lambda>tr x. prefix (calls tr) (userns_plan req pid) \<and>
      (x = Done (Inr ()) \<longleftrightarrow> calls tr = userns_plan req pid \<and> list_all event_ok tr) \<and>
      list_all event_ok (butlast tr) \<and> (\<forall>c. x \<noteq> Exited c)) (prepare_userns req pid) []"
  by (cases "cr_uid_mappings req"; cases "cr_gid_mappings req"; cases "cr_setgroups_deny req")
    (auto simp: prepare_userns_def userns_plan_def sys_unit_def proc_file_def Let_def)

text \<open>C24. Configuring a user namespace makes at most these writes, in this order, for the one
  process: the uid map if given, \<open>deny\<close> to \<open>setgroups\<close> unless that was switched off explicitly,
  and the gid map if given, so \<open>setgroups\<close> is always denied before the gid map is set. It stops
  at the first failure, and succeeds exactly if all of them succeeded.\<close>

theorem userns_writes:
  "let tr = trace K w (prepare_userns req pid)
   in prefix (calls tr) (userns_plan req pid) \<and>
      (outcome_of K w (prepare_userns req pid) = Done (Inr ()) \<longleftrightarrow>
         calls tr = userns_plan req pid \<and> list_all event_ok tr) \<and>
      list_all event_ok (butlast tr)"
  unfolding Let_def using run_wp_post [OF userns_wp, of K w req pid] by blast

text \<open>The host name that is set is the configured one, or \<open>styrolite-\<close> and the identity (the
  workload id, or else the supervisor's pid); its length is the number of its bytes. A name with a
  NUL byte sets nothing and is an error.\<close>

theorem hostname_set:
  "let tr = trace K w (update_hostname req); out = outcome_of K w (update_hostname req)
   in calls (take 1 tr) = [Proc GetPid] \<and>
      (snd (hd tr) = None \<or>
       (\<exists>r name. hd tr = (Proc GetPid, Some r) \<and>
          name = (case cr_hostname req of Some h \<Rightarrow> h
            | None \<Rightarrow> ''styrolite-'' @ (case cr_workload_id req of Some wid \<Rightarrow> wid | None \<Rightarrow> show_int (rc r))) \<and>
          (if CHR 0x00 \<in> set name then length tr = 1 \<and> (\<exists>e. out = Done (Inl e))
           else calls tr = [Proc GetPid, Sys (SetHostname name (length name))] \<and>
             (out = Done (Inr ()) \<longleftrightarrow> event_ok (last tr)))))"
  unfolding Let_def
  by (rule run_wp_post [where G = "\<lambda>_ _. True"])
    (auto simp: update_hostname_def create_identity_def identity_of_def get_pid_def sys_def
      sys_unit_def cstring_new_def Let_def)

section \<open>Cgroup: properties\<close>

lemma controller_string_Nil [simp]: "controller_string cs = [] \<longleftrightarrow> cs = []"
  by (cases cs; cases "tl cs") (auto simp: controller_string_def)

lemma set_controllers:
  "distinct (controllers limits) \<and> set (controllers limits) = {c. \<exists>kv \<in> set limits. controller_of (fst kv) = Some c}"
proof -
  have "set (List.map_filter f xs) = {c. \<exists>x \<in> set xs. f x = Some c}" for f :: "string \<Rightarrow> string option" and xs
    by (induction xs) (auto simp: List.map_filter_simps split: option.split)
  then show ?thesis by (auto simp: controllers_def bt_keys_def)
qed

lemma succeeds_set_limits:
  "succeeds K w (for_io (set_limit subtree) limits) tr u w' \<Longrightarrow>
     calls tr = map (\<lambda>(k, v). Fs (WriteFile (path_push (root subtree) k) v)) (filter (\<lambda>(k, v). \<not> blocked_key k) limits)"
proof (induction limits arbitrary: w tr)
  case (Cons kv limits)
  obtain k v where kv: "kv = (k, v)" by (cases kv)
  from Cons.prems obtain t1 w1 t2 where 1: "succeeds K w (set_limit subtree kv) t1 () w1"
    and 2: "succeeds K w1 (for_io (set_limit subtree) limits) t2 u w'" and "tr = t1 @ t2"
    by (auto simp: succeeds_try)
  with Cons.IH [OF 2] kv show ?case
    by (auto simp: set_limit_def set_child_value_def split: if_splits)
qed simp

lemma succeeds_CGroup_open:
  "succeeds K w (CGroup_open p) tr cg w' \<Longrightarrow> calls tr = [Sys (Faccessat p)] \<and> cg = \<lparr>root = p\<rparr>"
  by (auto simp: CGroup_open_def succeeds_try split: if_splits)

lemma succeeds_create_child:
  "succeeds K w (create_child cg child) tr sub w' \<Longrightarrow>
     calls tr = [Fs (CreateDirAll (path_push (root cg) child)), Sys (Faccessat (path_push (root cg) child))] \<and>
     sub = \<lparr>root = path_push (root cg) child\<rparr>"
  by (auto simp: create_child_def Let_def succeeds_try dest!: succeeds_CGroup_open)

lemma succeeds_identity:
  "succeeds K w (identity_of wid) tr s w' \<Longrightarrow>
     \<exists>r. tr = [(Proc GetPid, Some r)] \<and> s = (case wid of Some i \<Rightarrow> i | None \<Rightarrow> show_int (rc r))"
  by (auto simp: identity_of_def get_pid_def succeeds_try)

text \<open>The calls with limits, once the parent cgroup is open.\<close>

lemma succeeds_limited:
  assumes "succeeds K w (try_io (sys (Sys HashSeed)) (\<lambda>s.
      let cstr = controller_string (hash_order (seed s) (controllers limits)) in
      try_io (if cstr \<noteq> [] then warn_on_err (set_child_value cg ''cgroup.subtree_control'' cstr) else ok ()) (\<lambda>_.
      try_io (create_identity req) (\<lambda>wid.
      try_io (create_child cg (''styrolite-'' @ wid)) (\<lambda>subtree.
      try_io (for_io (set_limit subtree) limits) (\<lambda>_.
      set_child_value subtree ''cgroup.procs'' pid)))))) tr () w'"
  shows "\<exists>(r' :: reply) order dir.
    distinct order \<and> set order = {c. \<exists>kv \<in> set limits. controller_of (fst kv) = Some c} \<and>
    dir = path_push (root cg) (''styrolite-'' @ (case cr_workload_id req of Some wid \<Rightarrow> wid | None \<Rightarrow> show_int (rc r'))) \<and>
    calls tr = [Sys HashSeed] @
      (if order = [] then []
       else [Fs (WriteFile (path_push (root cg) ''cgroup.subtree_control'') (controller_string order))]) @
      [Proc GetPid, Fs (CreateDirAll dir), Sys (Faccessat dir)] @
      map (\<lambda>(k, v). Fs (WriteFile (path_push dir k) v)) (filter (\<lambda>(k, v). \<not> blocked_key k) limits) @
      [Fs (WriteFile (path_push dir ''cgroup.procs'') pid)]"
proof -
  from assms obtain s w3 en w4 idt wid w5 cc sub w6 ls w7 fin where
    tr: "tr = (Sys HashSeed, Some s) # en @ idt @ cc @ ls @ fin"
    and en: "succeeds K w3 (if controller_string (hash_order (seed s) (controllers limits)) \<noteq> []
        then warn_on_err (set_child_value cg ''cgroup.subtree_control''
          (controller_string (hash_order (seed s) (controllers limits)))) else ok ()) en () w4"
    and idt: "succeeds K w4 (create_identity req) idt wid w5"
    and cc: "succeeds K w5 (create_child cg (''styrolite-'' @ wid)) cc sub w6"
    and ls: "succeeds K w6 (for_io (set_limit sub) limits) ls () w7"
    and fin: "succeeds K w7 (set_child_value sub ''cgroup.procs'' pid) fin () w'"
    unfolding succeeds_try Let_def by auto
  define order where "order = hash_order (seed s) (controllers limits)"
  obtain r' where r': "idt = [(Proc GetPid, Some r')]"
    "wid = (case cr_workload_id req of Some i \<Rightarrow> i | None \<Rightarrow> show_int (rc r'))"
    using succeeds_identity [OF idt [unfolded create_identity_def]] by blast
  have order: "distinct order" "set order = {c. \<exists>kv \<in> set limits. controller_of (fst kv) = Some c}"
    using set_controllers [of limits] by (simp_all add: order_def)
  have en': "calls en = (if order = [] then []
      else [Fs (WriteFile (path_push (root cg) ''cgroup.subtree_control'') (controller_string order))])"
    using en by (auto simp: order_def set_child_value_def split: if_splits)
  have fin': "calls fin = [Fs (WriteFile (path_push (path_push (root cg) (''styrolite-'' @ wid)) ''cgroup.procs'') pid)]"
    using fin succeeds_create_child [OF cc] by (auto simp: set_child_value_def)
  show ?thesis
    by (rule exI [of _ r'], rule exI [of _ order], rule exI [of _ "path_push (root cg) (''styrolite-'' @ wid)"],
        intro conjI)
      (use tr order en' fin' r' succeeds_create_child [OF cc] succeeds_set_limits [OF ls] in simp_all)
qed

text \<open>C23. Without limits and without a cgroup file system nothing is done. With limits, a success
  means that these calls were made: the pid and the cgroup base were looked up; the controllers the
  limits need (and no others) were enabled where there are any; the directory
  \<open>base/styrolite-identity\<close> was created and found; every limit whose key does not start with
  \<open>cgroup.\<close> was written, in key order; and only then the supervisor itself was moved into the new
  cgroup. With a cgroup file system only, the supervisor is moved into its root.\<close>

theorem cgroup_prepared:
  assumes "outcome_of K w (prepare_cgroup req) = Done (Inr ())"
  shows "let tr = trace K w (prepare_cgroup req);
             base = (case cr_cgroupfs req of Some c \<Rightarrow> c | None \<Rightarrow> ''/sys/fs/cgroup'')
    in case cr_limits req of
        None \<Rightarrow>
          if cr_cgroupfs req = None then tr = []
          else \<exists>r. hd tr = (Proc GetPid, Some r) \<and>
            calls tr = [Proc GetPid, Sys (Faccessat base),
              Fs (WriteFile (path_push base ''cgroup.procs'') (show_int (rc r)))]
      | Some limits \<Rightarrow>
          \<exists>r (r' :: reply) order dir. hd tr = (Proc GetPid, Some r) \<and>
            distinct order \<and> set order = {c. \<exists>kv \<in> set limits. controller_of (fst kv) = Some c} \<and>
            dir = path_push base (''styrolite-'' @
              (case cr_workload_id req of Some wid \<Rightarrow> wid | None \<Rightarrow> show_int (rc r'))) \<and>
            calls tr = [Proc GetPid, Sys (Faccessat base), Sys HashSeed] @
              (if order = [] then []
               else [Fs (WriteFile (path_push base ''cgroup.subtree_control'') (controller_string order))]) @
              [Proc GetPid, Fs (CreateDirAll dir), Sys (Faccessat dir)] @
              map (\<lambda>(k, v). Fs (WriteFile (path_push dir k) v)) (filter (\<lambda>(k, v). \<not> blocked_key k) limits) @
              [Fs (WriteFile (path_push dir ''cgroup.procs'') (show_int (rc r)))]"
proof (cases "cr_limits req = None \<and> cr_cgroupfs req = None")
  case True
  then show ?thesis by (simp add: prepare_cgroup_def)
next
  case False
  define T where "T = trace K w (prepare_cgroup req)"
  define base where "base = (case cr_cgroupfs req of Some c \<Rightarrow> c | None \<Rightarrow> ''/sys/fs/cgroup'')"
  from assms obtain w' where "succeeds K w (prepare_cgroup req) T () w'"
    by (auto simp: outcome_succeeds T_def)
  with False obtain r w1 t2 cg w2 t3 where T: "T = (Proc GetPid, Some r) # t2 @ t3"
    and op: "succeeds K w1 (CGroup_open base) t2 cg w2"
    and rest: "succeeds K w2 (case cr_limits req of
          Some limits \<Rightarrow>
            try_io (sys (Sys HashSeed)) (\<lambda>s.
            let cstr = controller_string (hash_order (seed s) (controllers limits)) in
            try_io (if cstr \<noteq> []
                    then warn_on_err (set_child_value cg ''cgroup.subtree_control'' cstr)
                    else ok ()) (\<lambda>_.
            try_io (create_identity req) (\<lambda>wid.
            try_io (create_child cg (''styrolite-'' @ wid)) (\<lambda>subtree.
            try_io (for_io (set_limit subtree) limits) (\<lambda>_.
            set_child_value subtree ''cgroup.procs'' (show_int (rc r)))))))
        | None \<Rightarrow> set_child_value cg ''cgroup.procs'' (show_int (rc r))) t3 () w'"
    unfolding prepare_cgroup_def if_not_P [OF False] succeeds_try get_pid_def Let_def base_def by auto
  note op = succeeds_CGroup_open [OF op]
  show ?thesis
  proof (cases "cr_limits req")
    case None
    with rest op T False show ?thesis
      unfolding T_def [symmetric] base_def [symmetric] Let_def
      by (auto simp: set_child_value_def)
  next
    case (Some limits)
    have cg: "root cg = base" using op by simp
    from succeeds_limited [OF rest [unfolded Some option.case], unfolded cg]
    obtain r' :: reply and order dir where o: "distinct order"
        "set order = {c. \<exists>kv \<in> set limits. controller_of (fst kv) = Some c}"
        "dir = path_push base (''styrolite-'' @ (case cr_workload_id req of Some wid \<Rightarrow> wid | None \<Rightarrow> show_int (rc r')))"
      and t3: "calls t3 = [Sys HashSeed] @
        (if order = [] then []
         else [Fs (WriteFile (path_push base ''cgroup.subtree_control'') (controller_string order))]) @
        [Proc GetPid, Fs (CreateDirAll dir), Sys (Faccessat dir)] @
        map (\<lambda>(k, v). Fs (WriteFile (path_push dir k) v)) (filter (\<lambda>(k, v). \<not> blocked_key k) limits) @
        [Fs (WriteFile (path_push dir ''cgroup.procs'') (show_int (rc r)))]"
      by (elim exE conjE) (rule that)
    show ?thesis
      unfolding T_def [symmetric] base_def [symmetric] Let_def Some option.case
      by (rule exI [of _ r], rule exI [of _ r'], rule exI [of _ order], rule exI [of _ dir],
          intro conjI) (fact o | use op in \<open>simp add: T t3\<close>)+
  qed
qed

text \<open>One limit on memory, with the keys of cgroup2.\<close>

definition limited_request :: CreateRequest where
  "limited_request = CreateRequest_default\<lparr>cr_workload_id := Some ''w1'',
     cr_limits := Some [(''cgroup.kill'', ''1''), (''memory.max'', ''1G'')]\<rparr>"

theorem cgroup_prepared_witness:
  "\<exists>pid. last (calls (trace (scripted (\<lambda>_. False) (\<lambda>_. reply0)) () (prepare_cgroup limited_request))) =
     Fs (WriteFile ''/sys/fs/cgroup/styrolite-w1/cgroup.procs'' pid)"
proof -
  define T where "T = trace (scripted (\<lambda>_. False) (\<lambda>_. reply0)) () (prepare_cgroup limited_request)"
  have c: "controllers [(''cgroup.kill'', ''1''), (''memory.max'', ''1G'')] = [''memory'']"
    "blocked_key ''cgroup.kill''" "\<not> blocked_key ''memory.max''"
    by code_simp+
  have req: "cr_limits limited_request = Some [(''cgroup.kill'', ''1''), (''memory.max'', ''1G'')]"
    "cr_cgroupfs limited_request = None" "cr_workload_id limited_request = Some ''w1''"
    by (simp_all add: limited_request_def CreateRequest_default_def)
  have "outcome_of (scripted (\<lambda>_. False) (\<lambda>_. reply0)) () (prepare_cgroup limited_request) = Done (Inr ())"
    by (simp add: prepare_cgroup_def req scripted_def
        get_pid_def sys_def sys_unit_def CGroup_open_def cstring_new_def c reply0_def Let_def
        create_identity_def identity_of_def create_child_def set_limit_def set_child_value_def
        path_push_def)
  from cgroup_prepared [OF this] show ?thesis
    unfolding T_def [symmetric] Let_def req option.case by (auto simp: path_push_def)
qed

text \<open>The guard on limit keys looks only at the first bytes: \<open>./cgroup.procs\<close> is not blocked
  although it names the file \<open>cgroup.procs\<close> of the same directory, and a key that starts with a
  slash is not blocked either and is written to that path itself, outside the cgroup.\<close>

theorem limit_key_guard_bypassed:
  "\<not> blocked_key ''./cgroup.procs'' \<and> \<not> blocked_key (CHR ''/'' # k) \<and>
   calls (trace K w (set_limit subtree (''./cgroup.procs'', v))) =
     [Fs (WriteFile (path_push (root subtree) ''./cgroup.procs'') v)] \<and>
   calls (trace K w (set_limit subtree (CHR ''/'' # k, v))) = [Fs (WriteFile (CHR ''/'' # k) v)]"
proof -
  have b: "\<not> blocked_key ''./cgroup.procs''" "\<not> blocked_key (CHR ''/'' # k)"
    by (simp_all add: blocked_key_def starts_with_def)
  have "calls (trace K w (warn_on_err (sys_unit s))) = [s]" for s
    by (rule run_wp_post [where G = "\<lambda>_ _. True"]) (simp add: sys_unit_def)
  with b show ?thesis
    by (simp add: set_limit_def set_child_value_def path_push_absolute)
qed

end
