(* ===== verification/PivotFs.thy ===== *)
theory PivotFs
  imports Mounts CreateSetup
begin

text \<open>
  \<open>pivot_fs\<close> of \<open>src/wrap.rs\<close> and the directory mutation it applies: the new root file system is
  assembled and pivoted to. The properties describe a successful run phase by phase, and show
  that the root is never changed unless everything before has succeeded.
\<close>

section \<open>Mutations\<close>

definition mutate :: "CreateDirMutation \<Rightarrow> string \<Rightarrow> unit io" where
  "mutate cdm rootfs = sys_unit (Fs (CreateDirAll (path_push rootfs (cd_target cdm))))"

section \<open>The mounts\<close>

definition oldroot :: MountSpec where
  "oldroot = \<lparr>ms_source = None, ms_target = ''/'', ms_fstype = None, ms_bind = False,
     ms_recurse = True, ms_unshare = True, ms_safe = False, ms_create_mountpoint = False,
     ms_read_only = False, ms_data = None\<rparr>"

definition stage_tmpfs :: "string \<Rightarrow> MountSpec" where
  "stage_tmpfs stage_base = \<lparr>ms_source = Some ''tmpfs'', ms_target = stage_base,
     ms_fstype = Some ''tmpfs'', ms_bind = False, ms_recurse = False, ms_unshare = False,
     ms_safe = True, ms_create_mountpoint = True, ms_read_only = False, ms_data = None\<rparr>"

definition bind_tree :: "string \<Rightarrow> string \<Rightarrow> MountSpec" where
  "bind_tree src target = \<lparr>ms_source = Some src, ms_target = target, ms_fstype = Some ''none'',
     ms_bind = True, ms_recurse = True, ms_unshare = False, ms_safe = False,
     ms_create_mountpoint = False, ms_read_only = False, ms_data = None\<rparr>"

definition procfs :: "string \<Rightarrow> MountSpec" where
  "procfs rootfs = \<lparr>ms_source = Some ''proc'', ms_target = rootfs @ ''/proc'',
     ms_fstype = Some ''proc'', ms_bind = False, ms_recurse = True, ms_unshare = False,
     ms_safe = True, ms_create_mountpoint = False, ms_read_only = False, ms_data = None\<rparr>"

definition parented_mount :: "string \<Rightarrow> MountSpec \<Rightarrow> MountSpec" where
  "parented_mount rootfs m = \<lparr>ms_source = ms_source m, ms_target = rootfs @ ''/'' @ ms_target m,
     ms_fstype = ms_fstype m, ms_bind = ms_bind m, ms_recurse = ms_recurse m,
     ms_unshare = ms_unshare m, ms_safe = ms_safe m, ms_create_mountpoint = ms_create_mountpoint m,
     ms_read_only = ms_read_only m, ms_data = None\<rparr>"

section \<open>Assembling the root\<close>

definition opt_list :: "'a list option \<Rightarrow> 'a list" where
  "opt_list x = (case x of None \<Rightarrow> [] | Some xs \<Rightarrow> xs)"

text \<open>A clone of the root \<open>/\<close> is staged on a tmpfs, so that there is something to pivot to.\<close>

definition stage_root :: "string \<Rightarrow> string \<Rightarrow> string \<Rightarrow> unit io" where
  "stage_root stage_base stage stage_old =
     try_io (map_err (Context ''failed to mount staging tmpfs: '') (mount (stage_tmpfs stage_base))) (\<lambda>_.
     try_io (map_err (Context ''failed to create staging root dir: '')
       (sys_unit (Fs (CreateDirAll stage)))) (\<lambda>_.
     try_io (map_err (Context ''failed to create staging old dir: '')
       (sys_unit (Fs (CreateDirAll stage_old)))) (\<lambda>_.
     map_err (Context ''failed to bind / into staging root: '') (mount (bind_tree ''/'' stage)))))"

text \<open>The mounts, the mutations and the hardening below the new root.\<close>

definition populate :: "CreateRequest \<Rightarrow> string \<Rightarrow> unit io" where
  "populate req rootfs =
     try_io (map_err (Context ''failed to bind new rootfs: '') (mount (bind_tree rootfs rootfs))) (\<lambda>_.
     try_io (if cr_rootfs_readonly req = Some True
             then map_err (Context ''failed to make new rootfs readonly: '') (seal (bind_tree rootfs rootfs))
             else ok ()) (\<lambda>_.
     try_io (map_err (Context ''failed to mount /proc: '') (mount (procfs rootfs))) (\<lambda>_.
     try_io (for_io (\<lambda>m. map_err (Context (''failed to process mount spec '' @ rootfs @ ''/'' @ ms_target m @ '': ''))
         (mount (parented_mount rootfs m))) (opt_list (cr_mounts req))) (\<lambda>_.
     try_io (for_io (\<lambda>mt. case mt of CreateDir cdm \<Rightarrow>
         map_err (Context ''failed to create directory: '') (mutate cdm rootfs)) (opt_list (cr_mutations req))) (\<lambda>_.
     try_io (for_io (\<lambda>p. map_err (Context (''failed to mask '' @ p @ '': '')) (mask_path rootfs p))
         (opt_list (cr_masked_paths req))) (\<lambda>_.
     for_io (\<lambda>p. map_err (Context (''failed to make '' @ p @ '' read-only: '')) (make_readonly rootfs p))
       (opt_list (cr_readonly_paths req))))))))"

definition assemble_root :: "CreateRequest \<Rightarrow> string io" where
  "assemble_root req =
     (case cr_rootfs req of
        None \<Rightarrow> fail (Msg ''expected rootfs to be configured'')
      | Some rootfs \<Rightarrow>
          try_io (map_err (Context ''failed to unshare / in new mount namespace: '') (mount oldroot)) (\<lambda>_.
          try_io (create_identity req) (\<lambda>wid1.
          let stage_base = ''/tmp/styrolite-stage-'' @ wid1 in
          try_io (create_identity req) (\<lambda>wid2.
          let stage = ''/tmp/styrolite-stage-'' @ wid2 @ ''/root'' in
          try_io (create_identity req) (\<lambda>wid3.
          let stage_old = ''/tmp/styrolite-stage-'' @ wid3 @ ''/old'' in
          try_io (if rootfs = ''/''
                  then try_io (stage_root stage_base stage stage_old) (\<lambda>_. ok stage)
                  else ok rootfs) (\<lambda>newroot.
          try_io (populate req newroot) (\<lambda>_.
          ok newroot)))))))"

definition pivot_fs :: "CreateRequest \<Rightarrow> unit io" where
  "pivot_fs req =
     try_io (assemble_root req) (\<lambda>newroot.
     map_err (Context ''failed to pivot to new rootfs: '') (pivot (bind_tree newroot newroot)))"

section \<open>What a successful run has done\<close>

text \<open>The traces of the rounds of a loop.\<close>

definition each :: "('a \<Rightarrow> event list \<Rightarrow> bool) \<Rightarrow> 'a list \<Rightarrow> event list \<Rightarrow> bool" where
  "each P xs tr \<longleftrightarrow> (\<exists>trs. tr = concat trs \<and> list_all2 P xs trs)"

definition sealed :: "string \<Rightarrow> event list \<Rightarrow> bool" where
  "sealed rootfs tr \<longleftrightarrow>
     (\<exists>r r'. tr = [(Mnt (OpenTree AT_FDCWD rootfs OPEN_TREE_CLOEXEC), Some r),
        (Mnt (MountSetattr (rc r) [] AT_EMPTY_PATH (zeroed_attr\<lparr>attr_set := MOUNT_ATTR_RDONLY\<rparr>)), Some r')] \<and>
        \<not> failed r \<and> \<not> failed r')"

definition populated :: "CreateRequest \<Rightarrow> string \<Rightarrow> event list \<Rightarrow> bool" where
  "populated req rootfs tr \<longleftrightarrow>
     (\<exists>t1 t2 t3 t4 t5 t6 t7. tr = t1 @ t2 @ t3 @ t4 @ t5 @ t6 @ t7 \<and>
        mounted (bind_tree rootfs rootfs) t1 \<and>
        (if cr_rootfs_readonly req = Some True then sealed rootfs t2 else t2 = []) \<and>
        mounted (procfs rootfs) t3 \<and>
        each (\<lambda>m. mounted (parented_mount rootfs m)) (opt_list (cr_mounts req)) t4 \<and>
        calls t5 = map (\<lambda>mt. case mt of CreateDir cdm \<Rightarrow> Fs (CreateDirAll (path_push rootfs (cd_target cdm))))
          (opt_list (cr_mutations req)) \<and> list_all event_ok t5 \<and>
        each (\<lambda>p. hardened (\<lambda>target dir. if dir then tmpfs_mask target else null_mask target)
          (join_rootfs rootfs p)) (opt_list (cr_masked_paths req)) t6 \<and>
        each (\<lambda>p. hardened (\<lambda>target _. readonly_bind target) (join_rootfs rootfs p))
          (opt_list (cr_readonly_paths req)) t7)"

definition staged :: "string \<Rightarrow> string \<Rightarrow> string \<Rightarrow> event list \<Rightarrow> bool" where
  "staged stage_base stage stage_old tr \<longleftrightarrow>
     (\<exists>t1 r r' t2. tr = t1 @ (Fs (CreateDirAll stage), Some r) # (Fs (CreateDirAll stage_old), Some r') # t2 \<and>
        mounted (stage_tmpfs stage_base) t1 \<and> \<not> failed r \<and> \<not> failed r' \<and> mounted (bind_tree ''/'' stage) t2)"

lemma succeeds_seal:
  "succeeds K w (seal (bind_tree rootfs rootfs)) tr u w' \<Longrightarrow> sealed rootfs tr"
  by (auto simp: seal_def open_tree_def mount_setattr_fd_def mount_setattr_def bind_tree_def
      sealed_def zeroed_attr_def cstring_new_def succeeds_try split: if_splits)

lemma succeeds_each:
  assumes "succeeds K w (for_io f xs) tr u w'"
    and "\<And>x t w1 w2. succeeds K w1 (f x) t () w2 \<Longrightarrow> P x t"
  shows "each P xs tr"
proof -
  obtain trs where trs: "tr = concat trs" "list_all2 (\<lambda>x t. \<exists>w1 w2. succeeds K w1 (f x) t () w2) xs trs"
    using succeeds_for [OF assms(1)] by blast
  from trs(2) have "list_all2 P xs trs" by (rule list_all2_mono) (use assms(2) in blast)
  with trs(1) show ?thesis unfolding each_def by blast
qed

lemma succeeds_mutations:
  assumes "succeeds K w (for_io (\<lambda>mt. case mt of CreateDir cdm \<Rightarrow>
         map_err (Context ''failed to create directory: '') (mutate cdm rootfs)) ms) tr u w'"
  shows "calls tr = map (\<lambda>mt. case mt of CreateDir cdm \<Rightarrow> Fs (CreateDirAll (path_push rootfs (cd_target cdm)))) ms
    \<and> list_all event_ok tr"
  using assms
proof (induction ms arbitrary: w tr)
  case (Cons mt ms)
  obtain cdm where "mt = CreateDir cdm" by (cases mt)
  with Cons show ?case by (fastforce simp: succeeds_try mutate_def)
qed simp

lemma succeeds_populate:
  assumes "succeeds K w (populate req rootfs) tr u w'"
  shows "populated req rootfs tr"
proof -
  from assms obtain t1 u1 w1 t2 u2 w2 t3 u3 w3 t4 u4 w4 t5 u5 w5 t6 u6 w6 t7 where
    tr: "tr = t1 @ t2 @ t3 @ t4 @ t5 @ t6 @ t7"
    and 1: "succeeds K w (mount (bind_tree rootfs rootfs)) t1 u1 w1"
    and 2: "succeeds K w1 (if cr_rootfs_readonly req = Some True
             then map_err (Context ''failed to make new rootfs readonly: '') (seal (bind_tree rootfs rootfs))
             else ok ()) t2 u2 w2"
    and 3: "succeeds K w2 (mount (procfs rootfs)) t3 u3 w3"
    and 4: "succeeds K w3 (for_io (\<lambda>m. map_err (Context (''failed to process mount spec '' @ rootfs @ ''/'' @ ms_target m @ '': ''))
         (mount (parented_mount rootfs m))) (opt_list (cr_mounts req))) t4 u4 w4"
    and 5: "succeeds K w4 (for_io (\<lambda>mt. case mt of CreateDir cdm \<Rightarrow>
         map_err (Context ''failed to create directory: '') (mutate cdm rootfs)) (opt_list (cr_mutations req))) t5 u5 w5"
    and 6: "succeeds K w5 (for_io (\<lambda>p. map_err (Context (''failed to mask '' @ p @ '': '')) (mask_path rootfs p))
         (opt_list (cr_masked_paths req))) t6 u6 w6"
    and 7: "succeeds K w6 (for_io (\<lambda>p. map_err (Context (''failed to make '' @ p @ '' read-only: '')) (make_readonly rootfs p))
         (opt_list (cr_readonly_paths req))) t7 u w'"
    unfolding populate_def succeeds_try succeeds_map_err by blast
  have "if cr_rootfs_readonly req = Some True then sealed rootfs t2 else t2 = []"
    using 2 by (auto dest: succeeds_seal split: if_splits)
  moreover have "each (\<lambda>m. mounted (parented_mount rootfs m)) (opt_list (cr_mounts req)) t4"
    using 4 by (rule succeeds_each) (auto dest: succeeds_mount)
  moreover have "each (\<lambda>p. hardened (\<lambda>target dir. if dir then tmpfs_mask target else null_mask target)
          (join_rootfs rootfs p)) (opt_list (cr_masked_paths req)) t6"
    using 6 by (rule succeeds_each) (auto dest: succeeds_mask)
  moreover have "each (\<lambda>p. hardened (\<lambda>target _. readonly_bind target) (join_rootfs rootfs p))
          (opt_list (cr_readonly_paths req)) t7"
    using 7 by (rule succeeds_each) (auto dest: succeeds_readonly)
  ultimately show ?thesis
    unfolding populated_def using tr succeeds_mount [OF 1] succeeds_mount [OF 3] succeeds_mutations [OF 5]
    by blast
qed

text \<open>The whole assembly: the old root made private, the identity read three times, a staged clone
  where the root file system is \<open>/\<close> itself, and the new root populated.\<close>

definition wid_of :: "CreateRequest \<Rightarrow> reply \<Rightarrow> string" where
  "wid_of req r = (case cr_workload_id req of Some i \<Rightarrow> i | None \<Rightarrow> show_int (rc r))"

definition assembled :: "CreateRequest \<Rightarrow> string \<Rightarrow> event list \<Rightarrow> bool" where
  "assembled req newroot tr \<longleftrightarrow>
     (\<exists>rootfs m r1 r2 r3 st pop. cr_rootfs req = Some rootfs \<and>
        tr = m @ [(Proc GetPid, Some r1), (Proc GetPid, Some r2), (Proc GetPid, Some r3)] @ st @ pop \<and>
        mounted oldroot m \<and>
        (if rootfs = ''/'' then newroot = ''/tmp/styrolite-stage-'' @ wid_of req r2 @ ''/root'' \<and>
           staged (''/tmp/styrolite-stage-'' @ wid_of req r1) newroot
             (''/tmp/styrolite-stage-'' @ wid_of req r3 @ ''/old'') st
         else newroot = rootfs \<and> st = []) \<and>
        populated req newroot pop)"

lemma succeeds_stage:
  assumes "succeeds K w (stage_root b s old) tr u w'"
  shows "staged b s old tr"
proof -
  from assms obtain t1 u1 w1 r w2 r' w3 t2 where
    "tr = t1 @ (Fs (CreateDirAll s), Some r) # (Fs (CreateDirAll old), Some r') # t2"
    and 1: "succeeds K w (mount (stage_tmpfs b)) t1 u1 w1" and "\<not> failed r" "\<not> failed r'"
    and 2: "succeeds K w3 (mount (bind_tree ''/'' s)) t2 u w'"
    unfolding stage_root_def succeeds_try succeeds_map_err succeeds_sys by auto
  with succeeds_mount [OF 1] succeeds_mount [OF 2] show ?thesis
    unfolding staged_def by blast
qed

lemma succeeds_create_identity:
  "succeeds K w (create_identity req) tr s w' \<Longrightarrow> \<exists>r. tr = [(Proc GetPid, Some r)] \<and> s = wid_of req r"
  unfolding create_identity_def wid_of_def by (rule succeeds_identity)

lemma succeeds_assemble:
  assumes "succeeds K w (assemble_root req) tr newroot w'"
  shows "assembled req newroot tr"
proof (cases "cr_rootfs req")
  case None
  with assms show ?thesis by (simp add: assemble_root_def)
next
  case (Some rootfs)
  with assms obtain m u1 w1 i1 wid1 w2 i2 wid2 w3 i3 wid3 w4 st w5 pop u2 where
    tr: "tr = m @ i1 @ i2 @ i3 @ st @ pop"
    and m: "succeeds K w (mount oldroot) m u1 w1"
    and i: "succeeds K w1 (create_identity req) i1 wid1 w2" "succeeds K w2 (create_identity req) i2 wid2 w3"
      "succeeds K w3 (create_identity req) i3 wid3 w4"
    and st: "succeeds K w4 (if rootfs = ''/''
        then try_io (stage_root (''/tmp/styrolite-stage-'' @ wid1) (''/tmp/styrolite-stage-'' @ wid2 @ ''/root'')
            (''/tmp/styrolite-stage-'' @ wid3 @ ''/old'')) (\<lambda>_. ok (''/tmp/styrolite-stage-'' @ wid2 @ ''/root''))
        else ok rootfs) st newroot w5"
    and pop: "succeeds K w5 (populate req newroot) pop u2 w'"
    unfolding assemble_root_def Some option.case succeeds_try succeeds_map_err Let_def by auto
  obtain r1 r2 r3 where r: "i1 = [(Proc GetPid, Some r1)]" "wid1 = wid_of req r1"
    "i2 = [(Proc GetPid, Some r2)]" "wid2 = wid_of req r2"
    "i3 = [(Proc GetPid, Some r3)]" "wid3 = wid_of req r3"
    using i succeeds_create_identity by meson
  have "if rootfs = ''/'' then newroot = ''/tmp/styrolite-stage-'' @ wid_of req r2 @ ''/root'' \<and>
           staged (''/tmp/styrolite-stage-'' @ wid_of req r1) newroot
             (''/tmp/styrolite-stage-'' @ wid_of req r3 @ ''/old'') st
         else newroot = rootfs \<and> st = []"
    using st r by (auto simp: succeeds_try dest: succeeds_stage split: if_splits)
  with Some tr r succeeds_mount [OF m] succeeds_populate [OF pop] show ?thesis
    unfolding assembled_def by (intro exI conjI) (assumption | simp)+
qed

section \<open>Nothing changes the root early\<close>

definition changes_root :: "syscall \<Rightarrow> bool" where
  "changes_root s = (case s of Mnt (PivotRoot a b) \<Rightarrow> True | Mnt (Umount2 a f) \<Rightarrow> True | _ \<Rightarrow> False)"

lemma changes_root_simps [simp]:
  "\<not> changes_root (Fs x)" "\<not> changes_root (Proc y)" "\<not> changes_root (Mnt (OpenTree d p f))"
  "\<not> changes_root (Mnt (MountSys a b c e g))" "\<not> changes_root (Mnt (MountSetattr d p f h))"
  "changes_root (Mnt (PivotRoot x1 x2))" "changes_root (Mnt (Umount2 x3 i))"
  by (simp_all add: changes_root_def)

lemma mkdir_mount_keep: "is_mkdir s \<or> is_mount s \<Longrightarrow> \<not> changes_root s"
  by (auto simp: is_mkdir_def is_mount_def changes_root_def split: syscall.splits mount_call.splits)

lemma keep_mount: "only_calls (\<lambda>s. \<not> changes_root s) (mount ms)"
  using only_calls_mount mkdir_mount_keep by (rule only_calls_mono)

lemma keep_seal: "only_calls (\<lambda>s. \<not> changes_root s) (seal ms)"
  by (auto simp: seal_def open_tree_def mount_setattr_fd_def mount_setattr_def
      intro!: only_calls_try split: option.splits)

lemma keep_harden: "only_calls (\<lambda>s. \<not> changes_root s) (mask_path rootfs p)"
    "only_calls (\<lambda>s. \<not> changes_root s) (make_readonly rootfs p)"
  by (auto simp: mask_path_def make_readonly_def Let_def keep_mount intro!: only_calls_try)

lemma keep_identity: "only_calls (\<lambda>s. \<not> changes_root s) (create_identity req)"
  by (auto simp: create_identity_def identity_of_def get_pid_def intro!: only_calls_try)

lemma keep_populate: "only_calls (\<lambda>s. \<not> changes_root s) (populate req rootfs)"
  unfolding populate_def
  by (intro only_calls_try only_calls_for only_calls_map_err)
    (auto simp: keep_mount keep_seal keep_harden mutate_def intro!: only_calls_map_err split: Mutation.splits)

lemma keep_assemble: "only_calls (\<lambda>s. \<not> changes_root s) (assemble_root req)"
  unfolding assemble_root_def stage_root_def Let_def
  by (auto simp: keep_mount keep_identity keep_populate split: option.splits
      intro!: only_calls_try only_calls_map_err)

section \<open>Properties\<close>

text \<open>C14. Every run of \<open>pivot_fs\<close> either fails without changing the root at all, or has first
  assembled the new root completely: the old root recursively private; where the root file system
  is \<open>/\<close>, a clone of it staged on a tmpfs; the new root bound onto itself (and made read-only where
  asked); \<open>/proc\<close> mounted with nosuid, nodev and noexec; every configured mount placed below the
  new root in order; the directories created; every masked path and every read-only path treated
  after all mounts. Only then it pivots with at most the four calls of \<open>pivot\<close>, and it succeeds
  exactly if they all do.\<close>

theorem pivot_fs_phases:
  "let tr = trace K w (pivot_fs req); out = outcome_of K w (pivot_fs req) in
     (list_all (\<lambda>s. \<not> changes_root s) (calls tr) \<and> out \<noteq> Done (Inr ())) \<or>
     (\<exists>newroot pre post. tr = pre @ post \<and> assembled req newroot pre \<and>
        list_all (\<lambda>s. \<not> changes_root s) (calls pre) \<and>
        prefix (calls post) [Fs (SetCurrentDir newroot), Mnt (PivotRoot ''.'' ''.''),
          Mnt (Umount2 ''.'' MNT_DETACH), Fs (SetCurrentDir ''/'')] \<and>
        (out = Done (Inr ()) \<longleftrightarrow> length post = 4 \<and> list_all event_ok post))"
proof -
  have piv: "prefix (calls tr) [Fs (SetCurrentDir n), Mnt (PivotRoot ''.'' ''.''),
          Mnt (Umount2 ''.'' MNT_DETACH), Fs (SetCurrentDir ''/'')] \<and>
        (out = Done (Inr ()) \<longleftrightarrow> length tr = 4 \<and> list_all event_ok tr)"
    if "tr = trace K w (map_err e (pivot (bind_tree n n)))" "out = outcome_of K w (map_err e (pivot (bind_tree n n)))"
    for tr out n w e
    unfolding that
    by (rule run_wp_post [where G = "\<lambda>_ _. True"])
      (auto simp: pivot_def bind_tree_def sys_unit_def)
  show ?thesis
  proof (cases rule: try_cases [of K w "assemble_root req"
        "\<lambda>newroot. map_err (Context ''failed to pivot to new rootfs: '') (pivot (bind_tree newroot newroot))"])
    case (go_on newroot w1)
    from only_calls_calls [OF keep_assemble] have "list_all (\<lambda>s. \<not> changes_root s) (calls (trace K w (assemble_root req)))" .
    with go_on succeeds_assemble [OF go_on(1)] piv [OF refl refl, of w1 "Context ''failed to pivot to new rootfs: ''" newroot]
    show ?thesis unfolding Let_def pivot_fs_def by (intro disjI2) (simp, blast)
  next
    case stop
    with only_calls_calls [OF keep_assemble, of K w req] show ?thesis
      unfolding Let_def pivot_fs_def by simp
  qed
qed

text \<open>The \<open>data\<close> argument of a call, where it is \<open>mount(2)\<close>.\<close>

fun mount_data_arg :: "syscall \<Rightarrow> string option" where
  "mount_data_arg (Mnt (MountSys src t f fl d)) = d"
| "mount_data_arg s = None"

lemma mount_data_arg_None: "is_mkdir s \<Longrightarrow> mount_data_arg s = None"
  by (cases s rule: mount_data_arg.cases) (auto simp: is_mkdir_def)

text \<open>A configured mount is placed at its target below the new root, but its \<open>data\<close> (the
  options such as \<open>size=64m\<close>) is dropped: whatever is configured, every \<open>mount(2)\<close> made for it
  passes no data at all, whereas mounting the same specification itself passes its data.\<close>

theorem user_mount_data_dropped:
  "list_all (\<lambda>s. mount_data_arg s = None) (calls (trace K w (mount (parented_mount rootfs m)))) \<and>
   ms_target (parented_mount rootfs m) = rootfs @ ''/'' @ ms_target m \<and>
   calls (trace (scripted (\<lambda>_. False) (\<lambda>_. reply0)) () (mount (tmpfs_mask ''/t''))) =
     [Mnt (MountSys (Some ''tmpfs'') ''/t'' (Some ''tmpfs'') MS_SILENT (Some ''size=0k'')),
      Mnt (MountSetattr AT_FDCWD ''/t'' 0 (zeroed_attr\<lparr>attr_set := mount_attrs (tmpfs_mask ''/t'')\<rparr>))]"
proof (intro conjI)
  have md: "mount_data (parented_mount rootfs m) = Inr None"
    by (simp add: mount_data_def parented_mount_def)
  have "only_calls (\<lambda>s. mount_data_arg s = None) (do_mount (parented_mount rootfs m) t)" for t
    by (auto simp: do_mount_def Let_def md mount_setattr_def intro!: only_calls_try)
  then have "only_calls (\<lambda>s. mount_data_arg s = None) (mount (parented_mount rootfs m))"
    unfolding mount_def
    by (intro only_calls_try)
      (auto intro!: only_calls_mono [OF only_calls_create_target] mount_data_arg_None)
  then show "list_all (\<lambda>s. mount_data_arg s = None) (calls (trace K w (mount (parented_mount rootfs m))))"
    by (rule only_calls_calls)
  show "ms_target (parented_mount rootfs m) = rootfs @ ''/'' @ ms_target m"
    by (simp add: parented_mount_def)
  have "mount_attrs (tmpfs_mask ''/t'') \<noteq> 0" by (simp add: mount_attrs_zero tmpfs_mask_def)
  then show "calls (trace (scripted (\<lambda>_. False) (\<lambda>_. reply0)) () (mount (tmpfs_mask ''/t''))) =
     [Mnt (MountSys (Some ''tmpfs'') ''/t'' (Some ''tmpfs'') MS_SILENT (Some ''size=0k'')),
      Mnt (MountSetattr AT_FDCWD ''/t'' 0 (zeroed_attr\<lparr>attr_set := mount_attrs (tmpfs_mask ''/t'')\<rparr>))]"
    by (simp add: mount_def do_mount_def tmpfs_mask_def mount_data_def mount_flags_def cstring_new_def
        unpack_def mount_setattr_def sys_def sys_unit_def scripted_def reply0_def Let_def)
qed

text \<open>A directory mutation makes one directory. With a relative target it is below the new root;
  with an absolute target, such as \<open>/data\<close>, it is that path outside the new root: the container's
  own \<open>/data\<close> is not created.\<close>

theorem create_dir_target:
  "calls (trace K w (mutate cdm rootfs)) =
     [Fs (CreateDirAll (if is_absolute (cd_target cdm) then cd_target cdm
        else if rootfs = [] \<or> last rootfs = CHR ''/'' then rootfs @ cd_target cdm
        else rootfs @ ''/'' @ cd_target cdm))] \<and>
   calls (trace K w (mutate \<lparr>cd_target = ''/data''\<rparr> ''/srv/root'')) = [Fs (CreateDirAll ''/data'')]"
proof -
  have "calls (trace K w (sys_unit s)) = [s]" for s
    by (rule run_wp_post [where G = "\<lambda>_ _. True"]) (simp add: sys_unit_def)
  then show ?thesis by (auto simp: mutate_def path_push_def)
qed

end
