(* ===== verification/Privileges.thy ===== *)
theory Privileges
  imports Config
begin

text \<open>
  The last privilege changes before the workload starts, of \<open>src/wrap.rs\<close>: \<open>apply_gid_uid\<close>,
  \<open>apply_capabilities\<close> and their order in \<open>preexec_prep\<close>. The lemmas show the order of the
  calls in every run, and what a successful run has set the capability sets to.
\<close>

section \<open>Group and user\<close>

text \<open>A failing change of an identity is logged and ignored.\<close>

definition apply_gid_uid :: "u32 option \<Rightarrow> u32 option \<Rightarrow> u32 list option \<Rightarrow> unit io" where
  "apply_gid_uid gid uid sgids =
     try_io (case gid of
               None \<Rightarrow> ok ()
             | Some target_gid \<Rightarrow>
                 try_io (sys (Cred GetGid)) (\<lambda>r.
                 if word_of_int (rc r) \<noteq> target_gid
                 then warn_on_err (sys_unit (Cred (SetGid target_gid))) else ok ())) (\<lambda>_.
     try_io (case sgids of
               None \<Rightarrow> ok ()
             | Some gids \<Rightarrow> warn_on_err (sys_unit (Cred (SetGroups gids)))) (\<lambda>_.
     case uid of
       None \<Rightarrow> ok ()
     | Some target_uid \<Rightarrow>
         try_io (sys (Cred GetUid)) (\<lambda>r.
         if word_of_int (rc r) \<noteq> target_uid
         then warn_on_err (sys_unit (Cred (SetUid target_uid))) else ok ())))"

section \<open>Capabilities\<close>

definition PR_CAPBSET_DROP :: int where "PR_CAPBSET_DROP = 24"
definition PR_CAP_AMBIENT :: int where "PR_CAP_AMBIENT = 47"
definition PR_CAP_AMBIENT_RAISE :: int where "PR_CAP_AMBIENT_RAISE = 2"
definition PR_CAP_AMBIENT_LOWER :: int where "PR_CAP_AMBIENT_LOWER = 3"

text \<open>A \<open>prctl\<close> whose nonzero return value is an error.\<close>

definition prctl_check :: "string \<Rightarrow> cred_call \<Rightarrow> unit io" where
  "prctl_check msg c = Call (Cred c) (\<lambda>r. if rc r \<noteq> 0 then fail (Context msg (OsError (errno r))) else ok ())"

definition bset_drop :: "CapabilityBit \<Rightarrow> cred_call" where
  "bset_drop c = Prctl PR_CAPBSET_DROP (uint (to_cap_number c)) 0 0 0"

definition ambient_lower :: "CapabilityBit \<Rightarrow> cred_call" where
  "ambient_lower c = Prctl PR_CAP_AMBIENT PR_CAP_AMBIENT_LOWER (uint (to_cap_number c)) 0 0"

definition ambient_raise :: "CapabilityBit \<Rightarrow> cred_call" where
  "ambient_raise c = Prctl PR_CAP_AMBIENT PR_CAP_AMBIENT_RAISE (uint (to_cap_number c)) 0 0"

definition unwrap_names :: "string list option \<Rightarrow> string list" where
  "unwrap_names names = (case names of None \<Rightarrow> [] | Some ns \<Rightarrow> ns)"

definition apply_capabilities :: "Capabilities option \<Rightarrow> unit io" where
  "apply_capabilities capabilities =
     (case capabilities of
        None \<Rightarrow> ok ()
      | Some caps \<Rightarrow>
          try_io get_caps (\<lambda>current.
          try_io (names_as_bits (unwrap_names (cap_drop caps))) (\<lambda>drops.
          try_io (names_as_bits (unwrap_names (cap_raise caps))) (\<lambda>raises.
          try_io (names_as_bits (unwrap_names (cap_raise_ambient caps))) (\<lambda>raises_ambient.
          try_io (for_io (\<lambda>d. if d \<notin> set raises \<and> d \<notin> set raises_ambient
                              then prctl_check ''failed to drop bounding capability: '' (bset_drop d)
                              else ok ()) drops) (\<lambda>_.
          let eff = set_bits (clear_bits (effective current) drops) raises in
          try_io (set_caps (current\<lparr>effective := eff, permitted := eff, inheritable := eff\<rparr>)) (\<lambda>_.
          try_io (for_io (\<lambda>d. prctl_check ''failed to drop ambient capability: '' (ambient_lower d)) drops) (\<lambda>_.
          for_io (\<lambda>r. prctl_check ''failed to raise ambient capability: '' (ambient_raise r)) raises_ambient))))))))"

section \<open>The order\<close>

definition preexec_prep :: "ExecutableSpec \<Rightarrow> Capabilities option \<Rightarrow> unit io" where
  "preexec_prep exec capabilities =
     try_io set_keep_caps (\<lambda>_.
     try_io (apply_gid_uid (ex_gid exec) (ex_uid exec) (supplemental_gids exec)) (\<lambda>_.
     apply_capabilities capabilities))"

text \<open>The rank of a call in the required order: securebits, primary group, supplementary groups,
  user, bounding set, capability sets, ambient set.\<close>

fun prep_rank :: "syscall \<Rightarrow> nat option" where
  "prep_rank (Cred (Prctl op a b c d)) =
     (if op = PR_SET_SECUREBITS then Some 0
      else if op = PR_CAPBSET_DROP then Some 5
      else if op = PR_CAP_AMBIENT \<and> a = PR_CAP_AMBIENT_LOWER then Some 7
      else if op = PR_CAP_AMBIENT \<and> a = PR_CAP_AMBIENT_RAISE then Some 8 else None)"
| "prep_rank (Cred (SetGid g)) = Some 1"
| "prep_rank (Cred (SetGroups gs)) = Some 2"
| "prep_rank (Cred (SetUid u)) = Some 3"
| "prep_rank (Cred (Capget v p)) = Some 4"
| "prep_rank (Cred (Capset v p lo hi)) = Some 6"
| "prep_rank s = None"

lemmas prctl_defs = PR_SET_SECUREBITS_def PR_CAPBSET_DROP_def PR_CAP_AMBIENT_def
  PR_CAP_AMBIENT_RAISE_def PR_CAP_AMBIENT_LOWER_def

lemma prep_rank_prctls [simp]:
  "prep_rank (Cred (bset_drop c)) = Some 5" "prep_rank (Cred (ambient_lower c)) = Some 7"
  "prep_rank (Cred (ambient_raise c)) = Some 8"
  by (simp_all add: bset_drop_def ambient_lower_def ambient_raise_def prctl_defs)

lemma ranked_prctl_check:
  "prep_rank (Cred c) = Some n \<Longrightarrow> lo \<le> n \<Longrightarrow> n \<le> hi \<Longrightarrow> ranked prep_rank (prctl_check msg c) lo hi"
  by (auto simp: prctl_check_def)

lemma only_prctl_check [simp]: "only_calls P (prctl_check msg c) \<longleftrightarrow> P (Cred c)"
  by (auto simp: prctl_check_def)

text \<open>The calls of \<open>preexec_prep\<close>.\<close>

definition prep_call :: "syscall \<Rightarrow> bool" where
  "prep_call s = (case s of Cred c \<Rightarrow> True | Proc p \<Rightarrow> p = GetPid | Sys y \<Rightarrow> y = HashSeed | _ \<Rightarrow> False)"

lemma prep_call_simps [simp]: "prep_call (Cred c)" "prep_call (Proc GetPid)" "prep_call (Sys HashSeed)"
  by (simp_all add: prep_call_def)

lemma only_calls_prep_parts:
  "only_calls prep_call get_caps" "only_calls prep_call (apply_gid_uid g u gs)"
  "only_calls prep_call (apply_capabilities caps)"
proof -
  show "only_calls prep_call (apply_gid_uid g u gs)"
    by (auto simp: apply_gid_uid_def split: option.splits intro!: only_calls_try only_calls_warn)
  show get: "only_calls prep_call get_caps"
    by (auto simp: get_caps_def get_pid_def capget_def intro!: only_calls_try)
  have "only_calls prep_call (names_as_bits ns)" "only_calls prep_call (set_caps c)" for ns c
    by (auto simp: names_as_bits_def set_caps_def get_pid_def capset_def intro!: only_calls_try)
  with get show "only_calls prep_call (apply_capabilities caps)"
    by (auto simp: apply_capabilities_def Let_def split: option.splits intro!: only_calls_try only_calls_for)
qed

lemma only_calls_prep: "only_calls prep_call (preexec_prep exec caps)"
  by (auto simp: preexec_prep_def set_keep_caps_def only_calls_prep_parts intro!: only_calls_try)

lemma ranked_keep_caps: "ranked prep_rank set_keep_caps 0 0"
  by (rule ranked_only)
    (auto simp: set_keep_caps_def sys_def prctl_defs intro!: only_calls_try)

lemma ranked_gid_uid: "ranked prep_rank (apply_gid_uid gid uid sgids) 0 3"
proof -
  have "ranked prep_rank (case gid of None \<Rightarrow> ok () | Some g \<Rightarrow>
      try_io (sys (Cred GetGid)) (\<lambda>r. if word_of_int (rc r) \<noteq> g
        then warn_on_err (sys_unit (Cred (SetGid g))) else ok ())) 0 1"
    by (cases gid) (auto simp: sys_def sys_unit_def)
  moreover have "ranked prep_rank (case sgids of None \<Rightarrow> ok () | Some gs \<Rightarrow>
      warn_on_err (sys_unit (Cred (SetGroups gs)))) 1 2"
    by (cases sgids) (auto simp: sys_def sys_unit_def)
  moreover have "ranked prep_rank (case uid of None \<Rightarrow> ok () | Some u \<Rightarrow>
      try_io (sys (Cred GetUid)) (\<lambda>r. if word_of_int (rc r) \<noteq> u
        then warn_on_err (sys_unit (Cred (SetUid u))) else ok ())) 2 3"
    by (cases uid) (auto simp: sys_def sys_unit_def)
  ultimately show ?thesis
    unfolding apply_gid_uid_def by (intro ranked_try) auto
qed

lemma ranked_names: "lo \<le> hi \<Longrightarrow> ranked prep_rank (names_as_bits ns) lo hi"
  by (auto simp: names_as_bits_def sys_def)

lemma ranked_for_prctl:
  "(\<And>x. prep_rank (Cred (c x)) = Some n) \<Longrightarrow> lo \<le> n \<Longrightarrow> n \<le> hi \<Longrightarrow>
     ranked prep_rank (for_io (\<lambda>x. if b x then prctl_check m (c x) else ok ()) xs) lo hi"
  by (rule ranked_only [where n = n]) (auto simp: only_prctl_check intro!: only_calls_for)

lemma ranked_capabilities: "ranked prep_rank (apply_capabilities caps) 3 8"
proof (cases caps)
  case (Some c)
  have g: "ranked prep_rank get_caps 3 4"
    by (auto simp: get_caps_def get_pid_def capget_def sys_def)
  have s: "ranked prep_rank (set_caps x) 5 6" for x
    by (auto simp: set_caps_def get_pid_def capset_def sys_def)
  have b: "ranked prep_rank (for_io (\<lambda>d. if d \<notin> set rs \<and> d \<notin> set ras
      then prctl_check m (bset_drop d) else ok ()) ds) 4 5" for rs ras m ds
    by (rule ranked_for_prctl [of bset_drop 5]) simp_all
  have l: "ranked prep_rank (for_io (\<lambda>d. prctl_check m (ambient_lower d)) ds) 6 7" for m ds
    using ranked_for_prctl [of ambient_lower 7 6 7 "\<lambda>_. True"] by simp
  have r: "ranked prep_rank (for_io (\<lambda>d. prctl_check m (ambient_raise d)) ds) 7 8" for m ds
    using ranked_for_prctl [of ambient_raise 8 7 8 "\<lambda>_. True"] by simp
  show ?thesis
    unfolding apply_capabilities_def Let_def Some option.case
    by (rule ranked_try [OF g] ranked_try [OF ranked_names [of 4 4]] ranked_try [OF b]
        ranked_try [OF s] ranked_try [OF l] r | simp)+
qed (simp add: apply_capabilities_def)

section \<open>Properties\<close>

text \<open>C18. In every run of \<open>preexec_prep\<close>, whatever the calls return, the identity and capability
  calls come in this order: the securebits first; then the primary group, the supplementary groups
  and the user; then reading the capabilities, shrinking the bounding set, setting the capability
  sets, lowering and raising the ambient set. If setting the securebits fails, none of the others
  is made.\<close>

theorem preexec_order:
  "let tr = trace K w (preexec_prep exec caps)
   in sorted (ranks prep_rank tr) \<and>
      hd (calls tr) = Cred (Prctl PR_SET_SECUREBITS SECBIT_NO_SETUID_FIXUP 0 0 0) \<and>
      (length tr = 1 \<or> (\<exists>r. snd (hd tr) = Some r \<and> \<not> failed r))"
proof -
  have "ranked prep_rank (preexec_prep exec caps) 0 8"
    unfolding preexec_prep_def
    by (rule ranked_try [OF ranked_keep_caps] ranked_try [OF ranked_gid_uid] ranked_capabilities | simp)+
  from ranked_trace [OF this, of K w] have "sorted (ranks prep_rank (trace K w (preexec_prep exec caps)))"
    by simp
  moreover have "hd (calls (trace K w (preexec_prep exec caps))) =
      Cred (Prctl PR_SET_SECUREBITS SECBIT_NO_SETUID_FIXUP 0 0 0) \<and>
    (length (trace K w (preexec_prep exec caps)) = 1 \<or>
      (\<exists>r. snd (hd (trace K w (preexec_prep exec caps))) = Some r \<and> \<not> failed r))"
    by (auto simp: preexec_prep_def set_keep_caps_def sys_def split: prod.splits option.splits)
  ultimately show ?thesis by (simp add: Let_def)
qed

section \<open>What a successful run has set\<close>

lemma succeeds_get_pid:
  "succeeds K w get_pid tr pid w' \<longleftrightarrow> (\<exists>r. K w (Proc GetPid) = (Some r, w') \<and> tr = [(Proc GetPid, Some r)] \<and> pid = rc r)"
  by (auto simp: get_pid_def sys_def)

lemma succeeds_get_caps:
  assumes "succeeds K w get_caps tr cur w'"
  shows "\<exists>pid r r'. tr = [(Proc GetPid, Some r'), (Cred (Capget LINUX_CAPABILITY_VERSION_3 pid), Some r)] \<and>
    cur = cap_data_to_result (caplo r, caphi r)"
  using assms by (auto simp: get_caps_def capget_def sys_def succeeds_try succeeds_get_pid split: if_splits)

lemma succeeds_set_caps:
  assumes "succeeds K w (set_caps c) tr u w'"
  shows "\<exists>pid. calls tr = [Proc GetPid, Cred (Capset LINUX_CAPABILITY_VERSION_3 pid
      (fst (cap_result_to_data c)) (snd (cap_result_to_data c)))]"
  using assms by (auto simp: set_caps_def capset_def sys_def succeeds_try succeeds_get_pid split: if_splits)

lemma succeeds_names:
  assumes "succeeds K w (names_as_bits ns) tr bits w'"
  shows "calls tr = [Sys HashSeed] \<and> distinct bits \<and> set bits = (\<Union>n \<in> set ns. name_caps n)"
proof (cases "collect_names ns []")
  case (Inl e)
  with assms show ?thesis by (simp add: names_as_bits_def sys_def)
next
  case (Inr caps)
  with assms collect_names_set [OF Inr] collect_names_distinct [OF Inr] show ?thesis
    by (auto simp: names_as_bits_def sys_def)
qed

lemma succeeds_prctl_loop:
  assumes "succeeds K w (for_io (\<lambda>x. prctl_check m (c x)) xs) tr u w'"
  shows "calls tr = map (Cred \<circ> c) xs"
  using succeeds_for_calls [of xs "\<lambda>x. prctl_check m (c x)" "Cred \<circ> c" "\<lambda>_ r. rc r \<noteq> 0"
      "\<lambda>_ r. Context m (OsError (errno r))" K w tr u w'] assms
  by (simp add: prctl_check_def)

lemma for_io_filter: "for_io (\<lambda>x. if P x then f x else ok ()) xs = for_io f (filter P xs)"
  by (induction xs) auto

text \<open>The stages of a success.\<close>

lemma succeeds_capabilities:
  assumes "succeeds K w (apply_capabilities (Some caps)) tr u w'"
  obtains t1 cur w1 t2 ds w2 t3 rs w3 t4 as w4 t5 w5 t6 w6 t7 w7 t8 where
    "succeeds K w get_caps t1 cur w1"
    "succeeds K w1 (names_as_bits (unwrap_names (cap_drop caps))) t2 ds w2"
    "succeeds K w2 (names_as_bits (unwrap_names (cap_raise caps))) t3 rs w3"
    "succeeds K w3 (names_as_bits (unwrap_names (cap_raise_ambient caps))) t4 as w4"
    "succeeds K w4 (for_io (\<lambda>d. prctl_check ''failed to drop bounding capability: '' (bset_drop d))
       (filter (\<lambda>d. d \<notin> set rs \<and> d \<notin> set as) ds)) t5 () w5"
    "succeeds K w5 (set_caps (let eff = set_bits (clear_bits (effective cur) ds) rs
       in \<lparr>effective = eff, permitted = eff, inheritable = eff\<rparr>)) t6 () w6"
    "succeeds K w6 (for_io (\<lambda>d. prctl_check ''failed to drop ambient capability: '' (ambient_lower d)) ds) t7 () w7"
    "succeeds K w7 (for_io (\<lambda>r. prctl_check ''failed to raise ambient capability: '' (ambient_raise r)) as) t8 () w'"
    "tr = t1 @ t2 @ t3 @ t4 @ t5 @ t6 @ t7 @ t8"
proof -
  have "cur\<lparr>effective := e, permitted := e, inheritable := e\<rparr> =
      \<lparr>effective = e, permitted = e, inheritable = e\<rparr>" for cur :: CapResult and e by (cases cur) simp
  with assms that show thesis
    unfolding apply_capabilities_def option.case Let_def succeeds_try for_io_filter by auto
qed

text \<open>C19. Applying capabilities, when it succeeds, has made exactly these calls. It read the
  capabilities of the process; translated the three lists; removed from the bounding set exactly
  the dropped capabilities that are raised in neither way; set effective, permitted and inheritable
  all to the same mask, in which a capability is set if it is raised, or was effective and is not
  dropped; removed every dropped capability from the ambient set; and raised there exactly the
  ambient ones.\<close>

theorem capabilities_applied:
  assumes "outcome_of K w (apply_capabilities (Some caps)) = Done (Inr ())"
  shows "\<exists>pid pid' r ds rs as eff.
    snd (trace K w (apply_capabilities (Some caps)) ! 1) = Some r \<and>
    calls (trace K w (apply_capabilities (Some caps))) =
      [Proc GetPid, Cred (Capget LINUX_CAPABILITY_VERSION_3 pid), Sys HashSeed, Sys HashSeed, Sys HashSeed] @
      map (Cred \<circ> bset_drop) (filter (\<lambda>d. d \<notin> set rs \<and> d \<notin> set as) ds) @
      [Proc GetPid, Cred (Capset LINUX_CAPABILITY_VERSION_3 pid'
         (fst (cap_result_to_data \<lparr>effective = eff, permitted = eff, inheritable = eff\<rparr>))
         (snd (cap_result_to_data \<lparr>effective = eff, permitted = eff, inheritable = eff\<rparr>)))] @
      map (Cred \<circ> ambient_lower) ds @ map (Cred \<circ> ambient_raise) as \<and>
    distinct ds \<and> set ds = (\<Union>n \<in> set (unwrap_names (cap_drop caps)). name_caps n) \<and>
    distinct rs \<and> set rs = (\<Union>n \<in> set (unwrap_names (cap_raise caps)). name_caps n) \<and>
    distinct as \<and> set as = (\<Union>n \<in> set (unwrap_names (cap_raise_ambient caps)). name_caps n) \<and>
    (\<forall>c. get_from c eff \<longleftrightarrow>
       c \<in> set rs \<or> (c \<notin> set ds \<and> get_from c (effective (cap_data_to_result (caplo r, caphi r)))))"
proof -
  let ?tr = "trace K w (apply_capabilities (Some caps))"
  from assms obtain w' where run: "succeeds K w (apply_capabilities (Some caps)) ?tr () w'"
    by (auto simp: outcome_succeeds)
  obtain t1 cur w1 t2 ds w2 t3 rs w3 t4 as w4 t5 w5 t6 w6 t7 w7 t8 where
    a: "succeeds K w get_caps t1 cur w1"
    and b: "succeeds K w1 (names_as_bits (unwrap_names (cap_drop caps))) t2 ds w2"
    and c: "succeeds K w2 (names_as_bits (unwrap_names (cap_raise caps))) t3 rs w3"
    and d: "succeeds K w3 (names_as_bits (unwrap_names (cap_raise_ambient caps))) t4 as w4"
    and e: "succeeds K w4 (for_io (\<lambda>d. prctl_check ''failed to drop bounding capability: '' (bset_drop d))
        (filter (\<lambda>d. d \<notin> set rs \<and> d \<notin> set as) ds)) t5 () w5"
    and f: "succeeds K w5 (set_caps (let eff = set_bits (clear_bits (effective cur) ds) rs
        in \<lparr>effective = eff, permitted = eff, inheritable = eff\<rparr>)) t6 () w6"
    and g: "succeeds K w6 (for_io (\<lambda>d. prctl_check ''failed to drop ambient capability: '' (ambient_lower d)) ds) t7 () w7"
    and h: "succeeds K w7 (for_io (\<lambda>r. prctl_check ''failed to raise ambient capability: '' (ambient_raise r)) as) t8 () w'"
    and tr: "?tr = t1 @ t2 @ t3 @ t4 @ t5 @ t6 @ t7 @ t8"
    by (rule succeeds_capabilities [OF run], rule that)
  define eff where "eff = set_bits (clear_bits (effective cur) ds) rs"
  obtain pid r r' where t1: "t1 = [(Proc GetPid, Some r'), (Cred (Capget LINUX_CAPABILITY_VERSION_3 pid), Some r)]"
    "cur = cap_data_to_result (caplo r, caphi r)" using succeeds_get_caps [OF a] by blast
  obtain pid' where t6: "calls t6 = [Proc GetPid, Cred (Capset LINUX_CAPABILITY_VERSION_3 pid'
      (fst (cap_result_to_data \<lparr>effective = eff, permitted = eff, inheritable = eff\<rparr>))
      (snd (cap_result_to_data \<lparr>effective = eff, permitted = eff, inheritable = eff\<rparr>)))]"
    using succeeds_set_caps [OF f] by (auto simp: eff_def Let_def)
  have "\<forall>x. get_from x eff \<longleftrightarrow> x \<in> set rs \<or>
      (x \<notin> set ds \<and> get_from x (effective (cap_data_to_result (caplo r, caphi r))))"
    by (simp add: eff_def t1(2) get_from_set_bits get_from_clear_bits)
  then show ?thesis
    using succeeds_names [OF b] succeeds_names [OF c] succeeds_names [OF d]
      succeeds_prctl_loop [OF e] succeeds_prctl_loop [OF g]
      succeeds_prctl_loop [OF h] t6 t1(1)
    by (intro exI [of _ pid] exI [of _ pid'] exI [of _ r] exI [of _ ds] exI [of _ rs] exI [of _ as]
        exI [of _ eff]) (simp add: tr)
qed

text \<open>Dropping everything but the right to bind low ports, for a process that has it.\<close>

definition web_caps :: Capabilities where
  "web_caps = \<lparr>cap_raise = Some [''CAP_NET_BIND_SERVICE''], cap_raise_ambient = None,
     cap_drop = Some [''NET_BIND_SERVICE'', ''CAP_SYS_ADMIN'']\<rparr>"

theorem capabilities_applied_witness:
  "\<exists>pid lo hi. Cred (Capset LINUX_CAPABILITY_VERSION_3 pid lo hi) \<in>
       set (calls (trace (scripted (\<lambda>_. False) (\<lambda>_. reply0)) () (apply_capabilities (Some web_caps))))"
proof -
  have ds: "collect_names [''NET_BIND_SERVICE'', ''CAP_SYS_ADMIN''] [] = Inr [SysAdmin, NetBindService]"
    and rs: "collect_names [''CAP_NET_BIND_SERVICE''] [] = Inr [NetBindService]"
    by code_simp+
  have "outcome_of (scripted (\<lambda>_. False) (\<lambda>_. reply0)) () (apply_capabilities (Some web_caps)) = Done (Inr ())"
    by (simp add: apply_capabilities_def web_caps_def unwrap_names_def names_as_bits_def ds rs
        get_caps_def get_pid_def capget_def set_caps_def capset_def prctl_check_def sys_def
        scripted_def Let_def reply0_def del: collect_names.simps(2) to_uppercase.simps)
  from capabilities_applied [OF this] show ?thesis
    by (elim exE conjE) (simp only: set_append list.set, blast)
qed

end
