(* ===== verification/ExecSpec.thy ===== *)
theory ExecSpec
  imports Config Signals
begin

text \<open>
  The \<open>ExecutableSpec\<close> part of \<open>src/wrap.rs\<close>: process limits, \<open>PR_SET_NO_NEW_PRIVS\<close> and
  \<open>execute\<close>, the last step of the child. The lemmas show which limits are set to which values,
  and that the workload is executed only after everything that confines it was done and has
  succeeded.
\<close>

section \<open>Process limits\<close>

definition RLIM_INFINITY :: u64 where "RLIM_INFINITY = - 1"

definition unpacked_limit :: "u64 option \<Rightarrow> u64" where
  "unpacked_limit limit = (case limit of Some rl \<Rightarrow> rl | None \<Rightarrow> RLIM_INFINITY)"

definition set_process_limit :: "rlimit_resource \<Rightarrow> u64 option \<Rightarrow> unit io" where
  "set_process_limit resource limit =
     Call (Sys (SetRlimit resource (unpacked_limit limit) (unpacked_limit limit))) (\<lambda>r.
     if rc r = -1 then fail (Context ''failed to set resource limit: '' (OsError (errno r)))
     else ok ())"

definition set_process_limits :: "ExecutableSpec \<Rightarrow> unit io" where
  "set_process_limits exec =
     (case process_limits exec of
        None \<Rightarrow> ok ()
      | Some prlimits \<Rightarrow>
          try_io (set_process_limit RLIMIT_AS (address_space_size prlimits)) (\<lambda>_.
          try_io (set_process_limit RLIMIT_CORE (core_size prlimits)) (\<lambda>_.
          try_io (set_process_limit RLIMIT_CPU (cpu_time prlimits)) (\<lambda>_.
          try_io (set_process_limit RLIMIT_DATA (data_space_size prlimits)) (\<lambda>_.
          try_io (set_process_limit RLIMIT_FSIZE (file_size prlimits)) (\<lambda>_.
          try_io (set_process_limit RLIMIT_MEMLOCK (locked_space_size prlimits)) (\<lambda>_.
          try_io (set_process_limit RLIMIT_MSGQUEUE (msgqueue_size prlimits)) (\<lambda>_.
          try_io (set_process_limit RLIMIT_NICE (nice_ceiling prlimits)) (\<lambda>_.
          try_io (set_process_limit RLIMIT_NOFILE (open_files prlimits)) (\<lambda>_.
          try_io (set_process_limit RLIMIT_NPROC (thread_limit prlimits)) (\<lambda>_.
          try_io (set_process_limit RLIMIT_RSS (resident_space_size prlimits)) (\<lambda>_.
          try_io (set_process_limit RLIMIT_RTPRIO (real_time_priority prlimits)) (\<lambda>_.
          try_io (set_process_limit RLIMIT_RTTIME (real_time_limit prlimits)) (\<lambda>_.
          try_io (set_process_limit RLIMIT_SIGPENDING (pending_signal_limit prlimits)) (\<lambda>_.
          try_io (set_process_limit RLIMIT_STACK (main_thread_stack_size prlimits)) (\<lambda>_.
          ok ()))))))))))))))))"

section \<open>Executing\<close>

definition PR_SET_NO_NEW_PRIVS :: int where "PR_SET_NO_NEW_PRIVS = 38"

definition set_no_new_privs :: "unit io" where
  "set_no_new_privs =
     try_io (sys (Cred (Prctl PR_SET_NO_NEW_PRIVS 1 0 0 0))) (\<lambda>r.
     if rc r \<noteq> 0 then fail (Context ''failed to set no_new_privs flag: '' (OsError (errno r)))
     else ok ())"

text \<open>\<open>map(CString::new).collect::<Result<Vec<_>, _>>()\<close>: the first failure is the result.\<close>

fun collect_cstrings :: "string list \<Rightarrow> string list result" where
  "collect_cstrings [] = Inr []"
| "collect_cstrings (x # xs) =
     (case cstring_new x of
        Inl e \<Rightarrow> Inl e
      | Inr c \<Rightarrow> (case collect_cstrings xs of Inl e \<Rightarrow> Inl e | Inr cs \<Rightarrow> Inr (c # cs)))"

definition env_strings :: "(string, string) btree \<Rightarrow> string list" where
  "env_strings env = map (\<lambda>(key, value). key @ ''='' @ value) env"

definition exec_hint :: "string \<Rightarrow> int \<Rightarrow> string" where
  "exec_hint program err =
     (let q = [CHR 0x27] @ program @ [CHR 0x27] in
      if err = ENOENT then
        '' (is '' @ q @ '' installed and on PATH? if you meant to pass it as an argument, check the order of the executable and its arguments)''
      else if err = EACCES then
        '' (is '' @ q @ '' marked executable, and are all leading path components accessible?)''
      else if err = ENOEXEC then
        '' (is '' @ q @ '' a valid executable for this architecture, or is it a script missing a #! interpreter line?)''
      else [])"

text \<open>The steps between the conversion of the strings and the \<open>execve\<close>.\<close>

definition confine :: "ExecutableSpec \<Rightarrow> unit io" where
  "confine exec =
     try_io (case working_directory exec of
               None \<Rightarrow> ok () | Some wd \<Rightarrow> sys_unit (Fs (SetCurrentDir wd))) (\<lambda>_.
     try_io (if no_new_privs exec then set_no_new_privs else ok ()) (\<lambda>_.
     try_io (case seccomp exec of
               None \<Rightarrow> ok ()
             | Some flt \<Rightarrow>
                 if \<not> no_new_privs exec
                 then fail (Msg ''seccomp filter requires no_new_privs = true'')
                 else install flt) (\<lambda>_.
     try_io (case apparmor exec of
               None \<Rightarrow> ok ()
             | Some profile \<Rightarrow>
                 map_err (Context ''failed to set AppArmor profile: '') (change_onexec profile)) (\<lambda>_.
     reset_sigpipe))))"

definition execute :: "ExecutableSpec \<Rightarrow> unit io" where
  "execute exec =
     try_io (case executable exec of
               None \<Rightarrow> fail (Msg ''no executable configured for the workload to run'')
             | Some e \<Rightarrow> ok e) (\<lambda>exe.
     try_io (Ret (cstring_new exe)) (\<lambda>program.
     try_io (Ret (collect_cstrings (case arguments exec of None \<Rightarrow> [] | Some args \<Rightarrow> args))) (\<lambda>args.
     try_io (Ret (collect_cstrings
               (case environment exec of None \<Rightarrow> [] | Some env \<Rightarrow> env_strings env))) (\<lambda>env.
     try_io (confine exec) (\<lambda>_.
     try_io (sys (Proc (Execvpe program (program # args) env))) (\<lambda>r.
     if failed r then
       fail (Hint (Context (''failed to execute '' @ [CHR 0x27] @ program @ [CHR 0x27] @ '': '')
               (OsError (errno r))) (exec_hint program (errno r)))
     else ok ()))))))"

lemma collect_cstrings_eq:
  "collect_cstrings xs = (if list_all (\<lambda>x. CHR 0x00 \<notin> set x) xs then Inr xs else Inl NulError)"
  by (induction xs) (simp_all add: cstring_new_def)

section \<open>Limits: properties\<close>

definition limit_table :: "ProcessResourceLimits \<Rightarrow> (rlimit_resource \<times> u64 option) list" where
  "limit_table l =
     [(RLIMIT_AS, address_space_size l), (RLIMIT_CORE, core_size l), (RLIMIT_CPU, cpu_time l),
      (RLIMIT_DATA, data_space_size l), (RLIMIT_FSIZE, file_size l),
      (RLIMIT_MEMLOCK, locked_space_size l), (RLIMIT_MSGQUEUE, msgqueue_size l),
      (RLIMIT_NICE, nice_ceiling l), (RLIMIT_NOFILE, open_files l), (RLIMIT_NPROC, thread_limit l),
      (RLIMIT_RSS, resident_space_size l), (RLIMIT_RTPRIO, real_time_priority l),
      (RLIMIT_RTTIME, real_time_limit l), (RLIMIT_SIGPENDING, pending_signal_limit l),
      (RLIMIT_STACK, main_thread_stack_size l)]"

lemma set_process_limits_loop:
  "set_process_limits exec =
     (case process_limits exec of
        None \<Rightarrow> ok ()
      | Some l \<Rightarrow> for_io (\<lambda>(res, lim). set_process_limit res lim) (limit_table l))"
  by (simp add: set_process_limits_def limit_table_def split: option.split)

definition limit_call :: "rlimit_resource \<times> u64 option \<Rightarrow> syscall" where
  "limit_call x = Sys (SetRlimit (fst x) (unpacked_limit (snd x)) (unpacked_limit (snd x)))"

lemma wp_limits:
  "wp (\<lambda>_ _. True) (\<lambda>t x. prefix (calls t) (map limit_call tab) \<and>
        (x = Done (Inr ()) \<longleftrightarrow> length t = length tab \<and> list_all (\<lambda>e. \<exists>r. snd e = Some r \<and> rc r \<noteq> -1) t))
     (for_io (\<lambda>(res, lim). set_process_limit res lim) tab) []"
proof (induction tab)
  case (Cons x tab)
  obtain res lim where x: "x = (res, lim)" by (cases x)
  have un: "set_process_limit res lim = Call (limit_call (res, lim)) (\<lambda>r.
      if rc r = -1 then fail (Context ''failed to set resource limit: '' (OsError (errno r))) else ok ())"
    by (simp add: set_process_limit_def limit_call_def)
  have "wp (\<lambda>_ _. True) (\<lambda>t y. prefix (calls t) (map limit_call (x # tab)) \<and>
        (y = Done (Inr ()) \<longleftrightarrow> length t = Suc (length tab) \<and> list_all (\<lambda>e. \<exists>r. snd e = Some r \<and> rc r \<noteq> -1) t))
     (for_io (\<lambda>(res, lim). set_process_limit res lim) tab) [(limit_call x, Some r)]" if "rc r \<noteq> -1" for r
    unfolding wp_shift_Nil [of _ _ _ "[_]"]
    by (rule wp_mono [OF Cons.IH]) (use that in auto)
  with x show ?case by (simp add: un)
qed simp

text \<open>C36. Setting process limits goes through the fifteen resources in order, each with soft and
  hard limit both equal to the configured value, and to \<open>RLIM_INFINITY\<close> where none is configured;
  it stops at the first that fails and succeeds exactly if all fifteen do. Without configured
  limits no call is made.\<close>

theorem process_limits_set:
  "let tr = trace K w (set_process_limits exec)
   in case process_limits exec of
        None \<Rightarrow> tr = [] \<and> outcome_of K w (set_process_limits exec) = Done (Inr ())
      | Some l \<Rightarrow>
          prefix (calls tr) (map limit_call (limit_table l)) \<and>
          (outcome_of K w (set_process_limits exec) = Done (Inr ()) \<longleftrightarrow>
             length tr = 15 \<and> list_all (\<lambda>e. \<exists>r. snd e = Some r \<and> rc r \<noteq> -1) tr) \<and>
          distinct (map fst (limit_table l))"
proof (cases "process_limits exec")
  case (Some l)
  have "length (limit_table l) = 15" "distinct (map fst (limit_table l))"
    by (simp_all add: limit_table_def)
  with run_wp_post [OF wp_limits [of "limit_table l"], of K w] Some show ?thesis
    by (simp add: set_process_limits_loop Let_def)
qed (simp add: set_process_limits_def)

section \<open>Executing: properties\<close>

text \<open>The calls that \<open>confine\<close> makes and that all have to succeed.\<close>

definition confined :: "ExecutableSpec \<Rightarrow> event list \<Rightarrow> bool" where
  "confined exec tr \<longleftrightarrow>
     (\<exists>wd nnp sec app sig. tr = wd @ nnp @ sec @ app @ sig \<and>
        calls wd = (case working_directory exec of None \<Rightarrow> [] | Some d \<Rightarrow> [Fs (SetCurrentDir d)]) \<and>
        list_all event_ok wd \<and>
        calls nnp = (if no_new_privs exec then [Cred (Prctl PR_SET_NO_NEW_PRIVS 1 0 0 0)] else []) \<and>
        list_all event_zero nnp \<and>
        calls sec = (case seccomp exec of None \<Rightarrow> []
          | Some f \<Rightarrow> [Cred (SeccompSetFilter 1 1 (sock_fprog_len f) (instructions f))]) \<and>
        list_all event_zero sec \<and> (seccomp exec = None \<or> no_new_privs exec) \<and>
        (case apparmor exec of None \<Rightarrow> app = []
         | Some p \<Rightarrow> \<exists>fd r. last app = (Fs (WriteAll fd (''exec '' @ p)), Some r) \<and> \<not> failed r \<and>
             calls (butlast app) \<in> {[Fs (OpenWrite attr_exec_lsm)],
               [Fs (OpenWrite attr_exec_lsm), Fs (OpenWrite attr_exec_global)]}) \<and>
        calls sig = [Proc (SetSignal SIGPIPE SigDfl)] \<and> list_all event_ok sig)"

lemma succeeds_change_onexec:
  assumes "succeeds K w (change_onexec p) tr u w'"
  shows "\<exists>fd r. last tr = (Fs (WriteAll fd (''exec '' @ p)), Some r) \<and> \<not> failed r \<and>
     calls (butlast tr) \<in> {[Fs (OpenWrite attr_exec_lsm)],
       [Fs (OpenWrite attr_exec_lsm), Fs (OpenWrite attr_exec_global)]}"
  using assms by (auto simp: change_onexec_def Let_def succeeds_try split: if_splits)

lemma succeeds_no_new_privs:
  "succeeds K w (if b then set_no_new_privs else ok ()) tr u w' \<Longrightarrow>
   calls tr = (if b then [Cred (Prctl PR_SET_NO_NEW_PRIVS 1 0 0 0)] else []) \<and> list_all event_zero tr"
  by (auto simp: set_no_new_privs_def succeeds_try split: if_splits)

lemma succeeds_seccomp:
  "succeeds K w (case sc of None \<Rightarrow> ok () | Some flt \<Rightarrow>
      if \<not> b then fail e else install flt) tr u w' \<Longrightarrow>
   calls tr = (case sc of None \<Rightarrow> [] | Some f \<Rightarrow> [Cred (SeccompSetFilter 1 1 (sock_fprog_len f) (instructions f))]) \<and>
   list_all event_zero tr \<and> (sc = None \<or> b)"
  by (auto simp: install_def succeeds_try split: if_splits option.splits)

lemma succeeds_confine:
  assumes "succeeds K w (confine exec) tr u w'"
  shows "confined exec tr"
proof -
  from assms obtain wd u1 w1 nnp u2 w2 sec u3 w3 app u4 w4 sig where
    a: "succeeds K w (case working_directory exec of None \<Rightarrow> ok () | Some d \<Rightarrow> sys_unit (Fs (SetCurrentDir d))) wd u1 w1"
    and b: "succeeds K w1 (if no_new_privs exec then set_no_new_privs else ok ()) nnp u2 w2"
    and c: "succeeds K w2 (case seccomp exec of None \<Rightarrow> ok () | Some flt \<Rightarrow>
        if \<not> no_new_privs exec then fail (Msg ''seccomp filter requires no_new_privs = true'')
        else install flt) sec u3 w3"
    and d: "succeeds K w3 (case apparmor exec of None \<Rightarrow> ok () | Some p \<Rightarrow>
        map_err (Context ''failed to set AppArmor profile: '') (change_onexec p)) app u4 w4"
    and e: "succeeds K w4 reset_sigpipe sig u w'"
    and tr: "tr = wd @ nnp @ sec @ app @ sig"
    unfolding confine_def succeeds_try by auto
  have "calls wd = (case working_directory exec of None \<Rightarrow> [] | Some d \<Rightarrow> [Fs (SetCurrentDir d)]) \<and> list_all event_ok wd"
    using a by (cases "working_directory exec") auto
  moreover have "case apparmor exec of None \<Rightarrow> app = []
         | Some p \<Rightarrow> \<exists>fd r. last app = (Fs (WriteAll fd (''exec '' @ p)), Some r) \<and> \<not> failed r \<and>
             calls (butlast app) \<in> {[Fs (OpenWrite attr_exec_lsm)],
               [Fs (OpenWrite attr_exec_lsm), Fs (OpenWrite attr_exec_global)]}"
    using d by (cases "apparmor exec") (auto dest: succeeds_change_onexec simp del: insert_iff)
  moreover have "calls sig = [Proc (SetSignal SIGPIPE SigDfl)] \<and> list_all event_ok sig"
    using e by (auto simp: reset_sigpipe_def set_signal_def)
  ultimately show ?thesis
    unfolding confined_def using tr succeeds_no_new_privs [OF b] succeeds_seccomp [OF c] by blast
qed

definition is_exec :: "syscall \<Rightarrow> bool" where
  "is_exec s = (case s of Proc (Execvpe p a e) \<Rightarrow> True | _ \<Rightarrow> False)"

lemma is_exec_simps [simp]:
  "is_exec (Proc (Execvpe p a e))" "\<not> is_exec (Fs x)" "\<not> is_exec (Cred c)"
  "\<not> is_exec (Proc (SetSignal sg d))"
  by (simp_all add: is_exec_def)

lemma only_calls_confine: "only_calls (\<lambda>s. \<not> is_exec s) (confine exec)"
  by (auto simp: confine_def set_no_new_privs_def install_def change_onexec_def reset_sigpipe_def
      set_signal_def Let_def split: option.splits intro!: only_calls_try only_calls_map_err)

text \<open>The strings given to \<open>execve\<close>.\<close>

definition exec_args :: "ExecutableSpec \<Rightarrow> string list" where
  "exec_args exec = (case arguments exec of None \<Rightarrow> [] | Some args \<Rightarrow> args)"

definition exec_env :: "ExecutableSpec \<Rightarrow> string list" where
  "exec_env exec = (case environment exec of None \<Rightarrow> [] | Some env \<Rightarrow> env_strings env)"

definition no_nul :: "string list \<Rightarrow> bool" where
  "no_nul xs = list_all (\<lambda>x. CHR 0x00 \<notin> set x) xs"

lemma execute_cases:
  "execute exec =
     (case executable exec of
        None \<Rightarrow> fail (Msg ''no executable configured for the workload to run'')
      | Some prog \<Rightarrow>
          if no_nul (prog # exec_args exec) \<and> no_nul (exec_env exec) then
            try_io (confine exec) (\<lambda>_.
            try_io (sys (Proc (Execvpe prog (prog # exec_args exec) (exec_env exec)))) (\<lambda>r.
            if failed r then
              fail (Hint (Context (''failed to execute '' @ [CHR 0x27] @ prog @ [CHR 0x27] @ '': '')
               (OsError (errno r))) (exec_hint prog (errno r)))
            else ok ()))
          else fail NulError)"
  by (cases "executable exec")
    (auto simp: execute_def cstring_new_def collect_cstrings_eq no_nul_def exec_args_def exec_env_def)

lemma execute_reached:
  assumes "trace K w (execute exec) = pre @ (Proc (Execvpe prog args env), r) # post"
  shows "post = [] \<and> executable exec = Some prog \<and> args = prog # exec_args exec \<and>
    env = exec_env exec \<and> confined exec pre"
proof (cases "executable exec")
  case (Some p)
  show ?thesis
  proof (cases "no_nul (p # exec_args exec) \<and> no_nul (exec_env exec)")
    case True
    define rest where "rest = (\<lambda>_ :: unit.
            try_io (sys (Proc (Execvpe p (p # exec_args exec) (exec_env exec)))) (\<lambda>r.
            if failed r then
              (fail (Hint (Context (''failed to execute '' @ [CHR 0x27] @ p @ [CHR 0x27] @ '': '')
               (OsError (errno r))) (exec_hint p (errno r))) :: unit io)
            else ok ()))"
    have ex: "execute exec = try_io (confine exec) rest"
      using Some True by (simp add: execute_cases rest_def)
    have no: "\<not> is_exec s" if "(s, q) \<in> set (trace K w (confine exec))" for s q
      using only_calls_trace [OF only_calls_confine that] .
    show ?thesis
    proof (cases rule: try_cases [of K w "confine exec" rest])
      case (go_on u w1)
      obtain q w2 where kw: "K w1 (Proc (Execvpe p (p # exec_args exec) (exec_env exec))) = (q, w2)"
        by (cases "K w1 (Proc (Execvpe p (p # exec_args exec) (exec_env exec)))")
      then have q: "trace K w1 (rest u) = [(Proc (Execvpe p (p # exec_args exec) (exec_env exec)), q)]"
        by (cases q) (simp_all add: rest_def sys_def)
      have "(Proc (Execvpe prog args env), r) \<notin> set (trace K w (confine exec))"
        using no by fastforce
      with assms go_on(2) q ex have "pre = trace K w (confine exec) \<and> post = [] \<and>
          (Proc (Execvpe prog args env), r) = (Proc (Execvpe p (p # exec_args exec) (exec_env exec)), q)"
        by (auto simp: append_eq_append_conv2 append_eq_Cons_conv Cons_eq_append_conv)
      with Some succeeds_confine [OF go_on(1)] show ?thesis by simp
    next
      case stop
      with assms ex have "(Proc (Execvpe prog args env), r) \<in> set (trace K w (confine exec))" by simp
      with no show ?thesis by fastforce
    qed
  next
    case False
    with assms Some show ?thesis by (auto simp: execute_cases)
  qed
qed (use assms in \<open>simp add: execute_cases\<close>)

text \<open>Whenever the workload is executed, by any run against any kernel, it is the last call of
  the run; the program and its arguments and environment are the configured ones, with the program
  as argument 0; and everything that confines it has been done and has succeeded, in this order:
  the change of directory, \<open>no_new_privs\<close>, the seccomp filter (never without \<open>no_new_privs\<close>), the
  AppArmor profile, and the reset of \<open>SIGPIPE\<close>. Nothing else was called before.\<close>

theorem execute_confined:
  assumes "trace K w (execute exec) = pre @ (Proc (Execvpe prog args env), r) # post"
  shows "post = [] \<and> executable exec = Some prog \<and> args = prog # exec_args exec \<and>
    env = exec_env exec \<and> confined exec pre"
  using assms by (rule execute_reached)

text \<open>A web server with a filter and a profile, on a kernel where all goes well.\<close>

definition web_exec :: ExecutableSpec where
  "web_exec = ExecutableSpec_default\<lparr>executable := Some ''httpd'', arguments := Some [''-f''],
     environment := Some [(''A'', ''1'')], no_new_privs := True,
     seccomp := Some \<lparr>instructions = [(6, 0, 0, 0)]\<rparr>, apparmor := Some ''web''\<rparr>"

definition good_kernel :: "unit kernel" where
  "good_kernel = scripted is_exec (\<lambda>_. reply0)"

theorem execute_confined_witness:
  "\<exists>pre. trace good_kernel () (execute web_exec) =
       pre @ [(Proc (Execvpe ''httpd'' [''httpd'', ''-f''] [''A=1'']), None)] \<and> confined web_exec pre"
proof -
  let ?pre = "[(Cred (Prctl PR_SET_NO_NEW_PRIVS 1 0 0 0), Some reply0),
      (Cred (SeccompSetFilter 1 1 1 [(6, 0, 0, 0)]), Some reply0),
      (Fs (OpenWrite attr_exec_lsm), Some reply0), (Fs (WriteAll 0 ''exec web''), Some reply0),
      (Proc (SetSignal SIGPIPE SigDfl), Some reply0)]"
  have t: "trace good_kernel () (execute web_exec) =
      ?pre @ (Proc (Execvpe ''httpd'' [''httpd'', ''-f''] [''A=1'']), None) # []"
    by (simp add: execute_def confine_def web_exec_def ExecutableSpec_default_def good_kernel_def
        scripted_def cstring_new_def env_strings_def set_no_new_privs_def install_def
        sock_fprog_len_def change_onexec_def Let_def reset_sigpipe_def set_signal_def sys_def
        sys_res_def sys_unit_def reply0_def)
  from execute_confined [OF this] t show ?thesis by auto
qed

text \<open>The error that a call ends the execution with, given its reply: none if the execution goes on.\<close>

definition call_error :: "string \<Rightarrow> syscall \<Rightarrow> reply \<Rightarrow> error option" where
  "call_error prog s r =
     (case s of
        Fs (SetCurrentDir d) \<Rightarrow> if failed r then Some (OsError (errno r)) else None
      | Cred (Prctl o1 a b c d) \<Rightarrow>
          if rc r \<noteq> 0 then Some (Context ''failed to set no_new_privs flag: '' (OsError (errno r))) else None
      | Cred (SeccompSetFilter o1 f n is) \<Rightarrow> if rc r \<noteq> 0 then Some (OsError (errno r)) else None
      | Fs (OpenWrite p) \<Rightarrow>
          if failed r \<and> \<not> (p = attr_exec_lsm \<and> errno r = ENOENT)
          then Some (Context ''failed to set AppArmor profile: '' (OsError (errno r))) else None
      | Fs (WriteAll fd t) \<Rightarrow>
          if failed r then Some (Context ''failed to set AppArmor profile: '' (OsError (errno r))) else None
      | Proc (SetSignal sg d) \<Rightarrow>
          if failed r then Some (Context ''Failed to reset SIGPIPE handler: '' (OsError (errno r))) else None
      | Proc (Execvpe p a e) \<Rightarrow>
          if failed r then
            Some (Hint (Context (''failed to execute '' @ [CHR 0x27] @ prog @ [CHR 0x27] @ '': '') (OsError (errno r)))
              (exec_hint prog (errno r)))
          else None
      | _ \<Rightarrow> None)"

lemma call_error_simps [simp]:
  "call_error prog (Fs (SetCurrentDir d)) r = (if failed r then Some (OsError (errno r)) else None)"
  "call_error prog (Cred (Prctl o1 a b c e)) r =
     (if rc r \<noteq> 0 then Some (Context ''failed to set no_new_privs flag: '' (OsError (errno r))) else None)"
  "call_error prog (Cred (SeccompSetFilter o2 f n is)) r = (if rc r \<noteq> 0 then Some (OsError (errno r)) else None)"
  "call_error prog (Fs (OpenWrite p)) r =
     (if failed r \<and> \<not> (p = attr_exec_lsm \<and> errno r = ENOENT)
      then Some (Context ''failed to set AppArmor profile: '' (OsError (errno r))) else None)"
  "call_error prog (Fs (WriteAll fd t)) r =
     (if failed r then Some (Context ''failed to set AppArmor profile: '' (OsError (errno r))) else None)"
  "call_error prog (Proc (SetSignal sg dp)) r =
     (if failed r then Some (Context ''Failed to reset SIGPIPE handler: '' (OsError (errno r))) else None)"
  "call_error prog (Proc (Execvpe q args env)) r =
     (if failed r then
        Some (Hint (Context (''failed to execute '' @ [CHR 0x27] @ prog @ [CHR 0x27] @ '': '') (OsError (errno r)))
          (exec_hint prog (errno r)))
      else None)"
  by (simp_all add: call_error_def)

text \<open>What the execution ends with, read off its last call: that of \<open>call_error\<close> if it has one, else the
  refusal of a filter without \<open>no_new_privs\<close> where the calls stop before it, else success.\<close>

definition verdict :: "string \<Rightarrow> event list \<Rightarrow> unit result outcome" where
  "verdict prog tr =
     (case (if tr = [] then None else Some (last tr)) of
        Some (s, None) \<Rightarrow> Gone
      | Some (s, Some r) \<Rightarrow>
          (case call_error prog s r of
             Some e \<Rightarrow> Done (Inl e)
           | None \<Rightarrow> if is_exec s then Done (Inr ()) else Done (Inl (Msg ''seccomp filter requires no_new_privs = true'')))
      | None \<Rightarrow> Done (Inl (Msg ''seccomp filter requires no_new_privs = true'')))"

definition goes_on :: "string \<Rightarrow> event \<Rightarrow> bool" where
  "goes_on prog e \<longleftrightarrow> (\<exists>r. snd e = Some r \<and> call_error prog (fst e) r = None \<and> \<not> is_exec (fst e))"

lemma goes_on_simps [simp]:
  "goes_on prog (s, Some r) \<longleftrightarrow> call_error prog s r = None \<and> \<not> is_exec s" "\<not> goes_on prog (s, None)"
  by (simp_all add: goes_on_def)

lemma verdict_simps [simp]:
  "verdict prog [] = Done (Inl (Msg ''seccomp filter requires no_new_privs = true''))"
  "t \<noteq> [] \<Longrightarrow> verdict prog (tr @ t) = verdict prog t"
  "verdict prog (x # y # tr) = verdict prog (y # tr)"
  "verdict prog [(s, None)] = Gone"
  "verdict prog [(s, Some r)] =
     (case call_error prog s r of
        Some e \<Rightarrow> Done (Inl e)
      | None \<Rightarrow> if is_exec s then Done (Inr ()) else Done (Inl (Msg ''seccomp filter requires no_new_privs = true'')))"
  by (simp_all add: verdict_def)

text \<open>A run that goes on until a call that has an error, never returns, or is the execution.\<close>

definition runs_through :: "string \<Rightarrow> event list \<Rightarrow> unit result outcome \<Rightarrow> bool" where
  "runs_through prog tr out \<longleftrightarrow>
     out = verdict prog tr \<and> list_all (goes_on prog) (butlast tr) \<and> tr \<noteq> [] \<and> \<not> goes_on prog (last tr)"

lemma runs_through_simps [simp]:
  "t \<noteq> [] \<Longrightarrow> runs_through prog (tr @ t) out \<longleftrightarrow> list_all (goes_on prog) tr \<and> runs_through prog t out"
  "runs_through prog (e # e' # tr) out \<longleftrightarrow> goes_on prog e \<and> runs_through prog (e' # tr) out"
  "runs_through prog [e] out \<longleftrightarrow> out = verdict prog [e] \<and> \<not> goes_on prog e"
  by (auto simp: runs_through_def butlast_append)

text \<open>A step whose errors are those of its calls; such steps compose.\<close>

definition carries :: "string \<Rightarrow> unit io \<Rightarrow> bool" where
  "carries prog m \<longleftrightarrow> (\<forall>tr rest. list_all (goes_on prog) tr \<longrightarrow>
     (\<forall>tr'. list_all (goes_on prog) tr' \<longrightarrow> wp (\<lambda>_ _. True) (runs_through prog) rest tr') \<longrightarrow>
     wp (\<lambda>_ _. True) (runs_through prog) (try_io m (\<lambda>_. rest)) tr)"

lemma carries_try: "carries prog m \<Longrightarrow> carries prog m' \<Longrightarrow> carries prog (try_io m (\<lambda>_. m'))"
  by (simp add: carries_def)

lemma carries_ok: "carries prog (ok ())"
  by (simp add: carries_def)

lemma carries_steps:
  "carries prog (sys_unit (Fs (SetCurrentDir d)))" "carries prog set_no_new_privs" "carries prog (install f)"
  "carries prog reset_sigpipe"
  by (auto simp: carries_def sys_unit_def set_no_new_privs_def install_def sys_def reset_sigpipe_def set_signal_def)

lemma carries_profile: "carries prog (map_err (Context ''failed to set AppArmor profile: '') (change_onexec p))"
proof -
  have "attr_exec_global \<noteq> attr_exec_lsm" by (simp add: attr_exec_global_def attr_exec_lsm_def)
  then show ?thesis
    by (auto simp: carries_def change_onexec_def Let_def sys_def sys_res_def sys_unit_def)
qed

lemma carries_confine:
  assumes "seccomp exec = None \<or> no_new_privs exec"
  shows "carries prog (confine exec)"
  unfolding confine_def using assms
  by (intro carries_try) (auto simp: carries_steps carries_profile carries_ok split: option.split)

definition refusals :: "ExecutableSpec \<Rightarrow> event list \<Rightarrow> unit result outcome \<Rightarrow> bool" where
  "refusals exec tr out \<longleftrightarrow>
     (case executable exec of
        None \<Rightarrow> tr = [] \<and> out = Done (Inl (Msg ''no executable configured for the workload to run''))
      | Some prog \<Rightarrow>
          if \<not> no_nul (prog # exec_args exec @ exec_env exec) then tr = [] \<and> out = Done (Inl NulError)
          else if seccomp exec \<noteq> None \<and> \<not> no_new_privs exec
          then out = verdict prog tr \<and> calls tr = (case working_directory exec of None \<Rightarrow> [] | Some d \<Rightarrow> [Fs (SetCurrentDir d)])
          else runs_through prog tr out)"

text \<open>C27. What \<open>execute\<close> ends with, on every branch. Without an executable, or with a NUL byte in the
  program, an argument or an environment entry, it fails with that error and without any call. Else it
  goes on from call to call as long as none has an error (an AppArmor node that does not exist is none),
  and ends with the first call that has one, with exactly the error of \<open>call_error\<close>: the error of the
  change of directory and of the filter as it is, those of \<open>no_new_privs\<close>, the profile, \<open>SIGPIPE\<close> and
  \<open>execvpe\<close> under their messages, the last with the hint for its \<open>errno\<close>. A filter without
  \<open>no_new_privs\<close> is refused with its message and nothing but the change of directory is called; without
  such a refusal the run does not stop before a call that has an error, or the execution itself.\<close>

theorem execute_refuses: "refusals exec (trace K w (execute exec)) (outcome_of K w (execute exec))"
proof (cases "executable exec")
  case None
  then show ?thesis by (simp add: refusals_def execute_cases)
next
  case (Some p)
  show ?thesis
  proof (cases "no_nul (p # exec_args exec @ exec_env exec)")
    case True
    then have nul: "no_nul (p # exec_args exec) \<and> no_nul (exec_env exec)" by (simp add: no_nul_def)
    have "wp (\<lambda>_ _. True) (refusals exec) (execute exec) []"
    proof (cases "seccomp exec \<noteq> None \<and> \<not> no_new_privs exec")
      case refused: True
      then show ?thesis
        using nul True Some
        by (cases "working_directory exec") (auto simp: execute_cases confine_def sys_unit_def refusals_def)
    next
      case False
      have Q: "refusals exec = runs_through p" using Some True False by (auto simp: refusals_def fun_eq_iff)
      have "carries p (confine exec)" using False by (intro carries_confine) auto
      then show ?thesis
        unfolding Q using nul Some by (simp add: execute_cases carries_def sys_def)
    qed
    then show ?thesis by (rule run_wp_post)
  next
    case False
    then have "\<not> (no_nul (p # exec_args exec) \<and> no_nul (exec_env exec))" by (auto simp: no_nul_def)
    with Some False show ?thesis by (auto simp: refusals_def execute_cases)
  qed
qed

end
