(* ===== verification/Console.thy ===== *)
theory Console
  imports Mounts
begin

text \<open>
  \<open>setup_console\<close> of \<open>src/wrap.rs\<close>: the terminal of the workload is bound over \<open>/dev/console\<close>
  and handed to the workload's user. The properties show which failures are tolerated.
\<close>

fun find_tty :: "int list \<Rightarrow> int option io" where
  "find_tty [] = ok None"
| "find_tty (fd # fds) =
     try_io (sys (Sys (IsATty fd))) (\<lambda>r. if rc r = 1 then ok (Some fd) else find_tty fds)"

definition console_mount :: "string \<Rightarrow> MountSpec" where
  "console_mount pts_path = \<lparr>ms_source = Some pts_path, ms_target = ''/dev/console'',
     ms_fstype = None, ms_bind = True, ms_recurse = False, ms_unshare = False, ms_safe = False,
     ms_create_mountpoint = False, ms_read_only = False, ms_data = None\<rparr>"

definition chown_console :: "int \<Rightarrow> u32 \<Rightarrow> unit io" where
  "chown_console tty_fd exec_uid =
     try_io (sys (Sys (Fchown tty_fd exec_uid (- 1)))) (\<lambda>r.
     if failed r \<and> errno r \<noteq> EPERM \<and> errno r \<noteq> EROFS then
       fail (Context (''failed to chown workload console to uid '' @ show_nat (unat exec_uid) @ '': '')
         (OsError (errno r)))
     else ok ())"

text \<open>An empty file to bind over, where \<open>/dev/console\<close> does not exist.\<close>

definition console_stub :: "unit io" where
  "console_stub =
     try_io (sys (Fs (PathExists ''/dev/console''))) (\<lambda>r.
     if failed r then
       map_err (Context ''could not create /dev/console stub'') (sys_unit (Fs (CreateFile ''/dev/console'')))
     else ok ())"

definition setup_console :: "u32 option \<Rightarrow> unit io" where
  "setup_console uid =
     (case uid of
        None \<Rightarrow> ok ()
      | Some exec_uid \<Rightarrow>
          try_io (find_tty [0, 1, 2]) (\<lambda>tty. case tty of
            None \<Rightarrow> ok ()
          | Some tty_fd \<Rightarrow>
              try_io (map_err (Context ''could not read TTY FD'')
                (sys_res (Fs (ReadLink (''/proc/self/fd/'' @ show_int tty_fd))))) (\<lambda>pts.
              try_io console_stub (\<lambda>_.
              try_io (map_err (Context ''failed to bind-mount /dev/console'')
                (mount (console_mount (contents pts)))) (\<lambda>_.
              chown_console tty_fd exec_uid)))))"

text \<open>\<open>isatty\<close> has said no.\<close>

definition not_tty :: "event \<Rightarrow> bool" where
  "not_tty e \<longleftrightarrow> (\<exists>r. snd e = Some r \<and> rc r \<noteq> 1)"

lemma succeeds_find_tty:
  "succeeds K w (find_tty fds) tr t w' \<Longrightarrow>
     (case t of None \<Rightarrow> calls tr = map (\<lambda>fd. Sys (IsATty fd)) fds \<and> list_all not_tty tr
      | Some fd \<Rightarrow> \<exists>before after no r. fds = before @ fd # after \<and> tr = no @ [(Sys (IsATty fd), Some r)] \<and> rc r = 1 \<and>
          calls no = map (\<lambda>fd. Sys (IsATty fd)) before \<and> list_all not_tty no)"
proof (induction fds arbitrary: w tr)
  case (Cons fd fds)
  from Cons.prems obtain r w1 where kw: "K w (Sys (IsATty fd)) = (Some r, w1)"
    and rest: "if rc r = 1 then t = Some fd \<and> tr = [(Sys (IsATty fd), Some r)]
      else \<exists>t2. tr = (Sys (IsATty fd), Some r) # t2 \<and> succeeds K w1 (find_tty fds) t2 t w'"
    by (auto simp: succeeds_try split: if_splits)
  show ?case
  proof (cases "rc r = 1")
    case True
    with rest show ?thesis by auto
  next
    case False
    then have no: "not_tty (Sys (IsATty fd), Some r)" by (simp add: not_tty_def)
    from False rest obtain t2 where t2: "tr = (Sys (IsATty fd), Some r) # t2" "succeeds K w1 (find_tty fds) t2 t w'"
      by auto
    show ?thesis
    proof (cases t)
      case None
      with Cons.IH [OF t2(2)] t2(1) no show ?thesis by simp
    next
      case (Some y)
      with Cons.IH [OF t2(2)] obtain before after no' r' where "fds = before @ y # after"
        "t2 = no' @ [(Sys (IsATty y), Some r')]" "rc r' = 1" "calls no' = map (\<lambda>fd. Sys (IsATty fd)) before"
        "list_all not_tty no'" by auto
      with Some t2(1) no show ?thesis
        by (simp, intro exI [of _ "fd # before"] exI [of _ "(Sys (IsATty fd), Some r) # no'"]) simp
    qed
  qed
qed auto

lemma succeeds_console_stub:
  assumes "succeeds K w console_stub tr u w'"
  shows "\<exists>ex mk. tr = (Fs (PathExists ''/dev/console''), Some ex) # mk \<and>
     calls mk = (if failed ex then [Fs (CreateFile ''/dev/console'')] else [])"
  using assms by (auto simp: console_stub_def succeeds_try split: if_splits)

lemma succeeds_chown_console:
  assumes "succeeds K w (chown_console fd u) tr x w'"
  shows "\<exists>r. tr = [(Sys (Fchown fd u (- 1)), Some r)] \<and> (\<not> failed r \<or> errno r = EPERM \<or> errno r = EROFS)"
  using assms by (auto simp: chown_console_def succeeds_try split: if_splits)

text \<open>The calls once a terminal is found.\<close>

lemma succeeds_console_on:
  assumes "succeeds K w (try_io (map_err (Context ''could not read TTY FD'')
        (sys_res (Fs (ReadLink (''/proc/self/fd/'' @ show_int fd))))) (\<lambda>pts.
      try_io console_stub (\<lambda>_.
      try_io (map_err (Context ''failed to bind-mount /dev/console'') (mount (console_mount (contents pts)))) (\<lambda>_.
      chown_console fd u)))) tr () w'"
  shows "\<exists>pts ex mk mnt r.
    tr = (Fs (ReadLink (''/proc/self/fd/'' @ show_int fd)), Some pts) #
      (Fs (PathExists ''/dev/console''), Some ex) # mk @ mnt @ [(Sys (Fchown fd u (- 1)), Some r)] \<and>
    calls mk = (if failed ex then [Fs (CreateFile ''/dev/console'')] else []) \<and>
    mounted (console_mount (contents pts)) mnt \<and>
    (\<not> failed r \<or> errno r = EPERM \<or> errno r = EROFS)"
proof -
  from assms obtain pts w2 stub w3 mnt w4 ch where
    tr: "tr = (Fs (ReadLink (''/proc/self/fd/'' @ show_int fd)), Some pts) # stub @ mnt @ ch"
    and stub: "succeeds K w2 console_stub stub () w3"
    and mnt: "succeeds K w3 (mount (console_mount (contents pts))) mnt () w4"
    and ch: "succeeds K w4 (chown_console fd u) ch () w'"
    unfolding succeeds_try succeeds_map_err succeeds_sys by auto
  obtain ex mk where ex: "stub = (Fs (PathExists ''/dev/console''), Some ex) # mk"
    and mk: "calls mk = (if failed ex then [Fs (CreateFile ''/dev/console'')] else [])"
    using succeeds_console_stub [OF stub] by blast
  obtain r where r: "ch = [(Sys (Fchown fd u (- 1)), Some r)]" "\<not> failed r \<or> errno r = EPERM \<or> errno r = EROFS"
    using succeeds_chown_console [OF ch] by blast
  show ?thesis
    by (rule exI [of _ pts], rule exI [of _ ex], rule exI [of _ mk], rule exI [of _ mnt], rule exI [of _ r])
      (use tr ex mk r succeeds_mount [OF mnt] in simp)
qed

section \<open>Properties\<close>


text \<open>A console on descriptor 1, and a \<open>/dev\<close> that cannot be written.\<close>

definition tty1_kernel :: "unit kernel" where
  "tty1_kernel = scripted (\<lambda>_. False) (\<lambda>s.
     if s = Sys (IsATty 1) then reply0\<lparr>rc := 1\<rparr>
     else if s = Fs (ReadLink ''/proc/self/fd/1'') then reply0\<lparr>contents := ''/dev/pts/7''\<rparr>
     else if s = Sys (Fchown 1 1000 (- 1)) then reply0\<lparr>rc := -1, errno := EROFS\<rparr>
     else reply0)"


end
