(* ===== verification/CreateWrap.thy ===== *)
theory CreateWrap
  imports PivotFs Privileges ExecSpec Console
begin

text \<open>
  \<open>CreateRequest::wrap\<close> of \<open>src/wrap.rs\<close>: what is done before the fork, the supervisor after it,
  and the child up to the \<open>execve\<close>. Each side is a program of its own, given the two event
  counters; \<open>Handshake\<close> puts the two together.
\<close>

section \<open>Namespaces\<close>

definition default_ns :: "Namespace list" where
  "default_ns = [Mount, Time, Uts, Pid, Ipc, User]"

definition target_ns :: "Namespace list option \<Rightarrow> Namespace list" where
  "target_ns nss = (case nss of Some n \<Rightarrow> n | None \<Rightarrow> default_ns)"

definition skips_two_stage :: "CreateRequest \<Rightarrow> bool" where
  "skips_two_stage req = (case cr_skip_two_stage_userns req of Some b \<Rightarrow> b | None \<Rightarrow> False)"

definition first_level_ns :: "CreateRequest \<Rightarrow> Namespace list" where
  "first_level_ns req =
     (let tns = target_ns (cr_namespaces req) in
      if \<not> skips_two_stage req then filter (\<lambda>ns. ns \<noteq> User) tns else tns)"

section \<open>The supervisor\<close>

definition userns_pid :: "CreateRequest \<Rightarrow> int \<Rightarrow> int" where
  "userns_pid req child =
     (if \<not> skips_two_stage req \<and> Pid \<in> set (target_ns (cr_namespaces req)) then 1 else child)"

definition supervise :: "nat \<Rightarrow> CreateRequest \<Rightarrow> int \<Rightarrow> int \<Rightarrow> int \<Rightarrow> unit io" where
  "supervise fuel req child parent_efd child_efd =
     try_io (store_child_pid child) (\<lambda>_.
     try_io (sys_unit (Proc (EventFdRead parent_efd))) (\<lambda>_.
     try_io (if User \<in> set (target_ns (cr_namespaces req))
             then prepare_userns req (userns_pid req child) else ok ()) (\<lambda>_.
     try_io (sys_unit (Proc (EventFdWrite child_efd 1))) (\<lambda>_.
     try_io (wait_for_pid child) (\<lambda>exitcode.
     try_io (reap_children fuel) (\<lambda>_.
     Halt exitcode))))))"

section \<open>The child\<close>

definition maybe_pivot :: "CreateRequest \<Rightarrow> unit io" where
  "maybe_pivot req = (if Mount \<in> set (target_ns (cr_namespaces req)) then pivot_fs req else ok ())"

text \<open>What the child does before it signals the supervisor, and after it has been released.\<close>

definition child_before :: "CreateRequest \<Rightarrow> unit io" where
  "child_before req =
     try_io (exit_on_err reset_child_signal_handlers) (\<lambda>_.
     if \<not> skips_two_stage req then
       try_io (maybe_pivot req) (\<lambda>_.
       if User \<in> set (target_ns (cr_namespaces req)) then unshare [User] else ok ())
     else ok ())"

definition set_oom_score :: "ExecutableSpec \<Rightarrow> unit io" where
  "set_oom_score exec =
     (case oom_score_adj exec of
        None \<Rightarrow> ok ()
      | Some score \<Rightarrow> sys_unit (Fs (WriteFile ''/proc/self/oom_score_adj'' (show_int score))))"

definition child_after :: "CreateRequest \<Rightarrow> unit io" where
  "child_after req =
     try_io (if skips_two_stage req then maybe_pivot req else ok ()) (\<lambda>_.
     try_io (set_oom_score (cr_exec req)) (\<lambda>_.
     try_io (setup_console (ex_uid (cr_exec req))) (\<lambda>_.
     preexec_prep (cr_exec req) (cr_capabilities req))))"

definition child_side :: "CreateRequest \<Rightarrow> int \<Rightarrow> int \<Rightarrow> unit io" where
  "child_side req parent_efd child_efd =
     try_io (child_before req) (\<lambda>_.
     try_io (sys_unit (Proc (EventFdWrite parent_efd 2))) (\<lambda>_.
     try_io (sys_unit (Proc (EventFdRead child_efd))) (\<lambda>_.
     try_io (child_after req) (\<lambda>_.
     execute (cr_exec req)))))"

section \<open>The whole\<close>

definition before_fork :: "CreateRequest \<Rightarrow> unit io" where
  "before_fork req =
     try_io (warn_on_err (prepare_cgroup req)) (\<lambda>_.
     try_io (unshare (first_level_ns req)) (\<lambda>_.
     try_io (warn_on_err update_boottime) (\<lambda>_.
     try_io (warn_on_err (update_hostname req)) (\<lambda>_.
     try_io (warn_on_err (set_process_limits (cr_exec req))) (\<lambda>_.
     exit_on_err setup_parent_signal_handlers)))))"

definition create_wrap :: "nat \<Rightarrow> CreateRequest \<Rightarrow> unit io" where
  "create_wrap fuel req =
     try_io (before_fork req) (\<lambda>_.
     try_io (sys_res (Proc (EventFdNew 0 True))) (\<lambda>parent_efd.
     try_io (sys_res (Proc (EventFdNew 0 True))) (\<lambda>child_efd.
     try_io (sys_res (Proc Fork)) (\<lambda>r.
     if rc r \<noteq> 0 then supervise fuel req (rc r) (rc parent_efd) (rc child_efd)
     else child_side req (rc parent_efd) (rc child_efd)))))"

section \<open>No early execution\<close>

text \<open>The calls by which the two processes wait for each other, and the execution; all other calls
  of both sides are quiet.\<close>

definition is_sync :: "syscall \<Rightarrow> bool" where
  "is_sync s =
     (case s of
        Proc p \<Rightarrow> (case p of Execvpe _ _ _ \<Rightarrow> True | EventFdRead _ \<Rightarrow> True | EventFdWrite _ _ \<Rightarrow> True
          | Waitpid (ChildPid _) _ \<Rightarrow> True | _ \<Rightarrow> False)
      | _ \<Rightarrow> False)"

lemma is_sync_simps [simp]:
  "is_sync (Proc (Execvpe prog args env))" "is_sync (Proc (EventFdRead fd))"
  "is_sync (Proc (EventFdWrite fd k))" "is_sync (Proc (Waitpid (ChildPid pid) b))"
  "\<not> is_sync (Fs fs)" "\<not> is_sync (Cred cr)" "\<not> is_sync (Mnt mn)" "\<not> is_sync (Ns ns)" "\<not> is_sync (Sys sy)"
  "\<not> is_sync (Proc GetPid)" "\<not> is_sync (Proc Fork)" "\<not> is_sync (Proc (SetSignal sg d))"
  "\<not> is_sync (Proc (Waitpid AnyChild b))" "\<not> is_sync (Proc (StoreChildPid pid))"
  "\<not> is_sync (Proc (EventFdNew u b))"
  by (simp_all add: is_sync_def)

lemma is_exec_more [simp]:
  "\<not> is_exec (Mnt m)" "\<not> is_exec (Ns n)" "\<not> is_exec (Sys y)" "\<not> is_exec (Proc GetPid)"
  "\<not> is_exec (Proc Fork)" "\<not> is_exec (Proc (Waitpid t b))" "\<not> is_exec (Proc (StoreChildPid p))"
  "\<not> is_exec (Proc (EventFdNew u b))" "\<not> is_exec (Proc (EventFdRead f))"
  "\<not> is_exec (Proc (EventFdWrite f k))"
  by (simp_all add: is_exec_def)

lemma no_exec_of_sync: "only_calls (\<lambda>s. \<not> is_sync s) p \<Longrightarrow> only_calls (\<lambda>s. \<not> is_exec s) p"
  by (erule only_calls_mono) (auto simp: is_sync_def is_exec_def split: syscall.splits proc_call.splits)

text \<open>The calls by which the root and the console are made: they touch neither the other process nor
  the process's own signals, namespaces or credentials.\<close>

definition plain_call :: "syscall \<Rightarrow> bool" where
  "plain_call s = (case s of Fs f \<Rightarrow> True | Mnt m \<Rightarrow> True | Sys y \<Rightarrow> True | Proc p \<Rightarrow> p = GetPid | _ \<Rightarrow> False)"

lemma plain_call_simps [simp]:
  "plain_call (Fs f)" "plain_call (Mnt m)" "plain_call (Sys y)" "plain_call (Proc GetPid)"
  by (simp_all add: plain_call_def)

lemma no_sync_of_plain: "only_calls plain_call p \<Longrightarrow> only_calls (\<lambda>s. \<not> is_sync s) p"
  by (erule only_calls_mono) (auto simp: plain_call_def is_sync_def split: syscall.splits proc_call.splits)

lemma plain_basic:
  "only_calls plain_call (mount ms)" "only_calls plain_call (seal ms)"
  "only_calls plain_call (pivot ms)"
proof -
  have "is_mkdir s \<or> is_mount s \<Longrightarrow> plain_call s" for s
    by (auto simp: is_mkdir_def is_mount_def plain_call_def split: syscall.splits)
  with only_calls_mount show "only_calls plain_call (mount ms)" by (rule only_calls_mono)
  show "only_calls plain_call (seal ms)"
    by (auto simp: seal_def open_tree_def mount_setattr_fd_def mount_setattr_def plain_call_def
        intro!: only_calls_try split: option.splits)
  show "only_calls plain_call (pivot ms)"
    by (auto simp: pivot_def plain_call_def intro!: only_calls_try only_calls_map_err)
qed

lemma plain_assemble: "only_calls plain_call (assemble_root req)"
proof -
  have h: "only_calls plain_call (mask_path r p)" "only_calls plain_call (make_readonly r p)" for r p
    by (auto simp: mask_path_def make_readonly_def Let_def plain_basic intro!: only_calls_try)
  have i: "only_calls plain_call (create_identity req)"
    by (auto simp: create_identity_def identity_of_def get_pid_def intro!: only_calls_try)
  have "only_calls plain_call (populate req r)" for r
    unfolding populate_def
    by (intro only_calls_try only_calls_for only_calls_map_err)
      (auto simp: plain_basic h mutate_def intro!: only_calls_map_err split: Mutation.splits)
  then show ?thesis
    unfolding assemble_root_def stage_root_def Let_def
    by (auto simp: plain_basic i split: option.splits intro!: only_calls_try only_calls_map_err)
qed

lemma plain_pivot_fs: "only_calls plain_call (maybe_pivot req)"
  unfolding maybe_pivot_def pivot_fs_def
  by (auto simp: plain_basic plain_assemble intro!: only_calls_try only_calls_map_err)

lemma plain_console: "only_calls plain_call (setup_console uid)"
proof -
  have "only_calls plain_call (find_tty fds)" for fds
    by (induction fds) (auto intro!: only_calls_try)
  then show ?thesis
    by (auto simp: setup_console_def console_stub_def chown_console_def plain_basic
        split: option.splits intro!: only_calls_try only_calls_map_err)
qed

lemmas no_sync_pivot_fs = no_sync_of_plain [OF plain_pivot_fs]
lemmas no_sync_console = no_sync_of_plain [OF plain_console]

lemma no_sync_handlers: "only_calls (\<lambda>s. \<not> is_sync s) (exit_on_err setup_parent_signal_handlers)"
    "only_calls (\<lambda>s. \<not> is_sync s) (exit_on_err reset_child_signal_handlers)"
proof -
  have no: "\<not> is_sync s" if "is_set_signal s" for s
    using that by (auto simp: is_set_signal_def is_sync_def split: syscall.splits proc_call.splits)
  have "only_calls (\<lambda>s. \<not> is_sync s) setup_parent_signal_handlers"
    by (rule only_calls_mono [OF only_calls_handlers(1)]) (rule no)
  moreover have "only_calls (\<lambda>s. \<not> is_sync s) reset_child_signal_handlers"
    by (rule only_calls_mono [OF only_calls_handlers(2)]) (rule no)
  ultimately show "only_calls (\<lambda>s. \<not> is_sync s) (exit_on_err setup_parent_signal_handlers)"
    "only_calls (\<lambda>s. \<not> is_sync s) (exit_on_err reset_child_signal_handlers)"
    by (auto simp: exit_on_err_def split: sum.splits intro!: only_calls_bind)
qed

lemma no_sync_before: "only_calls (\<lambda>s. \<not> is_sync s) (child_before req)"
  unfolding child_before_def
  by (auto simp: no_sync_handlers no_sync_pivot_fs unshare_def intro!: only_calls_try)

lemma no_sync_prep: "only_calls (\<lambda>s. \<not> is_sync s) (preexec_prep exec caps)"
  by (rule only_calls_mono [OF only_calls_prep]) (auto simp: prep_call_def is_sync_def split: syscall.splits proc_call.splits)

lemma no_sync_after: "only_calls (\<lambda>s. \<not> is_sync s) (child_after req)"
  unfolding child_after_def set_oom_score_def
  by (auto simp: no_sync_pivot_fs no_sync_console no_sync_prep split: option.splits intro!: only_calls_try)

text \<open>What comes before the handlers are installed: plain calls and one unshare.\<close>

definition before_handlers :: "CreateRequest \<Rightarrow> unit io" where
  "before_handlers req =
     try_io (warn_on_err (prepare_cgroup req)) (\<lambda>_.
     try_io (unshare (first_level_ns req)) (\<lambda>_.
     try_io (warn_on_err update_boottime) (\<lambda>_.
     try_io (warn_on_err (update_hostname req)) (\<lambda>_.
     warn_on_err (set_process_limits (cr_exec req))))))"

lemma before_fork_split:
  "before_fork req = try_io (before_handlers req) (\<lambda>_. exit_on_err setup_parent_signal_handlers)"
  by (simp add: before_fork_def before_handlers_def)

lemma plain_before_handlers: "only_calls (\<lambda>s. plain_call s \<or> (\<exists>n. s = Ns n)) (before_handlers req)"
proof -
  let ?P = "\<lambda>s. plain_call s \<or> (\<exists>n. s = Ns n)"
  have c: "only_calls ?P (prepare_cgroup req)"
    by (auto simp: prepare_cgroup_def Let_def get_pid_def set_limit_def set_child_value_def
        create_identity_def identity_of_def split: option.splits
        intro!: only_calls_try only_calls_for only_calls_warn only_calls_CGroup_open only_calls_create_child)
  have l: "only_calls ?P (set_process_limits exec)" for exec
    unfolding set_process_limits_loop set_process_limit_def
    by (auto split: option.splits intro!: only_calls_for)
  show ?thesis
    unfolding before_handlers_def
    by (auto simp: c l unshare_def update_boottime_def get_boottime_def Let_def
        update_hostname_def create_identity_def identity_of_def get_pid_def
        intro!: only_calls_try only_calls_warn only_calls_map_err)
qed

lemma no_sync_before_fork: "only_calls (\<lambda>s. \<not> is_sync s) (before_fork req)"
  unfolding before_fork_split
  by (intro only_calls_try no_sync_handlers only_calls_mono [OF plain_before_handlers])
    (auto simp: plain_call_def is_sync_def split: syscall.splits proc_call.splits)

lemmas no_exec_before = no_exec_of_sync [OF no_sync_before]
lemmas no_exec_after = no_exec_of_sync [OF no_sync_after]
lemmas no_exec_before_fork = no_exec_of_sync [OF no_sync_before_fork]
lemmas no_exec_prep = no_exec_of_sync [OF no_sync_prep]
lemmas no_exec_handlers =
  no_exec_of_sync [OF no_sync_handlers(1)] no_exec_of_sync [OF no_sync_handlers(2)]

section \<open>What the child has done before it executes\<close>

definition pivoted :: "CreateRequest \<Rightarrow> event list \<Rightarrow> bool" where
  "pivoted req tr \<longleftrightarrow>
     (\<exists>newroot a b. tr = a @ b \<and> assembled req newroot a \<and> list_all event_ok b \<and>
        calls b = [Fs (SetCurrentDir newroot), Mnt (PivotRoot ''.'' ''.''),
          Mnt (Umount2 ''.'' MNT_DETACH), Fs (SetCurrentDir ''/'')])"

text \<open>The file system of the child, if a mount namespace is requested.\<close>

definition root_done :: "CreateRequest \<Rightarrow> event list \<Rightarrow> bool" where
  "root_done req tr =
     (if Mount \<in> set (target_ns (cr_namespaces req)) then pivoted req tr else tr = [])"

definition before_done :: "CreateRequest \<Rightarrow> event list \<Rightarrow> bool" where
  "before_done req tr \<longleftrightarrow>
     (\<exists>hs pv un. tr = hs @ pv @ un \<and>
        calls hs = map (\<lambda>sig. Proc (SetSignal sig SigDfl)) FORWARDED_SIGNALS \<and> list_all event_ok hs \<and>
        (if skips_two_stage req then pv = [] \<and> un = []
         else root_done req pv \<and> list_all event_ok un \<and>
           calls un = (if User \<in> set (target_ns (cr_namespaces req)) then [Ns (UnshareSys CLONE_NEWUSER)] else [])))"

lemma succeeds_exit_on_err: "succeeds K w (exit_on_err m) tr u w' \<Longrightarrow> succeeds K w m tr () w'"
proof (induction m arbitrary: w tr rule: prog_induct)
  case (Ret x)
  then show ?case by (cases x) (auto simp: exit_on_err_def)
next
  case (Call s k)
  then show ?case by (auto simp: exit_on_err_def)
qed (simp_all add: exit_on_err_def)

lemma succeeds_reset:
  "succeeds K w (exit_on_err reset_child_signal_handlers) tr u w' \<Longrightarrow>
     calls tr = map (\<lambda>sig. Proc (SetSignal sig SigDfl)) FORWARDED_SIGNALS \<and> list_all event_ok tr"
proof -
  assume "succeeds K w (exit_on_err reset_child_signal_handlers) tr u w'"
  from succeeds_exit_on_err [OF this]
  have run: "succeeds K w (for_io (set_signal ''Failed to reset signal handler: '' SigDfl) FORWARDED_SIGNALS) tr () w'"
    by (simp add: reset_child_signal_handlers_def)
  have un: "set_signal m d sig = Call (Proc (SetSignal sig d))
      (\<lambda>r. if failed r then fail (Context m (OsError (errno r))) else ok ())" for m d sig
    by (simp add: set_signal_def sys_unit_def) (rule ext, simp)
  from succeeds_for_calls [where c = "\<lambda>sig. Proc (SetSignal sig SigDfl)" and bad = "\<lambda>_ r. failed r"
      and e = "\<lambda>_ r. Context ''Failed to reset signal handler: '' (OsError (errno r))", OF _ run]
  have c: "calls tr = map (\<lambda>sig. Proc (SetSignal sig SigDfl)) FORWARDED_SIGNALS"
    and l: "list_all2 (\<lambda>x ev. \<exists>r. snd ev = Some r \<and> \<not> failed r) FORWARDED_SIGNALS tr"
    by (simp_all add: un)
  have "list_all event_ok tr"
    using l by (fastforce simp: list_all_length list_all2_conv_all_nth event_ok_def)
  with c show ?thesis by blast
qed

lemma succeeds_pivot_fs:
  "succeeds K w (pivot_fs req) tr u w' \<Longrightarrow> pivoted req tr"
proof -
  assume "succeeds K w (pivot_fs req) tr u w'"
  then obtain a newroot w1 b where 1: "succeeds K w (assemble_root req) a newroot w1"
    and 2: "succeeds K w1 (pivot (bind_tree newroot newroot)) b () w'" and "tr = a @ b"
    by (auto simp: pivot_fs_def succeeds_try)
  moreover from 2 have "list_all event_ok b \<and> calls b = [Fs (SetCurrentDir newroot), Mnt (PivotRoot ''.'' ''.''),
          Mnt (Umount2 ''.'' MNT_DETACH), Fs (SetCurrentDir ''/'')]"
    by (auto simp: pivot_def bind_tree_def succeeds_try)
  ultimately show ?thesis
    unfolding pivoted_def using succeeds_assemble [OF 1] by blast
qed

lemma succeeds_maybe_pivot: "succeeds K w (maybe_pivot req) tr u w' \<Longrightarrow> root_done req tr"
  by (auto simp: maybe_pivot_def root_done_def dest: succeeds_pivot_fs split: if_splits)

lemma succeeds_child_before:
  assumes "succeeds K w (child_before req) tr u w'"
  shows "before_done req tr"
proof -
  from assms obtain hs u1 w1 rest where 1: "succeeds K w (exit_on_err reset_child_signal_handlers) hs u1 w1"
    and 2: "succeeds K w1 (if \<not> skips_two_stage req then
       try_io (maybe_pivot req) (\<lambda>_.
       if User \<in> set (target_ns (cr_namespaces req)) then unshare [User] else ok ())
     else ok ()) rest u w'" and tr: "tr = hs @ rest"
    unfolding child_before_def succeeds_try by blast
  have u: "ns_flags [User] = CLONE_NEWUSER" by (simp add: ns_flags_def add_flag_def)
  show ?thesis
  proof (cases "skips_two_stage req")
    case True
    with 2 succeeds_reset [OF 1] tr show ?thesis
      by (auto simp: before_done_def)
  next
    case False
    with 2 obtain pv u2 w2 un where pv: "succeeds K w1 (maybe_pivot req) pv u2 w2" "rest = pv @ un"
      and "succeeds K w2 (if User \<in> set (target_ns (cr_namespaces req)) then unshare [User] else ok ()) un u w'"
      by (auto simp: succeeds_try)
    then have "list_all event_ok un \<and>
           calls un = (if User \<in> set (target_ns (cr_namespaces req)) then [Ns (UnshareSys CLONE_NEWUSER)] else [])"
      by (auto simp: unshare_def u split: if_splits)
    with False succeeds_reset [OF 1] tr pv succeeds_maybe_pivot [OF pv(1)] show ?thesis
      unfolding before_done_def by (intro exI [of _ hs] exI [of _ pv] exI [of _ un]) simp
  qed
qed

definition after_done :: "'w kernel \<Rightarrow> CreateRequest \<Rightarrow> event list \<Rightarrow> bool" where
  "after_done K req tr \<longleftrightarrow>
     (\<exists>pv oom con prep w1 w2 w3. tr = pv @ oom @ con @ prep \<and>
        (if skips_two_stage req then root_done req pv else pv = []) \<and>
        calls oom = (case oom_score_adj (cr_exec req) of None \<Rightarrow> []
          | Some score \<Rightarrow> [Fs (WriteFile ''/proc/self/oom_score_adj'' (show_int score))]) \<and>
        list_all event_ok oom \<and>
        succeeds K w1 (setup_console (ex_uid (cr_exec req))) con () w2 \<and>
        succeeds K w2 (preexec_prep (cr_exec req) (cr_capabilities req)) prep () w3)"

lemma succeeds_child_after:
  assumes "succeeds K w (child_after req) tr u w'"
  shows "after_done K req tr"
proof -
  from assms obtain pv u1 w1 oom u2 w2 con u3 w3 prep where
    pv: "succeeds K w (if skips_two_stage req then maybe_pivot req else ok ()) pv u1 w1"
    and oom: "succeeds K w1 (set_oom_score (cr_exec req)) oom u2 w2"
    and rest: "succeeds K w2 (setup_console (ex_uid (cr_exec req))) con () w3"
      "succeeds K w3 (preexec_prep (cr_exec req) (cr_capabilities req)) prep () w'"
    and tr: "tr = pv @ oom @ con @ prep"
    unfolding child_after_def succeeds_try by auto
  have "if skips_two_stage req then root_done req pv else pv = []"
    using pv by (auto dest: succeeds_maybe_pivot split: if_splits)
  moreover have "calls oom = (case oom_score_adj (cr_exec req) of None \<Rightarrow> []
      | Some score \<Rightarrow> [Fs (WriteFile ''/proc/self/oom_score_adj'' (show_int score))]) \<and> list_all event_ok oom"
    using oom by (cases "oom_score_adj (cr_exec req)") (auto simp: set_oom_score_def)
  ultimately show ?thesis
    unfolding after_done_def using rest tr by blast
qed

section \<open>Properties\<close>

lemma child_reaches_exec:
  assumes "trace K w (child_side req parent_efd child_efd) = pre @ (Proc (Execvpe prog args env), r) # post"
  shows "post = [] \<and> executable (cr_exec req) = Some prog \<and> args = prog # exec_args (cr_exec req) \<and>
    env = exec_env (cr_exec req) \<and>
    (\<exists>t1 r1 r2 t2 t3. before_done req t1 \<and> after_done K req t2 \<and> confined (cr_exec req) t3 \<and>
       \<not> failed r1 \<and> \<not> failed r2 \<and>
       pre = t1 @ [(Proc (EventFdWrite parent_efd 2), Some r1), (Proc (EventFdRead child_efd), Some r2)] @ t2 @ t3)"
proof -
  let ?e = "Proc (Execvpe prog args env)"
  have x: "is_exec ?e" by simp
  have no: "only_calls (\<lambda>s. \<not> is_exec s) (sys_unit (Proc (EventFdWrite parent_efd 2)))"
    "only_calls (\<lambda>s. \<not> is_exec s) (sys_unit (Proc (EventFdRead child_efd)))" by simp_all
  obtain u1 w1 p1 where 1: "succeeds K w (child_before req) (trace K w (child_before req)) u1 w1"
    "pre = trace K w (child_before req) @ p1"
    and rest1: "trace K w1 (try_io (sys_unit (Proc (EventFdWrite parent_efd 2))) (\<lambda>_.
       try_io (sys_unit (Proc (EventFdRead child_efd))) (\<lambda>_.
       try_io (child_after req) (\<lambda>_. execute (cr_exec req))))) = p1 @ (?e, r) # post"
    by (rule try_reached [OF assms [unfolded child_side_def] x no_exec_before], rule that)
  obtain u2 w2 p2 where 2: "succeeds K w1 (sys_unit (Proc (EventFdWrite parent_efd 2)))
      (trace K w1 (sys_unit (Proc (EventFdWrite parent_efd 2)))) u2 w2"
    "p1 = trace K w1 (sys_unit (Proc (EventFdWrite parent_efd 2))) @ p2"
    and rest2: "trace K w2 (try_io (sys_unit (Proc (EventFdRead child_efd))) (\<lambda>_.
       try_io (child_after req) (\<lambda>_. execute (cr_exec req)))) = p2 @ (?e, r) # post"
    by (rule try_reached [OF rest1 x no(1)], rule that)
  obtain u3 w3 p3 where 3: "succeeds K w2 (sys_unit (Proc (EventFdRead child_efd)))
      (trace K w2 (sys_unit (Proc (EventFdRead child_efd)))) u3 w3"
    "p2 = trace K w2 (sys_unit (Proc (EventFdRead child_efd))) @ p3"
    and rest3: "trace K w3 (try_io (child_after req) (\<lambda>_. execute (cr_exec req))) = p3 @ (?e, r) # post"
    by (rule try_reached [OF rest2 x no(2)], rule that)
  obtain u4 w4 p4 where 4: "succeeds K w3 (child_after req) (trace K w3 (child_after req)) u4 w4"
    "p3 = trace K w3 (child_after req) @ p4"
    and rest4: "trace K w4 (execute (cr_exec req)) = p4 @ (?e, r) # post"
    by (rule try_reached [OF rest3 x no_exec_after], rule that)
  obtain r1 where r1: "trace K w1 (sys_unit (Proc (EventFdWrite parent_efd 2))) =
      [(Proc (EventFdWrite parent_efd 2), Some r1)]" "\<not> failed r1"
    using 2(1) unfolding succeeds_sys by auto
  obtain r2 where r2: "trace K w2 (sys_unit (Proc (EventFdRead child_efd))) =
      [(Proc (EventFdRead child_efd), Some r2)]" "\<not> failed r2"
    using 3(1) unfolding succeeds_sys by auto
  note ex = execute_reached [OF rest4]
  have "pre = trace K w (child_before req) @ [(Proc (EventFdWrite parent_efd 2), Some r1),
      (Proc (EventFdRead child_efd), Some r2)] @ trace K w3 (child_after req) @ p4"
    using 1(2) 2(2) 3(2) 4(2) r1 r2 by simp
  with ex succeeds_child_before [OF 1(1)] succeeds_child_after [OF 4(1)] r1(2) r2(2) show ?thesis
    by blast
qed

text \<open>C1. Whenever the child of a create request executes the workload, in any run against any
  kernel, it is the last call, with the configured program, arguments and environment, and before it
  the child has done all of this with success and nothing else: reset its signal handlers; in the
  two-stage mode, pivoted to the assembled root (if a mount namespace was requested) and only then
  entered the user namespace (if requested); signalled the supervisor and been released by it; in the
  one-stage mode, pivoted only now; set the OOM score; set up the console; changed its identity and
  capabilities; and been confined (directory, \<open>no_new_privs\<close>, seccomp, AppArmor, \<open>SIGPIPE\<close>).\<close>

theorem child_executes_prepared:
  assumes "trace K w (child_side req parent_efd child_efd) = pre @ (Proc (Execvpe prog args env), r) # post"
  shows "post = [] \<and> executable (cr_exec req) = Some prog \<and> args = prog # exec_args (cr_exec req) \<and>
    env = exec_env (cr_exec req) \<and>
    (\<exists>t1 r1 r2 t2 t3. before_done req t1 \<and> after_done K req t2 \<and> confined (cr_exec req) t3 \<and>
       \<not> failed r1 \<and> \<not> failed r2 \<and>
       pre = t1 @ [(Proc (EventFdWrite parent_efd 2), Some r1), (Proc (EventFdRead child_efd), Some r2)] @ t2 @ t3)"
  using assms by (rule child_reaches_exec)

text \<open>A workload without namespaces of its own.\<close>

definition plain_request :: CreateRequest where
  "plain_request = CreateRequest_default\<lparr>cr_exec := web_exec, cr_namespaces := Some []\<rparr>"

lemma plain_request_simps [simp]:
  "cr_exec plain_request = web_exec" "cr_namespaces plain_request = Some []"
  "cr_capabilities plain_request = None" "\<not> skips_two_stage plain_request"
  "cr_uid_mappings plain_request = None"
  by (simp_all add: plain_request_def CreateRequest_default_def skips_two_stage_def)

lemma web_exec_simps [simp]:
  "ex_uid web_exec = None" "ex_gid web_exec = None" "supplemental_gids web_exec = None"
  "oom_score_adj web_exec = None" "process_limits web_exec = None" "no_new_privs web_exec"
  "executable web_exec = Some ''httpd''" "arguments web_exec = Some [''-f'']"
  "environment web_exec = Some [(''A'', ''1'')]" "working_directory web_exec = None"
  "seccomp web_exec = Some \<lparr>instructions = [(6, 0, 0, 0)]\<rparr>" "apparmor web_exec = Some ''web''"
  by (simp_all add: web_exec_def ExecutableSpec_default_def)

lemmas child_defs = child_side_def child_before_def child_after_def maybe_pivot_def target_ns_def
  set_oom_score_def setup_console_def preexec_prep_def set_keep_caps_def apply_gid_uid_def
  apply_capabilities_def exit_on_err_def reset_child_signal_handlers_def FORWARDED_SIGNALS_def
  set_signal_def execute_def confine_def cstring_new_def env_strings_def set_no_new_privs_def
  install_def sock_fprog_len_def change_onexec_def reset_sigpipe_def sys_def sys_res_def sys_unit_def

theorem child_executes_prepared_witness:
  "\<exists>t1 r1 r2 t2 t3. before_done plain_request t1 \<and> after_done good_kernel plain_request t2 \<and> confined web_exec t3 \<and>
     trace good_kernel () (child_side plain_request 3 4) =
       t1 @ [(Proc (EventFdWrite 3 2), Some r1), (Proc (EventFdRead 4), Some r2)] @ t2 @ t3 @
       [(Proc (Execvpe ''httpd'' [''httpd'', ''-f''] [''A=1'']), None)]"
proof -
  let ?T = "trace good_kernel () (child_side plain_request 3 4)"
  let ?e = "(Proc (Execvpe ''httpd'' [''httpd'', ''-f''] [''A=1'']), None)"
  have "last ?T = ?e \<and> ?T \<noteq> []"
    by (simp add: child_defs good_kernel_def scripted_def reply0_def Let_def)
  then obtain pre where pre: "?T = pre @ ?e # []" by (metis append_butlast_last_id)
  from child_executes_prepared [OF this] show ?thesis
    unfolding plain_request_simps using pre by fastforce
qed

lemma try_call_reached:
  assumes "trace K w (try_io (sys_res s) f) = pre @ (e, r) # post" and "is_exec e" and "\<not> is_exec s"
  obtains q w' p where "pre = (s, Some q) # p" and "trace K w' (f q) = p @ (e, r) # post"
proof -
  have "only_calls (\<lambda>s. \<not> is_exec s) (sys_res s)" using assms(3) by simp
  from try_reached [OF assms(1,2) this] obtain q w' p where
    "succeeds K w (sys_res s) (trace K w (sys_res s)) q w'" "pre = trace K w (sys_res s) @ p"
    "trace K w' (f q) = p @ (e, r) # post" by metis
  then show ?thesis using that by (auto simp: succeeds_sys)
qed

lemma no_exec_supervise: "only_calls (\<lambda>s. \<not> is_exec s) (supervise fuel req c p d)"
proof -
  have "only_calls (\<lambda>s. \<not> is_exec s) (reap_children fuel)"
    using only_calls_reap by (rule only_calls_mono) simp
  then show ?thesis
    unfolding supervise_def store_child_pid_def wait_for_pid_def prepare_userns_def Let_def
    by (auto split: option.splits intro!: only_calls_try)
qed

lemma wrap_reaches_exec:
  assumes "trace K w (create_wrap fuel req) = pre @ (Proc (Execvpe prog args env), r) # post"
  shows "\<exists>b r1 r2 r3 pre' w'.
    pre = b @ [(Proc (EventFdNew 0 True), Some r1), (Proc (EventFdNew 0 True), Some r2), (Proc Fork, Some r3)] @ pre' \<and>
    list_ex (\<lambda>e. fst e = Ns (UnshareSys (ns_flags (first_level_ns req))) \<and> event_ok e) b \<and>
    rc r3 = 0 \<and>
    trace K w' (child_side req (rc r1) (rc r2)) = pre' @ (Proc (Execvpe prog args env), r) # post \<and>
    (has_flag ns (ns_flags (first_level_ns req)) \<longleftrightarrow>
       ns \<in> set (target_ns (cr_namespaces req)) \<and> (ns \<noteq> User \<or> skips_two_stage req))"
proof -
  let ?e = "Proc (Execvpe prog args env)"
  have x: "is_exec ?e" by simp
  obtain u1 w1 p1 where 1: "succeeds K w (before_fork req) (trace K w (before_fork req)) u1 w1"
    "pre = trace K w (before_fork req) @ p1"
    and rest1: "trace K w1 (try_io (sys_res (Proc (EventFdNew 0 True))) (\<lambda>parent_efd.
     try_io (sys_res (Proc (EventFdNew 0 True))) (\<lambda>child_efd.
     try_io (sys_res (Proc Fork)) (\<lambda>r.
     if rc r \<noteq> 0 then supervise fuel req (rc r) (rc parent_efd) (rc child_efd)
     else child_side req (rc parent_efd) (rc child_efd))))) = p1 @ (?e, r) # post"
    by (rule try_reached [OF assms [unfolded create_wrap_def] x no_exec_before_fork], rule that)
  obtain r1 w2 p2 where 2: "p1 = (Proc (EventFdNew 0 True), Some r1) # p2"
    and rest2: "trace K w2 (try_io (sys_res (Proc (EventFdNew 0 True))) (\<lambda>child_efd.
     try_io (sys_res (Proc Fork)) (\<lambda>r.
     if rc r \<noteq> 0 then supervise fuel req (rc r) (rc r1) (rc child_efd)
     else child_side req (rc r1) (rc child_efd)))) = p2 @ (?e, r) # post"
    by (rule try_call_reached [OF rest1 x]) (simp, rule that)
  obtain r2 w3 p3 where 3: "p2 = (Proc (EventFdNew 0 True), Some r2) # p3"
    and rest3: "trace K w3 (try_io (sys_res (Proc Fork)) (\<lambda>r.
     if rc r \<noteq> 0 then supervise fuel req (rc r) (rc r1) (rc r2)
     else child_side req (rc r1) (rc r2))) = p3 @ (?e, r) # post"
    by (rule try_call_reached [OF rest2 x]) (simp, rule that)
  obtain r3 w4 p4 where 4: "p3 = (Proc Fork, Some r3) # p4"
    and rest4: "trace K w4 (if rc r3 \<noteq> 0 then supervise fuel req (rc r3) (rc r1) (rc r2)
     else child_side req (rc r1) (rc r2)) = p4 @ (?e, r) # post"
    by (rule try_call_reached [OF rest3 x]) (simp, rule that)
  have "rc r3 = 0"
    using rest4 only_calls_trace [OF no_exec_supervise, of ?e r K w4 fuel req "rc r3" "rc r1" "rc r2"]
    by (simp split: if_splits)
  moreover have "list_ex (\<lambda>e. fst e = Ns (UnshareSys (ns_flags (first_level_ns req))) \<and> event_ok e)
      (trace K w (before_fork req))"
    using 1(1) unfolding before_fork_def unshare_def succeeds_try succeeds_sys by (auto simp: list_ex_iff)
  moreover have "pre = trace K w (before_fork req) @
      [(Proc (EventFdNew 0 True), Some r1), (Proc (EventFdNew 0 True), Some r2), (Proc Fork, Some r3)] @ p4"
    using 1(2) 2 3 4 by simp
  moreover have "has_flag ns (ns_flags (first_level_ns req)) \<longleftrightarrow>
       ns \<in> set (target_ns (cr_namespaces req)) \<and> (ns \<noteq> User \<or> skips_two_stage req)"
    by (auto simp: has_flag_ns_flags first_level_ns_def Let_def)
  moreover have "trace K w4 (child_side req (rc r1) (rc r2)) = p4 @ (?e, r) # post"
    using rest4 \<open>rc r3 = 0\<close> by simp
  ultimately show ?thesis by blast
qed

text \<open>C2. A create request executes its workload only in the child and only after the first unshare:
  if the run of \<open>wrap\<close> executes a program, then the namespaces of the first level were unshared with
  success, without \<open>CLONE_NEWUSER\<close> in the two-stage mode and with every other requested flag; the two
  event counters were created; \<open>fork\<close> returned 0; and the rest of the run is the child's.\<close>

theorem wrap_executes_in_child:
  assumes "trace K w (create_wrap fuel req) = pre @ (Proc (Execvpe prog args env), r) # post"
  shows "\<exists>b r1 r2 r3 pre' w'.
    pre = b @ [(Proc (EventFdNew 0 True), Some r1), (Proc (EventFdNew 0 True), Some r2), (Proc Fork, Some r3)] @ pre' \<and>
    list_ex (\<lambda>e. fst e = Ns (UnshareSys (ns_flags (first_level_ns req))) \<and> event_ok e) b \<and>
    rc r3 = 0 \<and>
    trace K w' (child_side req (rc r1) (rc r2)) = pre' @ (Proc (Execvpe prog args env), r) # post \<and>
    (has_flag ns (ns_flags (first_level_ns req)) \<longleftrightarrow>
       ns \<in> set (target_ns (cr_namespaces req)) \<and> (ns \<noteq> User \<or> skips_two_stage req))"
  using assms by (rule wrap_reaches_exec)

lemmas wrap_defs = create_wrap_def before_fork_def prepare_cgroup_def unshare_def update_boottime_def
  get_boottime_def update_hostname_def create_identity_def identity_of_def get_pid_def
  set_process_limits_def setup_parent_signal_handlers_def boottime_offset_def

theorem wrap_executes_in_child_witness:
  "\<exists>pre' w' p c. trace good_kernel w' (child_side plain_request p c) =
     pre' @ [(Proc (Execvpe ''httpd'' [''httpd'', ''-f''] [''A=1'']), None)]"
proof -
  let ?T = "trace good_kernel () (create_wrap 1 plain_request)"
  let ?e = "(Proc (Execvpe ''httpd'' [''httpd'', ''-f''] [''A=1'']), None)"
  have more: "cr_limits plain_request = None" "cr_cgroupfs plain_request = None"
    "cr_hostname plain_request = None" "cr_workload_id plain_request = None"
    by (simp_all add: plain_request_def CreateRequest_default_def)
  have nul: "CHR 0x00 \<notin> set (show_int 0)" by code_simp
  have "last ?T = ?e \<and> ?T \<noteq> []"
    by (simp add: wrap_defs child_defs more nul good_kernel_def scripted_def Let_def) (simp add: reply0_def)
  then obtain pre where pre: "?T = pre @ ?e # []" by (metis append_butlast_last_id)
  from wrap_executes_in_child [OF pre, where ns = User] show ?thesis by blast
qed

section \<open>The supervisor\<close>

definition supervisor_plan :: "CreateRequest \<Rightarrow> int \<Rightarrow> int \<Rightarrow> int \<Rightarrow> syscall list" where
  "supervisor_plan req child parent_efd child_efd =
     [Proc (StoreChildPid child), Proc (EventFdRead parent_efd)] @
     (if User \<in> set (target_ns (cr_namespaces req)) then userns_plan req (userns_pid req child) else []) @
     [Proc (EventFdWrite child_efd 1), Proc (Waitpid (ChildPid child) False)]"

definition supervised :: "CreateRequest \<Rightarrow> int \<Rightarrow> int \<Rightarrow> int \<Rightarrow> event list \<Rightarrow> unit result outcome \<Rightarrow> bool" where
  "supervised req child parent_efd child_efd tr out \<longleftrightarrow>
     (\<exists>xs ys. tr = xs @ ys \<and> prefix (calls xs) (supervisor_plan req child parent_efd child_efd) \<and>
        list_all event_ok (tl (butlast xs)) \<and>
        (ys = [] \<or> calls xs = supervisor_plan req child parent_efd child_efd \<and>
           list_all (\<lambda>e. fst e = Proc (Waitpid AnyChild True)) ys) \<and>
        (case out of
           Done (Inr _) \<Rightarrow> False
         | Exited c \<Rightarrow> calls xs = supervisor_plan req child parent_efd child_efd \<and>
             (\<exists>r. snd (last xs) = Some r \<and> \<not> failed r \<and> c = exit_code (status r))
         | _ \<Rightarrow> True))"

text \<open>The part after the user namespace is configured.\<close>

lemma supervise_release_wp:
  assumes "calls h = [Proc (StoreChildPid child), Proc (EventFdRead p)] @
      (if User \<in> set (target_ns (cr_namespaces req)) then userns_plan req (userns_pid req child) else [])"
    and "list_all event_ok (tl h)" and "h \<noteq> []"
  shows "wp (\<lambda>_ _. True) (supervised req child p c)
     (try_io (sys_unit (Proc (EventFdWrite c 1))) (\<lambda>_.
      try_io (wait_for_pid child) (\<lambda>exitcode.
      try_io (reap_children fuel) (\<lambda>_.
      Halt exitcode)))) h"
proof -
  have fin: "supervised req child p c (h @ zs) out"
    if "zs = [(Proc (EventFdWrite c 1), x)] \<and> (out = Gone \<or> (\<exists>e. out = Done (Inl e))) \<or>
      (\<exists>r. zs = [(Proc (EventFdWrite c 1), Some r), (Proc (Waitpid (ChildPid child) False), x)] \<and>
         \<not> failed r \<and> (out = Gone \<or> (\<exists>e. out = Done (Inl e))))" for zs out x
  proof -
    have "prefix (calls (h @ zs)) (supervisor_plan req child p c)" "list_all event_ok (tl (butlast (h @ zs)))"
      using that assms by (auto simp: supervisor_plan_def butlast_append)
    with that show ?thesis
      unfolding supervised_def by (intro exI [of _ "h @ zs"] exI [of _ "[]"]) auto
  qed
  have reap: "wp (\<lambda>_ _. True) (supervised req child p c)
      (try_io (reap_children fuel) (\<lambda>_. Halt (exit_code (status r'))))
      (h @ [(Proc (EventFdWrite c 1), Some r), (Proc (Waitpid (ChildPid child) False), Some r')])"
    if "\<not> failed r" "\<not> failed r'" for r r'
    unfolding wp_try
  proof (rule wp_reap)
    fix h' :: "event list" and x :: "unit result outcome"
    assume ys: "list_all (\<lambda>e. fst e = Proc (Waitpid AnyChild True)) h'" "x \<in> {Done (Inr ()), Gone, NoFuel}"
    let ?xs = "h @ [(Proc (EventFdWrite c 1), Some r), (Proc (Waitpid (ChildPid child) False), Some r')]"
    have "calls ?xs = supervisor_plan req child p c" "list_all event_ok (tl (butlast ?xs))"
      using assms that by (auto simp: supervisor_plan_def butlast_append)
    then have "supervised req child p c (?xs @ h') out"
      if "out = Gone \<or> out = NoFuel \<or> out = Exited (exit_code (status r'))" for out
      unfolding supervised_def
      by (intro exI [of _ ?xs] exI [of _ h']) (use that ys \<open>\<not> failed r'\<close> in auto)
    with ys(2) show "post_try (supervised req child p c)
        (\<lambda>h _. wp (\<lambda>_ _. True) (supervised req child p c) (Halt (exit_code (status r'))) h) (?xs @ h') x"
      by auto
  qed
  show ?thesis
    using fin reap by (auto simp: sys_unit_def sys_res_def wait_for_pid_def)
qed

lemma supervise_wp:
  "wp (\<lambda>_ _. True) (supervised req child parent_efd child_efd) (supervise fuel req child parent_efd child_efd) []"
proof -
  let ?Q = "supervised req child parent_efd child_efd"
  let ?rest = "try_io (sys_unit (Proc (EventFdWrite child_efd 1))) (\<lambda>_.
      try_io (wait_for_pid child) (\<lambda>exitcode.
      try_io (reap_children fuel) (\<lambda>_.
      Halt exitcode)))"
  let ?user = "User \<in> set (target_ns (cr_namespaces req))"
  let ?h = "\<lambda>r0 r. [(Proc (StoreChildPid child), Some r0), (Proc (EventFdRead parent_efd), Some r)]"
  have early: "?Q [(Proc (StoreChildPid child), x)] Gone"
    "?Q [(Proc (StoreChildPid child), Some r0), (Proc (EventFdRead parent_efd), x)] Gone"
    "?Q [(Proc (StoreChildPid child), Some r0), (Proc (EventFdRead parent_efd), x)] (Done (Inl e))" for r0 x e
    unfolding supervised_def
    by (intro exI [of _ "[(Proc (StoreChildPid child), x)]"] exI [of _ "[]"],
        simp add: supervisor_plan_def)
      (intro exI [of _ "[(Proc (StoreChildPid child), Some r0), (Proc (EventFdRead parent_efd), x)]"] exI [of _ "[]"],
        simp add: supervisor_plan_def)+
  have conf: "wp (\<lambda>_ _. True) ?Q (try_io (if ?user then prepare_userns req (userns_pid req child) else ok ()) (\<lambda>_. ?rest)) (?h r0 r)"
    if "\<not> failed r" for r0 r
  proof (cases ?user)
    case False
    then show ?thesis using supervise_release_wp [of "?h r0 r"] that by simp
  next
    case True
    have "post_try ?Q (\<lambda>h a. wp (\<lambda>_ _. True) ?Q ?rest h) (?h r0 r @ t) x"
      if t: "prefix (calls t) (userns_plan req (userns_pid req child)) \<and>
        (x = Done (Inr ()) \<longleftrightarrow> calls t = userns_plan req (userns_pid req child) \<and> list_all event_ok t) \<and>
        list_all event_ok (butlast t) \<and> (\<forall>c. x \<noteq> Exited c)" for t x
    proof (cases "x = Done (Inr ())")
      case True
      then show ?thesis
        using supervise_release_wp [of "?h r0 r @ t"] t \<open>?user\<close> \<open>\<not> failed r\<close> by simp
    next
      case False
      have "?Q (?h r0 r @ t) out" if "out = Gone \<or> out = NoFuel \<or> (\<exists>e. out = Done (Inl e))" for out
        unfolding supervised_def
        by (intro exI [of _ "?h r0 r @ t"] exI [of _ "[]"])
          (use t that \<open>?user\<close> \<open>\<not> failed r\<close> in \<open>auto simp: supervisor_plan_def butlast_append\<close>)
      with False t show ?thesis
        by (cases x) (auto simp: post_try_def post_bind_def split: sum.splits)
    qed
    note step = this
    have "wp (\<lambda>_ _. True) (post_try ?Q (\<lambda>h a. wp (\<lambda>_ _. True) ?Q ?rest h))
        (prepare_userns req (userns_pid req child)) (?h r0 r)"
      unfolding wp_shift_Nil [of _ _ _ "?h r0 r"]
      by (rule wp_mono [OF userns_wp [of req "userns_pid req child"]], simp, rule step)
    with True show ?thesis by (simp add: wp_try)
  qed
  show "wp (\<lambda>_ _. True) ?Q (supervise fuel req child parent_efd child_efd) []"
    using early conf by (cases ?user; simp add: supervise_def store_child_pid_def sys_def sys_unit_def)
qed

text \<open>The supervisor of a create request. It makes its calls in this order, each one only after
  the ones before have succeeded: store the child's pid, wait for the child's signal, configure the
  user namespace (if one was requested; of process 1 in the two-stage mode with a pid namespace, else
  of the child's own pid), release the child, wait for it. After that it only reaps. So the child is
  never released before its user namespace is configured. The supervisor never returns
  successfully: it exits with the child's exit code, or 1 if the child did not exit normally.\<close>

theorem supervisor_sequence:
  "supervised req child parent_efd child_efd
     (trace K w (supervise fuel req child parent_efd child_efd))
     (outcome_of K w (supervise fuel req child parent_efd child_efd))"
  by (rule run_wp_post [OF supervise_wp])

end
