(* ===== verification/AttachReq.thy ===== *)
theory AttachReq
  imports CreateWrap
begin

text \<open>
  \<open>AttachRequest\<close> of \<open>src/wrap.rs\<close>: joining the cgroup and the namespaces of a running container
  and executing a process there. The properties say which process's namespaces are joined, and what
  has been done whenever the process is executed.
\<close>

section \<open>The operations\<close>

definition attach_identity :: "AttachRequest \<Rightarrow> string io" where
  "attach_identity req = identity_of (ar_workload_id req)"

definition attach_cgroup :: "AttachRequest \<Rightarrow> unit io" where
  "attach_cgroup req =
     try_io get_pid (\<lambda>pid.
     let cgbase = (case ar_cgroupfs req of Some c \<Rightarrow> c | None \<Rightarrow> ''/sys/fs/cgroup'') in
     try_io (attach_identity req) (\<lambda>wid.
     let path = path_push cgbase (''styrolite-'' @ wid) in
     try_io (sys (Fs (PathExists path))) (\<lambda>r.
     if failed r then ok ()
     else
       try_io (CGroup_open path) (\<lambda>subtree.
       set_child_value subtree ''cgroup.procs'' (show_int pid)))))"

definition attach_wrap :: "nat \<Rightarrow> AttachRequest \<Rightarrow> unit io" where
  "attach_wrap fuel req =
     try_io (first_child_pid_of (ar_pid req)) (\<lambda>target_pid.
     try_io (warn_on_err (attach_cgroup req)) (\<lambda>_.
     try_io (setns target_pid (target_ns (ar_namespaces req))) (\<lambda>_.
     try_io (warn_on_err (set_process_limits (ar_exec req))) (\<lambda>_.
     try_io (set_oom_score (ar_exec req)) (\<lambda>_.
     try_io (fork_and_wait fuel) (\<lambda>_.
     try_io (preexec_prep (ar_exec req) (ar_capabilities req)) (\<lambda>_.
     execute (ar_exec req))))))))"

section \<open>No early execution\<close>

lemma no_exec_find: "only_calls (\<lambda>s. \<not> is_exec s) (first_child_pid_of parent)"
proof -
  have "only_calls (\<lambda>s. \<not> is_exec s) (scan_proc p e es)" for p e es
    by (induction p e es rule: scan_proc.induct) (auto intro!: only_calls_try)
  then show ?thesis
    by (auto simp: first_child_pid_of_def split: option.splits intro!: only_calls_try)
qed

lemma no_exec_limits: "only_calls (\<lambda>s. \<not> is_exec s) (set_process_limits exec)"
  unfolding set_process_limits_loop set_process_limit_def
  by (auto split: option.splits intro!: only_calls_for)

lemma no_exec_attach_cgroup: "only_calls (\<lambda>s. \<not> is_exec s) (attach_cgroup req)"
  by (auto simp: attach_cgroup_def attach_identity_def identity_of_def get_pid_def Let_def
      set_child_value_def intro!: only_calls_try only_calls_CGroup_open)

lemma no_exec_setns: "only_calls (\<lambda>s. \<not> is_exec s) (setns pid nss)"
  by (auto simp: setns_def pidfd_open_def Let_def intro!: only_calls_try)

lemma no_exec_oom: "only_calls (\<lambda>s. \<not> is_exec s) (set_oom_score exec)"
  by (simp add: set_oom_score_def split: option.splits)

lemma no_exec_fork: "only_calls (\<lambda>s. \<not> is_exec s) (fork_and_wait fuel)"
proof -
  have "only_calls (\<lambda>s. \<not> is_exec s) (reap_children fuel)"
    using only_calls_reap by (rule only_calls_mono) simp
  then show ?thesis
    by (auto simp: fork_and_wait_def store_child_pid_def wait_for_pid_def no_exec_handlers
        intro!: only_calls_try)
qed

section \<open>What a success of each step has done\<close>

text \<open>The namespaces joined are those of the process descriptor just opened for \<open>pid\<close>.\<close>

definition joined :: "int \<Rightarrow> Namespace list \<Rightarrow> event list \<Rightarrow> bool" where
  "joined pid nss tr \<longleftrightarrow>
     (\<exists>r r'. tr = [(Ns (PidfdOpen pid 0), Some r), (Ns (SetnsSys (rc r) (ns_flags nss)), Some r')] \<and>
        \<not> failed r \<and> \<not> failed r')"

lemma succeeds_setns: "succeeds K w (setns pid nss) tr u w' \<Longrightarrow> joined pid nss tr"
  by (auto simp: setns_def pidfd_open_def joined_def Let_def succeeds_try)

definition set_signals :: "disposition \<Rightarrow> event list \<Rightarrow> bool" where
  "set_signals d tr \<longleftrightarrow>
     calls tr = map (\<lambda>sig. Proc (SetSignal sig d)) FORWARDED_SIGNALS \<and> list_all event_ok tr"

lemma succeeds_setup:
  assumes "succeeds K w (exit_on_err setup_parent_signal_handlers) tr u w'"
  shows "set_signals ForwardSignal tr"
proof -
  from succeeds_exit_on_err [OF assms]
  have run: "succeeds K w (for_io (set_signal ''Failed to set signal handler: '' ForwardSignal) FORWARDED_SIGNALS) tr () w'"
    by (simp add: setup_parent_signal_handlers_def)
  have un: "set_signal m d sig = Call (Proc (SetSignal sig d))
      (\<lambda>r. if failed r then fail (Context m (OsError (errno r))) else ok ())" for m d sig
    by (simp add: set_signal_def sys_unit_def) (rule ext, simp)
  from succeeds_for_calls [where c = "\<lambda>sig. Proc (SetSignal sig ForwardSignal)" and bad = "\<lambda>_ r. failed r"
      and e = "\<lambda>_ r. Context ''Failed to set signal handler: '' (OsError (errno r))", OF _ run]
  have c: "calls tr = map (\<lambda>sig. Proc (SetSignal sig ForwardSignal)) FORWARDED_SIGNALS"
    and l: "list_all2 (\<lambda>x ev. \<exists>r. snd ev = Some r \<and> \<not> failed r) FORWARDED_SIGNALS tr"
    by (simp_all add: un)
  have "list_all event_ok tr"
    using l by (fastforce simp: list_all_length list_all2_conv_all_nth event_ok_def)
  with c show ?thesis by (simp add: set_signals_def)
qed

text \<open>The child's side of \<open>fork_and_wait\<close>.\<close>

definition forked :: "event list \<Rightarrow> bool" where
  "forked tr \<longleftrightarrow>
     (\<exists>hs r rs. tr = hs @ (Proc Fork, Some r) # rs \<and> rc r = 0 \<and>
        set_signals ForwardSignal hs \<and> set_signals SigDfl rs)"

lemma not_succeeds_Halt [simp]: "\<not> succeeds K w (try_io m (\<lambda>x. Halt c)) tr u w'"
  by (auto simp: succeeds_try)

lemma succeeds_fork_and_wait: "succeeds K w (fork_and_wait fuel) tr u w' \<Longrightarrow> forked tr"
proof -
  assume "succeeds K w (fork_and_wait fuel) tr u w'"
  then obtain hs u1 w1 r w2 rs where 1: "succeeds K w (exit_on_err setup_parent_signal_handlers) hs u1 w1"
    and 2: "\<not> failed r" "tr = hs @ (Proc Fork, Some r) # rs"
    and 3: "succeeds K w2 (if rc r \<noteq> 0 then
       try_io (store_child_pid (rc r)) (\<lambda>_.
       try_io (wait_for_pid (rc r)) (\<lambda>exitcode.
       try_io (reap_children fuel) (\<lambda>_.
       Halt exitcode)))
     else exit_on_err reset_child_signal_handlers) rs u w'"
    unfolding fork_and_wait_def by (auto simp: succeeds_try)
  have "rc r = 0"
    using 3 by (auto simp: succeeds_try split: if_splits)
  with 3 have "set_signals SigDfl rs"
    using succeeds_reset [of K w2 rs u w'] by (simp add: set_signals_def)
  with 2 \<open>rc r = 0\<close> succeeds_setup [OF 1] show ?thesis
    unfolding forked_def by blast
qed

definition oom_set :: "ExecutableSpec \<Rightarrow> event list \<Rightarrow> bool" where
  "oom_set exec tr \<longleftrightarrow> list_all event_ok tr \<and>
     calls tr = (case oom_score_adj exec of None \<Rightarrow> []
       | Some score \<Rightarrow> [Fs (WriteFile ''/proc/self/oom_score_adj'' (show_int score))])"

lemma succeeds_oom: "succeeds K w (set_oom_score exec) tr u w' \<Longrightarrow> oom_set exec tr"
  by (cases "oom_score_adj exec") (auto simp: set_oom_score_def oom_set_def)

section \<open>Properties\<close>

text \<open>The attempt to join the cgroup of the workload, whose failure is ignored: the directory
  \<open>base/styrolite-identity\<close> is looked for, and if it is there it is opened and the process writes its own
  pid to the \<open>cgroup.procs\<close> in it.\<close>

definition cgroup_tried :: "AttachRequest \<Rightarrow> event list \<Rightarrow> bool" where
  "cgroup_tried req tr \<longleftrightarrow>
     (\<exists>r r' q dir rest.
        tr = (Proc GetPid, Some r) # (Proc GetPid, Some r') # (Fs (PathExists dir), Some q) # rest \<and>
        dir = path_push (case ar_cgroupfs req of Some c \<Rightarrow> c | None \<Rightarrow> ''/sys/fs/cgroup'')
          (''styrolite-'' @ (case ar_workload_id req of Some wid \<Rightarrow> wid | None \<Rightarrow> show_int (rc r'))) \<and>
        (if failed q \<or> CHR 0x00 \<in> set dir then rest = []
         else \<exists>c. if rc c \<noteq> 0 then rest = [(Sys (Faccessat dir), Some c)]
           else \<exists>q'. rest = [(Sys (Faccessat dir), Some c),
             (Fs (WriteFile (path_push dir ''cgroup.procs'') (show_int (rc r))), Some q')]))"

text \<open>The attempt to set the limits, whose failure is ignored: one after the other, up to the first that
  fails.\<close>

fun limits_tried :: "(rlimit_resource \<times> u64 option) list \<Rightarrow> event list \<Rightarrow> bool" where
  "limits_tried [] tr \<longleftrightarrow> tr = []"
| "limits_tried (x # tab) tr \<longleftrightarrow>
     (\<exists>r t. tr = (limit_call x, Some r) # t \<and> (if rc r = -1 then t = [] else limits_tried tab t))"

lemma run_attach_cgroup:
  assumes "run K w (attach_cgroup req) = (tr, Done x, w')"
  shows "cgroup_tried req tr"
proof -
  have "wp (\<lambda>_ _. True) (\<lambda>tr out. (\<exists>x. out = Done x) \<longrightarrow> cgroup_tried req tr) (attach_cgroup req) []"
    by (auto simp: attach_cgroup_def attach_identity_def identity_of_def get_pid_def Let_def sys_def sys_unit_def
        set_child_value_def CGroup_open_def cstring_new_def cgroup_tried_def)
  from run_wp_post [OF this, of K w] assms show ?thesis by (simp add: trace_def outcome_of_def)
qed

lemma run_limit_loop:
  "run K w (for_io (\<lambda>(res, lim). set_process_limit res lim) tab) = (tr, Done x, w') \<Longrightarrow> limits_tried tab tr"
proof (induction tab arbitrary: w tr)
  case (Cons y tab)
  obtain res lim where y: "y = (res, lim)" by (cases y)
  from Cons.prems Cons.IH show ?case
    by (auto simp: y set_process_limit_def limit_call_def split: option.splits prod.splits if_splits)
qed simp

lemma run_limits:
  assumes "run K w (set_process_limits exec) = (tr, Done x, w')"
  shows "limits_tried (case process_limits exec of None \<Rightarrow> [] | Some l \<Rightarrow> limit_table l) tr"
  using assms run_limit_loop by (auto simp: set_process_limits_loop split: option.splits)

text \<open>Everything that comes before the execution in an attached process.\<close>

definition attached :: "'w kernel \<Rightarrow> AttachRequest \<Rightarrow> event list \<Rightarrow> bool" where
  "attached K req tr \<longleftrightarrow>
     (\<exists>pid fnd cg jn lim oom fk prep conf w1 w2 w3 w4.
        tr = fnd @ cg @ jn @ lim @ oom @ fk @ prep @ conf \<and>
        succeeds K w1 (first_child_pid_of (ar_pid req)) fnd pid w2 \<and>
        cgroup_tried req cg \<and>
        joined pid (target_ns (ar_namespaces req)) jn \<and>
        limits_tried (case process_limits (ar_exec req) of None \<Rightarrow> [] | Some l \<Rightarrow> limit_table l) lim \<and>
        oom_set (ar_exec req) oom \<and> forked fk \<and>
        succeeds K w3 (preexec_prep (ar_exec req) (ar_capabilities req)) prep () w4 \<and>
        confined (ar_exec req) conf)"

lemma attach_reaches_exec:
  assumes "trace K w (attach_wrap fuel req) = pre @ (Proc (Execvpe prog args env), r) # post"
  shows "post = [] \<and> executable (ar_exec req) = Some prog \<and> args = prog # exec_args (ar_exec req) \<and>
    env = exec_env (ar_exec req) \<and> attached K req pre"
proof -
  let ?e = "Proc (Execvpe prog args env)"
  let ?nss = "target_ns (ar_namespaces req)"
  have x: "is_exec ?e" by simp
  let ?k6 = "\<lambda>_::unit. try_io (preexec_prep (ar_exec req) (ar_capabilities req)) (\<lambda>_. execute (ar_exec req))"
  let ?k5 = "\<lambda>_::unit. try_io (fork_and_wait fuel) ?k6"
  let ?k4 = "\<lambda>_::unit. try_io (set_oom_score (ar_exec req)) ?k5"
  let ?k3 = "\<lambda>_::unit. try_io (warn_on_err (set_process_limits (ar_exec req))) ?k4"
  let ?k2 = "\<lambda>pid (_::unit). try_io (setns pid ?nss) ?k3"
  let ?k1 = "\<lambda>pid. try_io (warn_on_err (attach_cgroup req)) (?k2 pid)"
  obtain pid w1 p1 where 1: "succeeds K w (first_child_pid_of (ar_pid req)) (trace K w (first_child_pid_of (ar_pid req))) pid w1"
    "pre = trace K w (first_child_pid_of (ar_pid req)) @ p1" and r1: "trace K w1 (?k1 pid) = p1 @ (?e, r) # post"
    by (rule try_reached [OF assms [unfolded attach_wrap_def] x no_exec_find], rule that)
  obtain u2 w2 p2 where cg: "succeeds K w1 (warn_on_err (attach_cgroup req)) (trace K w1 (warn_on_err (attach_cgroup req))) u2 w2"
    and 2: "p1 = trace K w1 (warn_on_err (attach_cgroup req)) @ p2"
    and r2: "trace K w2 (?k2 pid u2) = p2 @ (?e, r) # post"
    by (rule try_reached [OF r1 x only_calls_warn [OF no_exec_attach_cgroup]], rule that)
  obtain u3 w3 p3 where 3: "succeeds K w2 (setns pid ?nss) (trace K w2 (setns pid ?nss)) u3 w3"
    "p2 = trace K w2 (setns pid ?nss) @ p3" and r3: "trace K w3 (?k3 u3) = p3 @ (?e, r) # post"
    by (rule try_reached [OF r2 x no_exec_setns], rule that)
  obtain u4 w4 p4 where lim: "succeeds K w3 (warn_on_err (set_process_limits (ar_exec req)))
      (trace K w3 (warn_on_err (set_process_limits (ar_exec req)))) u4 w4"
    and 4: "p3 = trace K w3 (warn_on_err (set_process_limits (ar_exec req))) @ p4"
    and r4: "trace K w4 (?k4 u4) = p4 @ (?e, r) # post"
    by (rule try_reached [OF r3 x only_calls_warn [OF no_exec_limits]], rule that)
  obtain u5 w5 p5 where 5: "succeeds K w4 (set_oom_score (ar_exec req)) (trace K w4 (set_oom_score (ar_exec req))) u5 w5"
    "p4 = trace K w4 (set_oom_score (ar_exec req)) @ p5" and r5: "trace K w5 (?k5 u5) = p5 @ (?e, r) # post"
    by (rule try_reached [OF r4 x no_exec_oom], rule that)
  obtain u6 w6 p6 where 6: "succeeds K w5 (fork_and_wait fuel) (trace K w5 (fork_and_wait fuel)) u6 w6"
    "p5 = trace K w5 (fork_and_wait fuel) @ p6" and r6: "trace K w6 (?k6 u6) = p6 @ (?e, r) # post"
    by (rule try_reached [OF r5 x no_exec_fork], rule that)
  obtain u7 :: unit and w7 p7 where 7: "succeeds K w6 (preexec_prep (ar_exec req) (ar_capabilities req))
      (trace K w6 (preexec_prep (ar_exec req) (ar_capabilities req))) u7 w7"
    "p6 = trace K w6 (preexec_prep (ar_exec req) (ar_capabilities req)) @ p7"
    and r7: "trace K w7 (execute (ar_exec req)) = p7 @ (?e, r) # post"
    by (rule try_reached [OF r6 x no_exec_prep], rule that)
  have "cgroup_tried req (trace K w1 (warn_on_err (attach_cgroup req)))"
    using cg unfolding succeeds_warn by (elim exE) (rule run_attach_cgroup)
  moreover have "limits_tried (case process_limits (ar_exec req) of None \<Rightarrow> [] | Some l \<Rightarrow> limit_table l)
      (trace K w3 (warn_on_err (set_process_limits (ar_exec req))))"
    using lim unfolding succeeds_warn by (elim exE) (rule run_limits)
  ultimately have "attached K req pre"
    unfolding attached_def
    using 1 2 3(2) 4 5(2) 6(2) 7 succeeds_setns [OF 3(1)] succeeds_oom [OF 5(1)]
      succeeds_fork_and_wait [OF 6(1)] execute_reached [OF r7] by fastforce
  with execute_reached [OF r7] show ?thesis by blast
qed

text \<open>C15. Whenever an attach request executes its program, in any run against any kernel, it is the
  last call, with the configured program, arguments and environment, and before it, in this order:
  a child of the given process was found; the cgroup of the workload was tried (the write of the own pid
  to its \<open>cgroup.procs\<close> was made if the directory is there and opens; its failure is ignored); exactly
  the requested namespaces of that child (by a process descriptor opened for it) were joined with
  success; the configured limits were set in order, up to the first that fails, which is ignored; the OOM
  score was set; the process forked, with the parent's handlers installed before and the child's reset after, and the run is
  the child's; it changed its identity and capabilities with success; and it was confined.\<close>

theorem attach_executes_prepared:
  assumes "trace K w (attach_wrap fuel req) = pre @ (Proc (Execvpe prog args env), r) # post"
  shows "post = [] \<and> executable (ar_exec req) = Some prog \<and> args = prog # exec_args (ar_exec req) \<and>
    env = exec_env (ar_exec req) \<and> attached K req pre"
  using assms by (rule attach_reaches_exec)

text \<open>A container whose supervisor is process 7 and whose first process is process 42.\<close>

definition attach_kernel :: "unit kernel" where
  "attach_kernel = scripted is_exec
     (\<lambda>s. if s = Fs (ReadToString ''/proc/7/task/7/children'') then reply0\<lparr>contents := ''42 ''\<rparr> else reply0)"

definition shell_request :: AttachRequest where
  "shell_request = AttachRequest_default\<lparr>ar_pid := 7, ar_exec := web_exec, ar_workload_id := Some ''web''\<rparr>"

lemma shell_request_simps [simp]:
  "ar_pid shell_request = 7" "ar_exec shell_request = web_exec" "ar_namespaces shell_request = None"
  "ar_capabilities shell_request = None" "ar_cgroupfs shell_request = None"
  "ar_workload_id shell_request = Some ''web''"
  by (simp_all add: shell_request_def AttachRequest_default_def)

lemma attach_kernel_eq:
  "attach_kernel w s = (if is_exec s then None else
     Some (if s = Fs (ReadToString ''/proc/7/task/7/children'') then reply0\<lparr>contents := ''42 ''\<rparr> else reply0), w)"
  by (simp add: attach_kernel_def scripted_def)

lemma shell_request_numbers:
  "show_int 7 = ''7''" "split_char (CHR '' '') ''42 '' = [''42'', [] ]" "parse_i32 ''42'' = Some 42"
  "CHR 0x00 \<notin> set (path_push ''/sys/fs/cgroup'' ''styrolite-web'')"
  by code_simp+

theorem attach_executes_prepared_witness:
  "\<exists>pre. trace attach_kernel () (attach_wrap 1 shell_request) =
       pre @ [(Proc (Execvpe ''httpd'' [''httpd'', ''-f''] [''A=1'']), None)] \<and>
     attached attach_kernel shell_request pre"
proof -
  let ?T = "trace attach_kernel () (attach_wrap 1 shell_request)"
  let ?e = "(Proc (Execvpe ''httpd'' [''httpd'', ''-f''] [''A=1'']), None)"
  have "last ?T = ?e \<and> ?T \<noteq> []"
    by (simp add: attach_wrap_def first_child_pid_of_def shell_request_numbers attach_kernel_eq
        attach_cgroup_def attach_identity_def identity_of_def get_pid_def CGroup_open_def
        set_child_value_def setns_def pidfd_open_def set_process_limits_def fork_and_wait_def
        setup_parent_signal_handlers_def child_defs reply0_def Let_def del: parse_i32.simps)
  then obtain pre where pre: "?T = pre @ ?e # []" by (metis append_butlast_last_id)
  from attach_executes_prepared [OF this] pre show ?thesis by auto
qed

text \<open>Attaching to the cgroup never creates anything: it looks for the directory
  \<open>base/styrolite-identity\<close>, and if there is none succeeds without another call; otherwise it opens
  it and writes its own pid to the \<open>cgroup.procs\<close> there, and succeeds exactly if that write does.
  No other file is written.\<close>

theorem attach_cgroup_effect:
  "let tr = trace K w (attach_cgroup req); out = outcome_of K w (attach_cgroup req);
       base = (case ar_cgroupfs req of Some c \<Rightarrow> c | None \<Rightarrow> ''/sys/fs/cgroup'')
   in out = Done (Inr ()) \<longleftrightarrow>
     (\<exists>r r' q dir. take 3 tr = [(Proc GetPid, Some r), (Proc GetPid, Some r'), (Fs (PathExists dir), Some q)] \<and>
        dir = path_push base (''styrolite-'' @
          (case ar_workload_id req of Some wid \<Rightarrow> wid | None \<Rightarrow> show_int (rc r'))) \<and>
        (if failed q then length tr = 3
         else (\<exists>c q'. drop 3 tr = [(Sys (Faccessat dir), Some c),
             (Fs (WriteFile (path_push dir ''cgroup.procs'') (show_int (rc r))), Some q')] \<and>
             rc c = 0 \<and> \<not> failed q')))"
proof -
  have "wp (\<lambda>_ _. True) (\<lambda>tr out. out = Done (Inr ()) \<longleftrightarrow>
     (\<exists>r r' q dir. take 3 tr = [(Proc GetPid, Some r), (Proc GetPid, Some r'), (Fs (PathExists dir), Some q)] \<and>
        dir = path_push (case ar_cgroupfs req of Some c \<Rightarrow> c | None \<Rightarrow> ''/sys/fs/cgroup'') (''styrolite-'' @
          (case ar_workload_id req of Some wid \<Rightarrow> wid | None \<Rightarrow> show_int (rc r'))) \<and>
        (if failed q then length tr = 3
         else (\<exists>c q'. drop 3 tr = [(Sys (Faccessat dir), Some c),
             (Fs (WriteFile (path_push dir ''cgroup.procs'') (show_int (rc r))), Some q')] \<and>
             rc c = 0 \<and> \<not> failed q')))) (attach_cgroup req) []"
    by (simp add: attach_cgroup_def attach_identity_def identity_of_def get_pid_def Let_def wp_try wp_simps
        post_try_def post_bind_def sys_def sys_unit_def set_child_value_def)
  from run_wp_post [OF this] show ?thesis unfolding Let_def .
qed

end
