(* ===== verification/Runner.thy ===== *)
theory Runner
  imports Builders AttachReq
begin

text \<open>
  The \<open>Runner\<close> of \<open>src/runner.rs\<close>, which hands a request to the \<open>styrolite\<close> program as a JSON file,
  and that program's \<open>main\<close> of \<open>src/bin/styrolite.rs\<close>. The JSON encoder and decoder (serde_json) are
  parameters: \<open>ser c\<close> is the sequence of pieces the serializer writes, \<open>dec\<close> the parser. The
  temporary file (mktemp) is reached by calls that create, write and flush it. The properties: what
  is in the file when the program is started, what the exit code means, and that the request that
  is run is the request that was given.
\<close>

section \<open>The buffered writer\<close>

text \<open>\<open>std::io::BufWriter\<close> with its default capacity. A write of all of a text to the file is one
  call. What is left in the buffer when the writer is dropped is written then, and the result of
  that write is ignored.\<close>

definition BUF_SIZE :: nat where "BUF_SIZE = 8192"

definition flush_buf :: "string \<Rightarrow> string \<Rightarrow> (string \<times> unit result) prog" where
  "flush_buf path buf =
     (if buf = [] then Ret ([], Inr ())
      else bind (sys_unit (Run (TempFileWrite path buf))) (\<lambda>res.
        Ret (case res of Inl e \<Rightarrow> (buf, Inl e) | Inr _ \<Rightarrow> ([], Inr ()))))"

fun write_pieces :: "string \<Rightarrow> string \<Rightarrow> string list \<Rightarrow> (string \<times> unit result) prog" where
  "write_pieces path buf [] = Ret (buf, Inr ())"
| "write_pieces path buf (p # ps) =
     (if length p < BUF_SIZE - length buf then write_pieces path (buf @ p) ps
      else
        bind (if BUF_SIZE - length buf < length p then flush_buf path buf else Ret (buf, Inr ())) (\<lambda>(buf', res).
        case res of Inl e \<Rightarrow> Ret (buf', Inl e)
        | Inr _ \<Rightarrow>
            if BUF_SIZE \<le> length p then
              bind (sys_unit (Run (TempFileWrite path p))) (\<lambda>res'.
              case res' of Inl e \<Rightarrow> Ret (buf', Inl e) | Inr _ \<Rightarrow> write_pieces path buf' ps)
            else write_pieces path (buf' @ p) ps))"

definition buffered_write :: "string \<Rightarrow> string list \<Rightarrow> unit io" where
  "buffered_write path ps =
     bind (write_pieces path [] ps) (\<lambda>(buf, res).
     bind (flush_buf path buf) (\<lambda>_.
     Ret res))"

section \<open>The runner\<close>

text \<open>The trait \<open>Configurable\<close> and its two implementations.\<close>

record 'a configurable =
  validate :: "'a \<Rightarrow> unit result"
  encapsulate :: "'a \<Rightarrow> Config result"

definition create_configurable :: "CreateRequest configurable" where
  "create_configurable = \<lparr>validate = validate_create, encapsulate = encapsulate_create\<rparr>"

definition attach_configurable :: "AttachRequest configurable" where
  "attach_configurable = \<lparr>validate = validate_attach, encapsulate = encapsulate_attach\<rparr>"

record Runner =
  runner_executable :: string

definition Runner_new :: "string \<Rightarrow> Runner" where
  "Runner_new e = \<lparr>runner_executable = e\<rparr>"

definition write_config :: "'a configurable \<Rightarrow> (Config \<Rightarrow> string list) \<Rightarrow> 'a \<Rightarrow> string \<Rightarrow> unit io" where
  "write_config C ser config config_file =
     try_io (Ret (validate C config)) (\<lambda>_.
     try_io (Ret (encapsulate C config)) (\<lambda>encap_config.
     try_io (buffered_write config_file (ser encap_config)) (\<lambda>_.
     sys_unit (Run (TempFileFlush config_file)))))"

text \<open>A command: the program and its arguments.\<close>

definition create_command :: "Runner \<Rightarrow> string \<Rightarrow> string \<times> string list" where
  "create_command runner config_file = (runner_executable runner, [config_file])"

definition new_config_file :: "string io" where
  "new_config_file =
     try_io (sys_res (Run (TempFileNew ''styrolite-cfg-'' ''.json''))) (\<lambda>r. ok (contents r))"

definition quote_runner :: "Runner \<Rightarrow> string" where
  "quote_runner runner = ''styrolite runner '' @ [CHR 0x27] @ runner_executable runner @ [CHR 0x27]"

definition runner_run :: "Runner \<Rightarrow> 'a configurable \<Rightarrow> (Config \<Rightarrow> string list) \<Rightarrow> 'a \<Rightarrow> int io" where
  "runner_run runner C ser config =
     try_io new_config_file (\<lambda>config_file.
     try_io (write_config C ser config config_file) (\<lambda>_.
     try_io (sys_res (Run (case create_command runner config_file of (p, args) \<Rightarrow> CommandStatus p args))) (\<lambda>r.
     case status r of
       Exited_status _ code \<Rightarrow> ok code
     | _ \<Rightarrow> fail (Msg (quote_runner runner @ '' did not exit normally: '')))))"

definition runner_exec :: "Runner \<Rightarrow> 'a configurable \<Rightarrow> (Config \<Rightarrow> string list) \<Rightarrow> 'a \<Rightarrow> unit io" where
  "runner_exec runner C ser config =
     try_io new_config_file (\<lambda>config_file.
     try_io (write_config C ser config config_file) (\<lambda>_.
     try_io (sys (Run (case create_command runner config_file of (p, args) \<Rightarrow> CommandExec p args))) (\<lambda>r.
     fail (Context (''failed to exec '' @ quote_runner runner @ '': '') (OsError (errno r))))))"

text \<open>The variants behind the feature \<open>async\<close> go through tokio's \<open>Command\<close>, which makes the same calls; no
  other task of the program runs while they wait.\<close>

definition create_command_async :: "Runner \<Rightarrow> string \<Rightarrow> string \<times> string list" where
  "create_command_async runner config_file = (runner_executable runner, [config_file])"

definition runner_run_async :: "Runner \<Rightarrow> 'a configurable \<Rightarrow> (Config \<Rightarrow> string list) \<Rightarrow> 'a \<Rightarrow> int io" where
  "runner_run_async runner C ser config =
     try_io new_config_file (\<lambda>config_file.
     try_io (write_config C ser config config_file) (\<lambda>_.
     try_io (sys_res (Run (case create_command_async runner config_file of (p, args) \<Rightarrow> CommandStatus p args))) (\<lambda>r.
     case status r of
       Exited_status _ code \<Rightarrow> ok code
     | _ \<Rightarrow> fail (Msg (quote_runner runner @ '' did not exit normally: '')))))"

lemma runner_run_async_eq: "runner_run_async = runner_run"
  by (intro ext) (simp add: runner_run_async_def runner_run_def create_command_async_def create_command_def)

section \<open>The program that is run\<close>

definition styrolite_main :: "nat \<Rightarrow> (string \<Rightarrow> Config result) \<Rightarrow> string list \<Rightarrow> unit io" where
  "styrolite_main fuel dec args =
     (if length args \<le> 1 then fail (Msg ''missing config file path (usage: styrolite <config.json>)'')
      else
        let config_path = args ! 1; quoted = [CHR 0x27] @ config_path @ [CHR 0x27] in
        try_io (sys (Fs (PathExists config_path))) (\<lambda>r.
        if failed r then fail (Msg (''config file '' @ quoted @ '' does not exist''))
        else
          try_io (map_err (Context (''failed to read config file '' @ quoted))
            (sys_res (Fs (ReadFile config_path)))) (\<lambda>raw.
          try_io (map_err (Context (''failed to parse config file '' @ quoted))
            (Ret (dec (contents raw)))) (\<lambda>config.
          case config of
            Create create \<Rightarrow> create_wrap fuel create
          | Attach attach \<Rightarrow> attach_wrap fuel attach))))"

section \<open>What is written\<close>

text \<open>The text that has reached the file.\<close>

definition written_by :: "string \<Rightarrow> event \<Rightarrow> string" where
  "written_by path e =
     (case e of
        (Run (TempFileWrite p t), Some r) \<Rightarrow> if p = path \<and> \<not> failed r then t else []
      | _ \<Rightarrow> [])"

definition written :: "string \<Rightarrow> event list \<Rightarrow> string" where
  "written path tr = concat (map (written_by path) tr)"

lemma written_simps [simp]:
  "written path [] = []" "written path (e # tr) = written_by path e @ written path tr"
  "written path (tr @ tr') = written path tr @ written path tr'"
  by (simp_all add: written_def)

lemma written_by_simps [simp]:
  "written_by path (Run (TempFileWrite path t), Some r) = (if failed r then [] else t)"
  "written_by path (Run (TempFileFlush q), x) = []"
  "written_by path (Run (TempFileNew a b), x) = []"
  "written_by path (Run (CommandStatus a as), x) = []"
  "written_by path (Run (CommandExec a as), x) = []"
  by (auto simp: written_by_def split: option.split)

text \<open>A success of the pieces: all calls succeeded, and the file followed by the buffer is the text.\<close>

lemma succeeds_write_pieces:
  "run K w (write_pieces path buf ps) = (tr, Done (buf', Inr ()), w') \<Longrightarrow>
     list_all event_ok tr \<and> written path tr @ buf' = buf @ concat ps"
proof (induction ps arbitrary: buf w tr)
  case (Cons p ps)
  have "BUF_SIZE \<le> BUF_SIZE - length buf \<Longrightarrow> buf = []" by (cases buf) (auto simp: BUF_SIZE_def)
  with Cons show ?case
    by (fastforce simp: flush_buf_def sys_unit_def run_bind split: if_splits option.splits prod.splits)
qed simp

text \<open>A configuration that counts as written: everything has reached the file but what was left in
  the buffer, which was written without looking at the result.\<close>

definition config_saved :: "string \<Rightarrow> string \<Rightarrow> event list \<Rightarrow> bool" where
  "config_saved text path tr \<longleftrightarrow>
     (\<exists>ws buf d r. tr = ws @ d @ [(Run (TempFileFlush path), Some r)] \<and> \<not> failed r \<and>
        list_all event_ok ws \<and> written path ws @ buf = text \<and>
        (if buf = [] then d = [] else \<exists>x. d = [(Run (TempFileWrite path buf), Some x)]))"

lemma succeeds_buffered:
  assumes "succeeds K w (buffered_write path ps) tr u w'"
  shows "\<exists>ws buf d. tr = ws @ d \<and> list_all event_ok ws \<and> written path ws @ buf = concat ps \<and>
     (if buf = [] then d = [] else \<exists>x. d = [(Run (TempFileWrite path buf), Some x)])"
proof -
  from assms obtain ws buf w1 d where ws: "run K w (write_pieces path [] ps) = (ws, Done (buf, Inr ()), w1)"
    and d: "\<exists>y. run K w1 (flush_buf path buf) = (d, Done y, w')" and tr: "tr = ws @ d"
    by (auto simp: succeeds_def buffered_write_def run_bind split: prod.splits outcome.splits)
  from d have "if buf = [] then d = [] else \<exists>x. d = [(Run (TempFileWrite path buf), Some x)]"
    by (auto simp: flush_buf_def run_bind sys_unit_def split: if_splits prod.splits option.splits)
  moreover from succeeds_write_pieces [OF ws]
  have "list_all event_ok ws" "written path ws @ buf = concat ps" by simp_all
  ultimately show ?thesis using tr by blast
qed

lemma succeeds_write_config:
  assumes "succeeds K w (write_config C ser config path) tr u w'"
  shows "\<exists>conf. encapsulate C config = Inr conf \<and> validate C config = Inr () \<and>
     config_saved (concat (ser conf)) path tr"
proof -
  from assms obtain conf t1 u1 w1 r where e: "encapsulate C config = Inr conf" "validate C config = Inr ()"
    and b: "succeeds K w (buffered_write path (ser conf)) t1 u1 w1"
    and tr: "tr = t1 @ [(Run (TempFileFlush path), Some r)]" "\<not> failed r"
    by (auto simp: write_config_def succeeds_try)
  from succeeds_buffered [OF b] obtain ws buf d where "t1 = ws @ d" "list_all event_ok ws"
    "written path ws @ buf = concat (ser conf)"
    "if buf = [] then d = [] else \<exists>x. d = [(Run (TempFileWrite path buf), Some x)]" by blast
  with tr have "config_saved (concat (ser conf)) path tr"
    unfolding config_saved_def by (intro exI [of _ ws] exI [of _ buf] exI [of _ d] exI [of _ r]) simp
  with e show ?thesis by blast
qed

definition is_spawn :: "syscall \<Rightarrow> bool" where
  "is_spawn s = (case s of Run (CommandStatus p a) \<Rightarrow> True | Run (CommandExec p a) \<Rightarrow> True | _ \<Rightarrow> False)"

lemma is_spawn_simps [simp]:
  "is_spawn (Run (CommandStatus p a))" "is_spawn (Run (CommandExec p a))"
  "\<not> is_spawn (Run (TempFileNew x y))" "\<not> is_spawn (Run (TempFileWrite x y))"
  "\<not> is_spawn (Run (TempFileFlush x))"
  by (simp_all add: is_spawn_def)

lemma only_calls_write_pieces: "only_calls (\<lambda>s. \<not> is_spawn s) (write_pieces path buf ps)"
proof (induction ps arbitrary: buf)
  case (Cons p ps)
  then show ?case
    by (auto simp: flush_buf_def intro!: only_calls_bind split: sum.splits)
qed simp

lemma no_spawn:
  "only_calls (\<lambda>s. \<not> is_spawn s) new_config_file"
  "only_calls (\<lambda>s. \<not> is_spawn s) (write_config C ser config path)"
  by (auto simp: new_config_file_def write_config_def buffered_write_def flush_buf_def only_calls_write_pieces
      intro!: only_calls_try only_calls_bind)

text \<open>Where the program is started, after both the file was made and the configuration saved.\<close>

lemma spawn_reached:
  assumes "trace K w (try_io new_config_file (\<lambda>f. try_io (write_config C ser config f) (\<lambda>_. rest f))) =
      pre @ (s, x) # post" and "is_spawn s"
  obtains f conf wr w' pre' where "pre = (Run (TempFileNew ''styrolite-cfg-'' ''.json''), Some f) # wr @ pre'"
    "encapsulate C config = Inr conf" "config_saved (concat (ser conf)) (contents f) wr"
    "trace K w' (rest (contents f)) = pre' @ (s, x) # post"
    "outcome_of K w (try_io new_config_file (\<lambda>f. try_io (write_config C ser config f) (\<lambda>_. rest f))) =
      outcome_of K w' (rest (contents f))"
proof -
  let ?k = "\<lambda>f. try_io (write_config C ser config f) (\<lambda>_. rest f)"
  obtain path w1 p1 where 1: "succeeds K w new_config_file (trace K w new_config_file) path w1"
    "pre = trace K w new_config_file @ p1" and r1: "trace K w1 (?k path) = p1 @ (s, x) # post"
    by (rule try_reached [OF assms(1) assms(2) no_spawn(1)], rule that)
  obtain u w2 p2 where 2: "succeeds K w1 (write_config C ser config path) (trace K w1 (write_config C ser config path)) u w2"
    "p1 = trace K w1 (write_config C ser config path) @ p2" and r2: "trace K w2 (rest path) = p2 @ (s, x) # post"
    by (rule try_reached [OF r1 assms(2) no_spawn(2)], rule that)
  from 1(1) obtain f where f: "trace K w new_config_file = [(Run (TempFileNew ''styrolite-cfg-'' ''.json''), Some f)]"
    "path = contents f"
    by (auto simp: new_config_file_def succeeds_try)
  have "outcome_of K w (try_io new_config_file ?k) = outcome_of K w2 (rest path)"
    by (simp only: try_succeeds(2) [OF 1(1)] try_succeeds(2) [OF 2(1)])
  with 1 2 r2 f succeeds_write_config [OF 2(1)] that show thesis by auto
qed

lemma saved_written: "config_saved text path tr \<Longrightarrow> list_all event_ok tr \<Longrightarrow> written path tr = text"
  unfolding config_saved_def by (auto split: if_splits)

section \<open>How writing ends\<close>

text \<open>A configuration that was not saved: a write failed, all before it having succeeded, and was at most
  tried once more with the same text when the writer was dropped; or all was written but what was left in
  the buffer, and the flush failed; or a call never returned. The error is that of the first failing call
  whose result is looked at.\<close>

definition saving :: "string \<Rightarrow> syscall \<Rightarrow> bool" where
  "saving path s \<longleftrightarrow> s = Run (TempFileFlush path) \<or> (\<exists>t. s = Run (TempFileWrite path t))"

inductive not_saved :: "string \<Rightarrow> string \<Rightarrow> event list \<Rightarrow> 'a result outcome \<Rightarrow> bool" for body path where
  write_failed: "list_all (saving path) (calls ws) \<Longrightarrow> list_all event_ok ws \<Longrightarrow> failed r \<Longrightarrow>
    prefix (written path ws @ t) body \<Longrightarrow> d = [] \<or> (\<exists>x. d = [(Run (TempFileWrite path t), Some x)]) \<Longrightarrow>
    not_saved body path (ws @ (Run (TempFileWrite path t), Some r) # d) (Done (Inl (OsError (errno r))))"
| flush_failed: "list_all (saving path) (calls ws) \<Longrightarrow> list_all event_ok ws \<Longrightarrow> failed r \<Longrightarrow>
    written path ws @ buf = body \<Longrightarrow>
    (if buf = [] then d = [] else \<exists>x. d = [(Run (TempFileWrite path buf), Some x)]) \<Longrightarrow>
    not_saved body path (ws @ d @ [(Run (TempFileFlush path), Some r)]) (Done (Inl (OsError (errno r))))"
| never_returned: "list_all (saving path) (calls ws) \<Longrightarrow> saving path s \<Longrightarrow> not_saved body path (ws @ [(s, None)]) Gone"

lemma calls_append [simp]: "calls (tr @ tr') = calls tr @ calls tr'"
  by (simp add: calls_def)

lemma flush_buf_run:
  "run K w (flush_buf path buf) =
     (if buf = [] then ([], Done ([], Inr ()), w)
      else case K w (Run (TempFileWrite path buf)) of
        (None, w') \<Rightarrow> ([(Run (TempFileWrite path buf), None)], Gone, w')
      | (Some r, w') \<Rightarrow> ([(Run (TempFileWrite path buf), Some r)],
          Done (if failed r then (buf, Inl (OsError (errno r))) else ([], Inr ())), w'))"
  by (simp add: flush_buf_def sys_unit_def split: prod.split option.split)

lemma write_pieces_calls: "only_calls (saving path) (write_pieces path buf ps)"
proof (induction ps arbitrary: buf)
  case (Cons p ps)
  then show ?case
    by (auto simp: flush_buf_def saving_def intro!: only_calls_bind split: sum.splits)
qed simp

text \<open>The pieces end with all written or in the buffer, with the first write that failed, or never.\<close>

definition pieces_end :: "string \<Rightarrow> string \<Rightarrow> event list \<Rightarrow> (string \<times> unit result) outcome \<Rightarrow> bool" where
  "pieces_end text path tr out \<longleftrightarrow>
     (case out of
        Done (buf, Inr u) \<Rightarrow> list_all event_ok tr \<and> written path tr @ buf = text
      | Done (buf, Inl e) \<Rightarrow> tr \<noteq> [] \<and> list_all event_ok (butlast tr) \<and>
          (\<exists>t r. last tr = (Run (TempFileWrite path t), Some r) \<and> failed r \<and> e = OsError (errno r) \<and> buf \<in> {[], t} \<and>
             prefix (written path (butlast tr) @ t) text)
      | Gone \<Rightarrow> tr \<noteq> [] \<and> snd (last tr) = None
      | _ \<Rightarrow> False)"

lemma pieces_end_Cons:
  assumes "pieces_end text path tr out" and "\<not> failed r"
  shows "pieces_end (t @ text) path ((Run (TempFileWrite path t), Some r) # tr) out"
  using assms unfolding pieces_end_def by (auto split: outcome.splits prod.splits sum.splits)

lemma pieces_end_fail:
  assumes "failed r" and "buf = [] \<or> buf = t" and "prefix t text"
  shows "pieces_end text path [(Run (TempFileWrite path t), Some r)] (Done (buf, Inl (OsError (errno r))))"
  using assms by (auto simp: pieces_end_def)

text \<open>One write, and what comes after it.\<close>

lemma pieces_end_write:
  assumes "run K w (bind (sys_unit (Run (TempFileWrite path t))) (\<lambda>res.
      case res of Inl e \<Rightarrow> Ret (buf, Inl e) | Inr _ \<Rightarrow> k)) = (tr, out, w')"
    and "buf \<in> {[], t}" and "\<And>w1 tr1. run K w1 k = (tr1, out, w') \<Longrightarrow> pieces_end text path tr1 out"
  shows "pieces_end (t @ text) path tr out"
proof -
  obtain x w1 where K: "K w (Run (TempFileWrite path t)) = (x, w1)" by fastforce
  show ?thesis
  proof (cases x)
    case None
    with K assms(1) show ?thesis by (auto simp: sys_unit_def pieces_end_def)
  next
    case (Some r)
    show ?thesis
    proof (cases "failed r")
      case True
      with Some K assms(1) have "tr = [(Run (TempFileWrite path t), Some r)]" "out = Done (buf, Inl (OsError (errno r)))"
        by (auto simp: sys_unit_def)
      with True assms(2) show ?thesis by (simp add: pieces_end_fail)
    next
      case False
      with Some K assms(1,3) show ?thesis
        by (auto simp: sys_unit_def intro!: pieces_end_Cons split: prod.splits)
    qed
  qed
qed

lemma pieces_end_flush:
  assumes "run K w (bind (flush_buf path buf) (\<lambda>(buf', res).
      case res of Inl e \<Rightarrow> Ret (buf', Inl e) | Inr _ \<Rightarrow> k buf')) = (tr, out, w')"
    and "\<And>w1 tr1. run K w1 (k []) = (tr1, out, w') \<Longrightarrow> pieces_end text path tr1 out"
  shows "pieces_end (buf @ text) path tr out"
proof (cases "buf = []")
  case True
  with assms show ?thesis by (simp add: flush_buf_def)
next
  case False
  then have "bind (flush_buf path buf) (\<lambda>(buf', res). case res of Inl e \<Rightarrow> Ret (buf', Inl e) | Inr _ \<Rightarrow> k buf') =
      bind (sys_unit (Run (TempFileWrite path buf))) (\<lambda>res. case res of Inl e \<Rightarrow> Ret (buf, Inl e) | Inr _ \<Rightarrow> k [])"
    by (simp add: flush_buf_def sys_unit_def fun_eq_iff)
  with assms show ?thesis using pieces_end_write [of K w path buf buf "k []" tr out w' "text"] by simp
qed

lemma write_pieces_end:
  "run K w (write_pieces path buf ps) = (tr, out, w') \<Longrightarrow> pieces_end (buf @ concat ps) path tr out"
proof (induction ps arbitrary: buf w tr)
  case Nil
  then show ?case by (auto simp: pieces_end_def)
next
  case (Cons p ps)
  have "BUF_SIZE \<le> BUF_SIZE - length buf \<Longrightarrow> buf = []" by (cases buf) (auto simp: BUF_SIZE_def)
  then consider (fits) "length p < BUF_SIZE - length buf" | (over) "BUF_SIZE - length buf < length p"
    | (whole) "buf = []" "length p = BUF_SIZE" | (full) "length p = BUF_SIZE - length buf" "length p < BUF_SIZE"
    by (metis diff_le_self diff_zero linorder_neqE_nat list.size(3) nat_less_le)
  then show ?case
  proof cases
    case fits
    with Cons.prems Cons.IH [of w "buf @ p" tr] show ?thesis by simp
  next
    case over
    let ?k = "\<lambda>buf. if BUF_SIZE \<le> length p then bind (sys_unit (Run (TempFileWrite path p))) (\<lambda>res'.
        case res' of Inl e \<Rightarrow> Ret (buf, Inl e) | Inr _ \<Rightarrow> write_pieces path buf ps) else write_pieces path (buf @ p) ps"
    have k: "pieces_end (p @ concat ps) path tr1 out" if "run K w1 (?k []) = (tr1, out, w')" for w1 tr1
      using that Cons.IH [of _ "[]"] Cons.IH [of w1 p tr1] pieces_end_write [of K w1 path p "[]" "write_pieces path [] ps"]
      by (auto split: if_splits)
    from over Cons.prems have "run K w (bind (flush_buf path buf) (\<lambda>(buf', res).
        case res of Inl e \<Rightarrow> Ret (buf', Inl e) | Inr _ \<Rightarrow> ?k buf')) = (tr, out, w')" by simp
    from pieces_end_flush [OF this k] show ?thesis by simp
  next
    case whole
    with Cons.prems Cons.IH [of _ "[]"] pieces_end_write [of K w path p "[]" "write_pieces path [] ps" tr out w' "concat ps"]
    show ?thesis by simp
  next
    case full
    with Cons.prems Cons.IH [of w "buf @ p" tr] show ?thesis by simp
  qed
qed

lemma flush_buf_cases:
  assumes "run K w (flush_buf path buf) = (d, out, w')"
  obtains (returned) y where "out = Done y" "if buf = [] then d = [] else \<exists>x. d = [(Run (TempFileWrite path buf), Some x)]"
  | (gone) "out = Gone" "d \<noteq> []" "snd (last d) = None"
  using assms by (auto simp: flush_buf_run split: if_splits prod.splits option.splits)

lemma not_saved_gone:
  assumes "list_all (saving path) (calls tr)" and "tr \<noteq> []" and "snd (last tr) = None"
  shows "not_saved text path tr Gone"
proof (cases tr rule: rev_cases)
  case (snoc ws e)
  with assms have "e = (fst e, None)" by (cases e) simp
  with snoc assms(1) never_returned [of path ws "fst e" "text"] show ?thesis
    by (cases e) (simp add: calls_def)
qed (use assms in simp)

lemma not_saved_write:
  assumes "list_all (saving path) (calls (ws @ d))" and "pieces_end text path ws (Done (buf, Inl e))"
    and "if buf = [] then d = [] else \<exists>x. d = [(Run (TempFileWrite path buf), Some x)]"
  shows "not_saved text path (ws @ d) (Done (Inl e))"
proof -
  from assms(2) obtain ws0 t r where ws: "ws = ws0 @ [(Run (TempFileWrite path t), Some r)]" "list_all event_ok ws0"
    "failed r" "e = OsError (errno r)" "buf \<in> {[], t}" "prefix (written path ws0 @ t) text"
    by (cases ws rule: rev_cases) (auto simp: pieces_end_def)
  have "d = [] \<or> (\<exists>x. d = [(Run (TempFileWrite path t), Some x)])"
    using assms(3) ws(5) by (auto split: if_splits)
  with write_failed [of path ws0 r t "text" d] assms(1) ws show ?thesis by simp
qed

lemma flush_end:
  assumes "list_all event_ok ws" and "written path ws @ buf = text"
    and "if buf = [] then d = [] else \<exists>x. d = [(Run (TempFileWrite path buf), Some x)]"
    and "list_all (saving path) (calls tr)" and tr: "tr = ws @ d @ [(Run (TempFileFlush path), x)]"
  shows "let out = (case x of None \<Rightarrow> Gone
      | Some r \<Rightarrow> Done (if failed r then Inl (OsError (errno r)) else Inr ())) in
    (config_saved text path tr \<and> out = Done (Inr ())) \<or> not_saved text path tr out"
proof (cases x)
  case None
  with tr not_saved_gone [OF assms(4)] show ?thesis by simp
next
  case (Some r)
  show ?thesis
  proof (cases "failed r")
    case True
    with Some assms flush_failed [of path ws r buf "text" d] have "not_saved text path tr (Done (Inl (OsError (errno r))))"
      by simp
    with Some True show ?thesis by simp
  next
    case False
    with Some assms have "config_saved text path tr" unfolding config_saved_def by blast
    with Some False show ?thesis by simp
  qed
qed

text \<open>So does the whole of \<open>write_config\<close>, with the last write and the flush of the file.\<close>

lemma write_config_ends:
  assumes "validate C config = Inr ()" and "encapsulate C config = Inr conf"
  shows "let tr = trace K w (write_config C ser config path); out = outcome_of K w (write_config C ser config path) in
    (config_saved (concat (ser conf)) path tr \<and> out = Done (Inr ())) \<or> not_saved (concat (ser conf)) path tr out"
proof -
  let ?text = "concat (ser conf)" and ?p = "write_config C ser config path"
  have "only_calls (saving path) ?p"
    using write_pieces_calls by (auto simp: write_config_def buffered_write_def flush_buf_def saving_def
        intro!: only_calls_try only_calls_bind)
  then have calls: "list_all (saving path) (calls (trace K w ?p))"
    using only_calls_trace [of "saving path" ?p _ _ K w] by (auto simp: calls_def list_all_iff)
  have p: "?p = try_io (buffered_write path (ser conf)) (\<lambda>_. sys_unit (Run (TempFileFlush path)))"
    using assms by (simp add: write_config_def)
  obtain ws out1 w1 where ws: "run K w (write_pieces path [] (ser conf)) = (ws, out1, w1)" by (metis prod_cases3)
  have e: "pieces_end ?text path ws out1" using write_pieces_end [OF ws] by simp
  have never: ?thesis if "run K w (buffered_write path (ser conf)) = (tr, Gone, w')" "tr \<noteq> []" "snd (last tr) = None" for tr w'
    using that calls not_saved_gone [of path tr ?text] unfolding p
    by (simp add: trace_def outcome_of_def try_io_def run_bind)
  show ?thesis
  proof (cases out1)
    case Gone
    with ws e show ?thesis by (intro never [of ws w1]) (simp_all add: buffered_write_def run_bind pieces_end_def)
  next
    case (Done a)
    obtain buf res where a: "a = (buf, res)" by fastforce
    obtain d out2 w2 where d: "run K w1 (flush_buf path buf) = (d, out2, w2)" by (metis prod_cases3)
    then show ?thesis
    proof (cases rule: flush_buf_cases)
      case gone
      with ws d a Done show ?thesis
        by (intro never [of "ws @ d" w2]) (simp_all add: buffered_write_def run_bind)
    next
      case returned
      have b: "run K w (buffered_write path (ser conf)) = (ws @ d, Done res, w2)"
        using ws d a Done returned(1) by (simp add: buffered_write_def run_bind)
      show ?thesis
      proof (cases res)
        case (Inl err)
        with b have "trace K w ?p = ws @ d" "outcome_of K w ?p = Done (Inl err)"
          unfolding p by (simp_all add: trace_def outcome_of_def try_io_def run_bind)
        with calls e a Done Inl returned(2) show ?thesis by (simp add: not_saved_write Let_def)
      next
        case (Inr u)
        obtain x w3 where K: "K w2 (Run (TempFileFlush path)) = (x, w3)" by fastforce
        with b Inr have t: "trace K w ?p = ws @ d @ [(Run (TempFileFlush path), x)]"
          "outcome_of K w ?p = (case x of None \<Rightarrow> Gone | Some r \<Rightarrow> Done (if failed r then Inl (OsError (errno r)) else Inr ()))"
          unfolding p by (auto simp: trace_def outcome_of_def try_io_def run_bind sys_unit_def split: option.split)
        from e a Done Inr have "list_all event_ok ws" "written path ws @ buf = ?text" by (simp_all add: pieces_end_def)
        from flush_end [OF this returned(2) calls t(1)] t(2) show ?thesis by simp
      qed
    qed
  qed (use e in \<open>simp_all add: pieces_end_def\<close>)
qed

text \<open>What a run of the program that gets as far as the execution has read.\<close>

lemma main_reaches_exec:
  assumes "trace K w (styrolite_main fuel dec [p, path]) = pre @ (s, x) # post" and "is_exec s"
  obtains r1 r2 conf w' pre' where "pre = [(Fs (PathExists path), Some r1), (Fs (ReadFile path), Some r2)] @ pre'"
    "dec (contents r2) = Inr conf"
    "trace K w' (case conf of Create req \<Rightarrow> create_wrap fuel req | Attach req \<Rightarrow> attach_wrap fuel req) =
      pre' @ (s, x) # post"
proof -
  obtain y1 w1 where 1: "K w (Fs (PathExists path)) = (y1, w1)" by (cases "K w (Fs (PathExists path))")
  obtain y2 w2 where 2: "K w1 (Fs (ReadFile path)) = (y2, w2)" by (cases "K w1 (Fs (ReadFile path))")
  from assms(1) 1 2 have "\<exists>r1 r2 conf pre'. pre = [(Fs (PathExists path), Some r1), (Fs (ReadFile path), Some r2)] @ pre' \<and>
      dec (contents r2) = Inr conf \<and>
      trace K w2 (case conf of Create req \<Rightarrow> create_wrap fuel req | Attach req \<Rightarrow> attach_wrap fuel req) = pre' @ (s, x) # post"
    using assms(2)
    by (cases "y1"; cases "y2"; cases "dec (contents (the y2))")
      (auto simp: styrolite_main_def Let_def sys_def sys_res_def Cons_eq_append_conv split: if_splits)
  with that show thesis by blast
qed

section \<open>Properties\<close>

lemma not_saved_try:
  assumes "not_saved body path (trace K w m) (outcome_of K w m)"
  shows "trace K w (try_io m f) = trace K w m" "not_saved body path (trace K w m) (outcome_of K w (try_io m f))"
proof -
  obtain tr out w' where run: "run K w m = (tr, out, w')" by (metis prod_cases3)
  from assms show "trace K w (try_io m f) = trace K w m"
    by (cases rule: not_saved.cases) (use run in \<open>auto simp: trace_def outcome_of_def try_io_def run_bind\<close>)
  from assms show "not_saved body path (trace K w m) (outcome_of K w (try_io m f))"
    by (cases rule: not_saved.cases)
      (use run in \<open>auto simp: trace_def outcome_of_def try_io_def run_bind intro: not_saved.intros\<close>)
qed

text \<open>What the result of the command means, and what a run of the runner ends with, on every path.\<close>

definition command_result :: "Runner \<Rightarrow> reply option \<Rightarrow> int result outcome" where
  "command_result runner x =
     (case x of
        None \<Rightarrow> Gone
      | Some r \<Rightarrow>
          if failed r then Done (Inl (OsError (errno r)))
          else (case status r of
                  Exited_status pid code \<Rightarrow> Done (Inr code)
                | _ \<Rightarrow> Done (Inl (Msg (''styrolite runner '' @ [CHR 0x27] @ runner_executable runner @ [CHR 0x27] @
                    '' did not exit normally: '')))))"

definition runner_ends :: "Runner \<Rightarrow> 'a configurable \<Rightarrow> (Config \<Rightarrow> string list) \<Rightarrow> 'a \<Rightarrow> event list \<Rightarrow> int result outcome \<Rightarrow> bool" where
  "runner_ends runner C ser config tr out \<longleftrightarrow>
     (\<exists>x rest. tr = (Run (TempFileNew ''styrolite-cfg-'' ''.json''), x) # rest \<and>
        (case x of
           None \<Rightarrow> rest = [] \<and> out = Gone
         | Some f \<Rightarrow>
             if failed f then rest = [] \<and> out = Done (Inl (OsError (errno f)))
             else (case validate C config of
                     Inl e \<Rightarrow> rest = [] \<and> out = Done (Inl e)
                   | Inr u \<Rightarrow>
                       (case encapsulate C config of
                          Inl e \<Rightarrow> rest = [] \<and> out = Done (Inl e)
                        | Inr conf \<Rightarrow>
                            not_saved (concat (ser conf)) (contents f) rest out \<or>
                            (\<exists>wr y. rest = wr @ [(Run (CommandStatus (runner_executable runner) [contents f]), y)] \<and>
                               config_saved (concat (ser conf)) (contents f) wr \<and> out = command_result runner y)))))"

text \<open>C33. What the runner ends with, on every path. It first makes the temporary file, and fails with the
  error of that call; then with the error of the validation, or of the encapsulation, without another
  call; then with the error of the first failing write that the buffered writer makes before it is
  dropped, or of the flush, the program not being started in any of these cases. Else the configuration
  was saved in the file, and the last call starts the program with the path of the file as its only
  argument: if that fails its error is the result, if the program exited its exit code is, and else, as
  when a signal killed it, the result is the error that it did not exit normally (the status that the
  code adds to the message is left out).\<close>

theorem run_result:
  "runner_ends runner C ser config (trace K w (runner_run runner C ser config)) (outcome_of K w (runner_run runner C ser config))"
proof -
  let ?cmd = "\<lambda>f. try_io (sys_res (Run (CommandStatus (runner_executable runner) [f]))) (\<lambda>r.
     case status r of
       Exited_status _ code \<Rightarrow> ok code
     | _ \<Rightarrow> fail (Msg (quote_runner runner @ '' did not exit normally: '')))"
  have cmd: "\<exists>y. trace K w (?cmd f) = [(Run (CommandStatus (runner_executable runner) [f]), y)] \<and>
      outcome_of K w (?cmd f) = command_result runner y" for w f
    by (auto simp: sys_res_def command_result_def quote_runner_def split: prod.split option.split wait_status.split)
  obtain x w1 where K: "K w (Run (TempFileNew ''styrolite-cfg-'' ''.json'')) = (x, w1)" by fastforce
  show ?thesis
  proof (cases "\<exists>f conf. x = Some f \<and> \<not> failed f \<and> validate C config = Inr () \<and> encapsulate C config = Inr conf")
    case False
    with K show ?thesis
      by (cases x; cases "validate C config"; cases "encapsulate C config")
        (auto simp: runner_ends_def runner_run_def new_config_file_def write_config_def sys_res_def)
  next
    case True
    then obtain f conf where f: "x = Some f" "\<not> failed f" "validate C config = Inr ()" "encapsulate C config = Inr conf" by blast
    let ?w = "write_config C ser config (contents f)"
    have t: "trace K w (runner_run runner C ser config) = (Run (TempFileNew ''styrolite-cfg-'' ''.json''), Some f) #
        trace K w1 (try_io ?w (\<lambda>_. ?cmd (contents f)))"
      "outcome_of K w (runner_run runner C ser config) = outcome_of K w1 (try_io ?w (\<lambda>_. ?cmd (contents f)))"
      using K f by (simp_all add: runner_run_def new_config_file_def sys_res_def create_command_def)
    have "(\<exists>wr y. trace K w1 (try_io ?w (\<lambda>_. ?cmd (contents f))) =
          wr @ [(Run (CommandStatus (runner_executable runner) [contents f]), y)] \<and>
        config_saved (concat (ser conf)) (contents f) wr \<and>
        outcome_of K w1 (try_io ?w (\<lambda>_. ?cmd (contents f))) = command_result runner y) \<or>
      not_saved (concat (ser conf)) (contents f) (trace K w1 (try_io ?w (\<lambda>_. ?cmd (contents f))))
        (outcome_of K w1 (try_io ?w (\<lambda>_. ?cmd (contents f))))"
    proof (cases "not_saved (concat (ser conf)) (contents f) (trace K w1 ?w) (outcome_of K w1 ?w)")
      case True
      show ?thesis
        by (rule disjI2, subst not_saved_try(1) [OF True]) (rule not_saved_try(2) [OF True])
    next
      case False
      with write_config_ends [OF f(3,4), of K w1 ser "contents f"]
      have saved: "config_saved (concat (ser conf)) (contents f) (trace K w1 ?w)" "outcome_of K w1 ?w = Done (Inr ())"
        by (auto simp: Let_def)
      then obtain w2 where "succeeds K w1 ?w (trace K w1 ?w) () w2" unfolding outcome_succeeds by blast
      note go_on = try_succeeds [OF this, of "\<lambda>_. ?cmd (contents f)"]
      obtain y where "trace K w2 (?cmd (contents f)) = [(Run (CommandStatus (runner_executable runner) [contents f]), y)]"
        "outcome_of K w2 (?cmd (contents f)) = command_result runner y" using cmd by blast
      with saved(1) show ?thesis
        unfolding go_on by (intro disjI1 exI [of _ "trace K w1 ?w"] exI [of _ y]) simp
    qed
    with t f show ?thesis by (auto simp: runner_ends_def)
  qed
qed

text \<open>A program that exits with 3.\<close>

definition exit3_kernel :: "unit kernel" where
  "exit3_kernel = scripted (\<lambda>_. False) (\<lambda>s. case s of
      Run (TempFileNew a b) \<Rightarrow> reply0\<lparr>contents := ''/tmp/c.json''\<rparr>
    | Run (CommandStatus p a) \<Rightarrow> reply0\<lparr>status := Exited_status 9 3\<rparr>
    | _ \<Rightarrow> reply0)"

text \<open>C39. The writer does not look at the result of its last write. A configuration shorter than the
  buffer reaches the file in that one write, when the writer is dropped; so whatever that write returns, if
  the file could be made and the flush succeeds, \<open>run\<close> starts the program on the file as its next and
  last call, and \<open>exec\<close> likewise replaces the process by it. Where the write failed, as it does on a full
  disk, nothing has been written to the file that the program is started on.\<close>

theorem config_write_unchecked:
  assumes "validate C config = Inr ()" "encapsulate C config = Inr conf"
    and "concat (ser conf) \<noteq> []" "length (concat (ser conf)) < BUF_SIZE"
    and "K w (Run (TempFileNew ''styrolite-cfg-'' ''.json'')) = (Some f, w1)" "\<not> failed f"
    and "K w1 (Run (TempFileWrite (contents f) (concat (ser conf)))) = (Some x, w2)"
    and "K w2 (Run (TempFileFlush (contents f))) = (Some y, w3)" "\<not> failed y"
  shows "let pre = [(Run (TempFileNew ''styrolite-cfg-'' ''.json''), Some f),
        (Run (TempFileWrite (contents f) (concat (ser conf))), Some x), (Run (TempFileFlush (contents f)), Some y)];
      start = Run (CommandStatus (runner_executable runner) [contents f]);
      replace = Run (CommandExec (runner_executable runner) [contents f])
     in trace K w (runner_run runner C ser config) = pre @ [(start, fst (K w3 start))] \<and>
        trace K w (runner_exec runner C ser config) = pre @ [(replace, fst (K w3 replace))] \<and>
        written (contents f) pre = (if failed x then [] else concat (ser conf))"
proof -
  have b: "length (buf @ concat ps) < BUF_SIZE \<Longrightarrow> write_pieces path buf ps = Ret (buf @ concat ps, Inr ())" for path buf ps
    by (induction ps arbitrary: buf) auto
  have p: "write_config C ser config (contents f) =
      Call (Run (TempFileWrite (contents f) (concat (ser conf)))) (\<lambda>_. sys_unit (Run (TempFileFlush (contents f))))"
    using assms(1-4) b [of "[]" "ser conf"] by (simp add: write_config_def buffered_write_def flush_buf_def sys_unit_def fun_eq_iff)
  show ?thesis
    using assms(5-9) unfolding runner_run_def runner_exec_def new_config_file_def create_command_def
    by (auto simp: p sys_res_def sys_unit_def sys_def Let_def split: prod.split option.split wait_status.split)
qed

text \<open>A disk that is full: the program is started on an empty file.\<close>

definition full_disk :: "unit kernel" where
  "full_disk = scripted (\<lambda>_. False) (\<lambda>s. case s of
      Run (TempFileNew a b) \<Rightarrow> reply0\<lparr>contents := ''/tmp/c.json''\<rparr>
    | Run (TempFileWrite p t) \<Rightarrow> reply0\<lparr>rc := -1, errno := 28\<rparr> | _ \<Rightarrow> reply0)"

theorem config_write_unchecked_witness:
  "let tr = trace full_disk () (runner_run (Runner_new ''styrolite'') create_configurable (\<lambda>_. [''{'', ''}''])
     CreateRequest_default)
   in fst (last tr) = Run (CommandStatus ''styrolite'' [''/tmp/c.json'']) \<and> written ''/tmp/c.json'' tr = []"
proof -
  let ?f = "reply0\<lparr>contents := ''/tmp/c.json''\<rparr>" and ?x = "reply0\<lparr>rc := -1, errno := 28\<rparr>"
  have c: "validate create_configurable CreateRequest_default = Inr ()"
    "encapsulate create_configurable CreateRequest_default = Inr (Create CreateRequest_default)"
    by (simp_all add: create_configurable_def validate_create_def encapsulate_create_def)
  show ?thesis
    using config_write_unchecked [OF c, of "\<lambda>_. [''{'', ''}'']" full_disk "()" ?f "()" ?x "()" reply0 "()" "Runner_new ''styrolite''"]
    by (simp add: BUF_SIZE_def Let_def full_disk_def scripted_def Runner_new_def reply0_def)
qed

text \<open>C20. The request that is run is the one that was given: if all calls of the runner up to the
  start of the program succeeded, the program is given the path as its argument and finds there what
  was written, and the decoder undoes the encoder on this request, then the program makes, after
  looking for the file and reading it, exactly the calls of the request's own \<open>wrap\<close>, and ends as
  it ends.\<close>

theorem run_reaches_wrap:
  assumes "trace K w (runner_run runner C ser config) = pre @ (Run (CommandStatus p args), x) # post"
    and "list_all event_ok pre"
    and "encapsulate C config = Inr conf" and "dec (concat (ser conf)) = Inr conf"
    and "K' v (Fs (PathExists (hd args))) = (Some r1, v1)" "\<not> failed r1"
    and "K' v1 (Fs (ReadFile (hd args))) = (Some r2, v2)" "\<not> failed r2"
    and "contents r2 = written (hd args) pre"
  shows "let prog = (case conf of Create req \<Rightarrow> create_wrap fuel req | Attach req \<Rightarrow> attach_wrap fuel req)
     in trace K' v (styrolite_main fuel dec (p # args)) =
          [(Fs (PathExists (hd args)), Some r1), (Fs (ReadFile (hd args)), Some r2)] @ trace K' v2 prog \<and>
        outcome_of K' v (styrolite_main fuel dec (p # args)) = outcome_of K' v2 prog"
proof -
  have sp: "is_spawn (Run (CommandStatus p args))" by simp
  let ?rest = "\<lambda>f. try_io (sys_res (Run (case create_command runner f of (p, args) \<Rightarrow> CommandStatus p args))) (\<lambda>r.
     case status r of
       Exited_status _ code \<Rightarrow> ok code
     | _ \<Rightarrow> fail (Msg (quote_runner runner @ '' did not exit normally: '')))"
  have eq: "runner_run runner C ser config =
      try_io new_config_file (\<lambda>f. try_io (write_config C ser config f) (\<lambda>_. ?rest f))"
    by (simp add: runner_run_def)
  obtain f conf' wr w' pre' where 1: "pre = (Run (TempFileNew ''styrolite-cfg-'' ''.json''), Some f) # wr @ pre'"
    "encapsulate C config = Inr conf'" and saved: "config_saved (concat (ser conf')) (contents f) wr"
    and t: "trace K w' (?rest (contents f)) = pre' @ (Run (CommandStatus p args), x) # post"
    by (rule spawn_reached [OF assms(1) [unfolded eq] sp]) (use eq in auto)
  have a: "pre' = [] \<and> args = [contents f]"
    using t by (auto simp: create_command_def sys_res_def append_eq_Cons_conv Cons_eq_append_conv
        split: option.splits prod.splits if_splits wait_status.splits)
  have "written (contents f) wr = concat (ser conf')"
    using saved_written [OF saved] assms(2) 1(1) by simp
  then have c: "contents r2 = concat (ser conf)"
    using assms(3,9) 1 a by simp
  show ?thesis
    using assms(4-8) a c
    by (cases conf) (simp_all add: styrolite_main_def Let_def sys_def sys_res_def)
qed

definition toy_ser :: "Config \<Rightarrow> string list" where
  "toy_ser c = (case c of Create req \<Rightarrow> [''{'', ''}''] | Attach req \<Rightarrow> [''[]''])"

definition toy_dec :: "string \<Rightarrow> Config result" where
  "toy_dec s = (if s = ''{}'' then Inr (Create CreateRequest_default) else Inl ParseError)"

definition file_kernel :: "unit kernel" where
  "file_kernel = scripted (\<lambda>_. False)
     (\<lambda>s. if s = Fs (ReadFile ''/tmp/c.json'') then reply0\<lparr>contents := ''{}''\<rparr> else reply0)"

theorem run_reaches_wrap_witness:
  "trace file_kernel () (styrolite_main 1 toy_dec [''styrolite'', ''/tmp/c.json'']) =
     [(Fs (PathExists ''/tmp/c.json''), Some reply0),
      (Fs (ReadFile ''/tmp/c.json''), Some (reply0\<lparr>contents := ''{}''\<rparr>))] @
     trace file_kernel () (create_wrap 1 CreateRequest_default)"
proof -
  let ?pre = "[(Run (TempFileNew ''styrolite-cfg-'' ''.json''), Some (reply0\<lparr>contents := ''/tmp/c.json''\<rparr>)),
      (Run (TempFileWrite ''/tmp/c.json'' ''{}''), Some reply0), (Run (TempFileFlush ''/tmp/c.json''), Some reply0)]"
  have t: "trace exit3_kernel () (runner_run (Runner_new ''styrolite'') create_configurable toy_ser
     CreateRequest_default) = ?pre @
     (Run (CommandStatus ''styrolite'' [''/tmp/c.json'']), Some (reply0\<lparr>status := Exited_status 9 3\<rparr>)) # []"
    by (simp add: runner_run_def new_config_file_def write_config_def create_configurable_def toy_ser_def
        validate_create_def encapsulate_create_def buffered_write_def BUF_SIZE_def flush_buf_def
        create_command_def Runner_new_def sys_res_def sys_unit_def exit3_kernel_def scripted_def reply0_def)
  have c: "encapsulate create_configurable CreateRequest_default = Inr (Create CreateRequest_default)"
    by (simp add: create_configurable_def encapsulate_create_def)
  show ?thesis
    using run_reaches_wrap [OF t _ c, of toy_dec file_kernel "()" reply0 "()" "reply0\<lparr>contents := ''{}''\<rparr>" "()" 1]
    by (simp add: toy_ser_def toy_dec_def file_kernel_def scripted_def reply0_def Let_def)
qed

text \<open>What \<open>styrolite\<close> refuses: without a path it fails without any call; a path that does not
  exist, a file that cannot be read and a text that cannot be parsed are each an error, and in none
  of these cases is any call made but to look for the file and to read it.\<close>

theorem main_refuses:
  "let tr = trace K w (styrolite_main fuel dec args); out = outcome_of K w (styrolite_main fuel dec args)
   in (if length args \<le> 1 then tr = [] \<and> (\<exists>m. out = Done (Inl (Msg m)))
       else calls (take 1 tr) = [Fs (PathExists (args ! 1))] \<and>
         (case snd (hd tr) of
            None \<Rightarrow> length tr = 1
          | Some r \<Rightarrow>
              if failed r then length tr = 1 \<and> (\<exists>m. out = Done (Inl (Msg m)))
              else calls (take 1 (tl tr)) = [Fs (ReadFile (args ! 1))] \<and>
                (case snd (hd (tl tr)) of
                   None \<Rightarrow> length tr = 2
                 | Some r' \<Rightarrow>
                     if failed r' \<or> isl (dec (contents r'))
                     then length tr = 2 \<and> (\<exists>m e. out = Done (Inl (Context m e))) else True)))"
proof (cases "length args \<le> 1")
  case False
  obtain x w1 where 1: "K w (Fs (PathExists (args ! 1))) = (x, w1)" by (cases "K w (Fs (PathExists (args ! 1)))")
  obtain y w2 where 2: "K w1 (Fs (ReadFile (args ! 1))) = (y, w2)" by (cases "K w1 (Fs (ReadFile (args ! 1)))")
  show ?thesis
  proof (cases y)
    case None
    with False 1 2 show ?thesis
      by (cases x) (auto simp: styrolite_main_def Let_def sys_def sys_res_def)
  next
    case (Some r')
    with False 1 2 show ?thesis
      by (cases x; cases "dec (contents r')") (auto simp: styrolite_main_def Let_def sys_def sys_res_def)
  qed
qed (simp add: styrolite_main_def Let_def)

end
