(* ===== verification/Jail.thy ===== *)
theory Jail
  imports Runner
begin

text \<open>
  The front end \<open>src/bin/styrojail.rs\<close> and the two programs of \<open>src/examples\<close>. The command line
  parser (clap) is not modelled: the front end starts from the parsed \<open>Cli\<close>, whose \<open>mount\<close> and
  \<open>limit\<close> values come from \<open>parse_mount\<close> and \<open>parse_resource_limit\<close>. The properties: what these
  two accept, and the request that a jail runs.
\<close>

section \<open>UTF-8\<close>

text \<open>\<open>Path::to_str\<close> is \<open>None\<close> on bytes that are not UTF-8; this is the test of the standard library.\<close>

definition byte_in :: "nat \<Rightarrow> nat \<Rightarrow> char \<Rightarrow> bool" where
  "byte_in lo hi c \<longleftrightarrow> lo \<le> (of_char c :: nat) \<and> (of_char c :: nat) \<le> hi"

definition lead3 :: "char \<Rightarrow> char \<Rightarrow> bool" where
  "lead3 a b \<longleftrightarrow> (byte_in 0xE0 0xE0 a \<and> byte_in 0xA0 0xBF b) \<or> (byte_in 0xED 0xED a \<and> byte_in 0x80 0x9F b) \<or>
     ((byte_in 0xE1 0xEC a \<or> byte_in 0xEE 0xEF a) \<and> byte_in 0x80 0xBF b)"

definition lead4 :: "char \<Rightarrow> char \<Rightarrow> bool" where
  "lead4 a b \<longleftrightarrow> (byte_in 0xF0 0xF0 a \<and> byte_in 0x90 0xBF b) \<or> (byte_in 0xF4 0xF4 a \<and> byte_in 0x80 0x8F b) \<or>
     (byte_in 0xF1 0xF3 a \<and> byte_in 0x80 0xBF b)"

fun utf8_valid :: "string \<Rightarrow> bool" where
  "utf8_valid [] = True"
| "utf8_valid (a # s1) =
     (if byte_in 0 0x7F a then utf8_valid s1
      else (case s1 of [] \<Rightarrow> False | b # s2 \<Rightarrow>
        if byte_in 0xC2 0xDF a then byte_in 0x80 0xBF b \<and> utf8_valid s2
        else (case s2 of [] \<Rightarrow> False | c # s3 \<Rightarrow>
          if lead3 a b then byte_in 0x80 0xBF c \<and> utf8_valid s3
          else (case s3 of [] \<Rightarrow> False | d # s4 \<Rightarrow>
            lead4 a b \<and> byte_in 0x80 0xBF c \<and> byte_in 0x80 0xBF d \<and> utf8_valid s4))))"

definition to_str :: "string \<Rightarrow> string option" where
  "to_str path = (if utf8_valid path then Some path else None)"

section \<open>The command line\<close>

record ResourceLimit =
  rl_key :: string
  rl_value :: string

record CliMountSpec =
  hostpath :: string
  jailpath :: string
  read_write :: bool

record Cli =
  styrolite_bin :: string
  no_default_mounts :: bool
  cli_rootfs :: string
  no_rootfs_readonly :: bool
  cli_mount :: "CliMountSpec list"
  cli_limit :: "ResourceLimit list"
  program :: string
  cli_args :: "string list"

definition mount_syntax :: error where
  "mount_syntax = Msg ''mount must look like /hostpath:/jailpath[:rw]''"

text \<open>The pieces are taken one after the other from the iterator.\<close>

definition parse_mount :: "string \<Rightarrow> CliMountSpec result" where
  "parse_mount s =
     (case split_char (CHR '':'') s of
        hp # jp # rest \<Rightarrow>
          if 1 < length rest then Inl mount_syntax
          else if hp = [] \<or> jp = [] then Inl mount_syntax
          else
            (case rest of
               [] \<Rightarrow> Inr \<lparr>hostpath = hp, jailpath = jp, read_write = False\<rparr>
             | mode # _ \<Rightarrow>
                 if mode = ''rw'' then Inr \<lparr>hostpath = hp, jailpath = jp, read_write = True\<rparr>
                 else Inl (Msg (''only '' @ [CHR 0x27] @ '':rw'' @ [CHR 0x27] @ '' is supported as a mount modifier'')))
      | _ \<Rightarrow> Inl mount_syntax)"

definition parse_resource_limit :: "string \<Rightarrow> ResourceLimit result" where
  "parse_resource_limit s =
     (case split_once (CHR ''='') s of
        None \<Rightarrow> Inl (Msg ''limit must look like key=value'')
      | Some (k, v) \<Rightarrow>
          if k = [] then Inl (Msg ''limit key cannot be empty'')
          else Inr \<lparr>rl_key = k, rl_value = v\<rparr>)"

section \<open>The front end\<close>

definition current_ids :: "(u32 \<times> u32) io" where
  "current_ids =
     try_io (sys (Run GetEuid)) (\<lambda>u.
     try_io (sys (Run GetEgid)) (\<lambda>g.
     ok (word_of_int (rc u), word_of_int (rc g))))"

definition build_mounts :: "Cli \<Rightarrow> CliMountSpec list io" where
  "build_mounts cli =
     try_io (if \<not> no_default_mounts cli then
         try_io (map_err (Context ''failed to get CWD: '') (sys_res (Run CurrentDir))) (\<lambda>r.
         case to_str (contents r) of
           None \<Rightarrow> fail (Msg ''CWD is not valid UTF-8'')
         | Some cwd \<Rightarrow> ok [\<lparr>hostpath = cwd, jailpath = cwd, read_write = True\<rparr>])
       else ok []) (\<lambda>mounts.
     ok (mounts @ cli_mount cli))"

definition to_styrolite_mount :: "CliMountSpec \<Rightarrow> MountSpec" where
  "to_styrolite_mount m =
     MountSpec_default\<lparr>ms_source := Some (hostpath m), ms_target := jailpath m, ms_fstype := None,
       ms_bind := True, ms_recurse := False, ms_unshare := False, ms_safe := False,
       ms_create_mountpoint := True, ms_read_only := \<not> read_write m\<rparr>"

definition jail_base :: "Cli \<Rightarrow> u32 \<Rightarrow> u32 \<Rightarrow> int \<Rightarrow> CreateRequestBuilder" where
  "jail_base cli uid gid pid =
     (create_push_namespace Mount \<circ> create_push_namespace Ipc \<circ> create_push_namespace User \<circ>
      create_push_namespace Pid \<circ> create_push_namespace Time \<circ> create_push_namespace Uts \<circ>
      create_push_gid_mapping \<lparr>base_nsid = gid, base_hostid = gid, remap_count = 1\<rparr> \<circ>
      create_push_uid_mapping \<lparr>base_nsid = uid, base_hostid = uid, remap_count = 1\<rparr> \<circ>
      create_set_workload_id (''styrojail-'' @ show_int pid) \<circ> create_set_setgroups_deny True \<circ>
      create_set_gid gid \<circ> create_set_uid uid \<circ> create_set_executable (program cli) \<circ>
      create_set_skip_two_stage_userns True \<circ> create_set_rootfs_readonly (\<not> no_rootfs_readonly cli) \<circ>
      create_set_rootfs (cli_rootfs cli)) create_new"

text \<open>\<open>main\<close> up to the request, and all of it.\<close>

definition build_request :: "Cli \<Rightarrow> CreateRequest io" where
  "build_request cli =
     try_io current_ids (\<lambda>(uid, gid).
     try_io get_pid (\<lambda>pid.
     let builder = jail_base cli uid gid pid in
     try_io (if cli_rootfs cli = ''/'' then
         try_io (sys_res (Run CurrentDir)) (\<lambda>r.
         ok (cli, create_set_working_directory (case to_str (contents r) of Some d \<Rightarrow> d | None \<Rightarrow> ''/'') builder))
       else ok (cli\<lparr>no_default_mounts := True\<rparr>, builder)) (\<lambda>(cli, builder).
     let builder = create_set_arguments (cli_args cli) builder in
     try_io (build_mounts cli) (\<lambda>mounts.
     let builder = fold (\<lambda>m. create_push_mount (to_styrolite_mount m)) mounts builder;
         builder = fold (\<lambda>lim. create_push_resource_limit (rl_key lim) (rl_value lim)) (cli_limit cli) builder
     in ok (create_to_request builder)))))"

definition jail_main :: "(Config \<Rightarrow> string list) \<Rightarrow> Cli \<Rightarrow> unit io" where
  "jail_main ser cli =
     try_io (build_request cli) (\<lambda>req.
     let runner = Runner_new (styrolite_bin cli) in
     try_io (runner_exec runner create_configurable ser req) (\<lambda>_.
     fail (Msg (quote_runner runner @ '' returned without exec'' @ [CHR 0x27] @ ''ing the workload''))))"

section \<open>The examples\<close>

definition container_path :: string where
  "container_path = ''/bin:/sbin:/usr/bin:/usr/sbin:/usr/local/bin:/usr/local/sbin''"

definition exit_with :: "int io \<Rightarrow> unit io" where
  "exit_with m = try_io m (\<lambda>exitcode. Halt exitcode)"

definition rundir_request :: "string \<Rightarrow> CreateRequest" where
  "rundir_request rootfs =
     (create_to_request \<circ> create_push_environment ''PATH'' container_path \<circ>
      create_push_environment ''container'' ''styrolite'' \<circ>
      create_push_gid_mapping \<lparr>base_nsid = 0, base_hostid = 1000, remap_count = 1\<rparr> \<circ>
      create_push_uid_mapping \<lparr>base_nsid = 0, base_hostid = 1000, remap_count = 1\<rparr> \<circ>
      create_push_resource_limit ''memory.max'' ''256M'' \<circ> create_set_working_directory ''/'' \<circ>
      create_set_arguments [''-i''] \<circ> create_set_executable ''/bin/sh'' \<circ>
      create_set_rootfs rootfs) create_new"

definition rundir_main :: "(Config \<Rightarrow> string list) \<Rightarrow> string list \<Rightarrow> unit io" where
  "rundir_main ser args =
     (if length args < 3 then Halt 1
      else exit_with (runner_run (Runner_new (args ! 1)) create_configurable ser (rundir_request (args ! 2))))"

definition attach_request :: "int \<Rightarrow> AttachRequest" where
  "attach_request pid =
     (attach_to_request \<circ> attach_push_environment ''PATH'' container_path \<circ>
      attach_push_environment ''container'' ''edera'' \<circ> attach_set_working_directory ''/'' \<circ>
      attach_set_arguments [''-i''] \<circ> attach_set_executable ''/bin/sh'' \<circ>
      attach_set_pid pid) attach_new"

definition attach_main :: "(Config \<Rightarrow> string list) \<Rightarrow> string list \<Rightarrow> unit io" where
  "attach_main ser args =
     (if length args < 3 then Halt 1
      else case parse_i32 (args ! 2) of
        None \<Rightarrow> fail ParseError
      | Some pid \<Rightarrow> exit_with (runner_run (Runner_new (args ! 1)) attach_configurable ser (attach_request pid)))"

section \<open>Properties: the command line\<close>

text \<open>The texts that are read as a mount, and those that name another modifier than \<open>rw\<close>.\<close>

definition mount_text :: "CliMountSpec \<Rightarrow> string" where
  "mount_text m = hostpath m @ '':'' @ jailpath m @ (if read_write m then '':rw'' else [])"

definition pure_path :: "string \<Rightarrow> bool" where
  "pure_path p \<longleftrightarrow> p \<noteq> [] \<and> CHR '':'' \<notin> set p"

definition other_modifier :: "string \<Rightarrow> bool" where
  "other_modifier s \<longleftrightarrow> (\<exists>hp jp mode. s = hp @ '':'' @ jp @ '':'' @ mode \<and> pure_path hp \<and> pure_path jp \<and>
     CHR '':'' \<notin> set mode \<and> mode \<noteq> ''rw'')"

lemma parse_mount_Inr: "parse_mount s = Inr m \<longleftrightarrow> pure_path (hostpath m) \<and> pure_path (jailpath m) \<and> s = mount_text m"
proof
  assume p: "parse_mount s = Inr m"
  then obtain hp jp rest where sp: "split_char (CHR '':'') s = hp # jp # rest"
    by (auto simp: parse_mount_def split: list.splits)
  have free: "CHR '':'' \<notin> set hp" "CHR '':'' \<notin> set jp"
    using split_char_pieces [of _ "CHR '':''" s] by (auto simp: sp)
  have s: "s = join_str '':'' (hp # jp # rest)"
    using join_split_char [of "CHR '':''" s] sp by simp
  from p sp free s show "pure_path (hostpath m) \<and> pure_path (jailpath m) \<and> s = mount_text m"
    by (auto simp: parse_mount_def pure_path_def mount_text_def split: if_splits list.splits)
next
  assume m: "pure_path (hostpath m) \<and> pure_path (jailpath m) \<and> s = mount_text m"
  then have "split_char (CHR '':'') s = [hostpath m, jailpath m] @ (if read_write m then [''rw''] else [])"
    by (simp add: split_char_append_sep split_char_no_sep pure_path_def mount_text_def)
  with m show "parse_mount s = Inr m"
    by (cases m) (auto simp: parse_mount_def pure_path_def)
qed

lemma parse_mount_modifier:
  "other_modifier s \<longleftrightarrow> (\<exists>hp jp mode. split_char (CHR '':'') s = [hp, jp, mode] \<and> hp \<noteq> [] \<and> jp \<noteq> [] \<and> mode \<noteq> ''rw'')"
proof
  assume "other_modifier s"
  then show "\<exists>hp jp mode. split_char (CHR '':'') s = [hp, jp, mode] \<and> hp \<noteq> [] \<and> jp \<noteq> [] \<and> mode \<noteq> ''rw''"
    by (auto simp: other_modifier_def pure_path_def split_char_append_sep split_char_no_sep)
next
  assume "\<exists>hp jp mode. split_char (CHR '':'') s = [hp, jp, mode] \<and> hp \<noteq> [] \<and> jp \<noteq> [] \<and> mode \<noteq> ''rw''"
  then obtain hp jp mode where sp: "split_char (CHR '':'') s = [hp, jp, mode]" "hp \<noteq> []" "jp \<noteq> []" "mode \<noteq> ''rw''"
    by blast
  have "CHR '':'' \<notin> set hp \<union> set jp \<union> set mode"
    using split_char_pieces [of _ "CHR '':''" s] by (auto simp: sp)
  moreover have "s = join_str '':'' [hp, jp, mode]" using join_split_char [of "CHR '':''" s] sp by simp
  ultimately show "other_modifier s" using sp(2-4) unfolding other_modifier_def pure_path_def by auto
qed

text \<open>C32. What the parser of a mount argument returns, for every text. The texts accepted are exactly
  \<open>host:jail\<close> and \<open>host:jail:rw\<close> with both paths non-empty and free of colons, and each is read as
  exactly the mount that it renders. A text with two such paths and another third component is refused
  with the error about the modifier; every other text, with an empty path, without a colon or with more
  than two, with the error that shows the syntax. That syntax, and only it, has paths that begin with a
  slash: the parser takes any path.\<close>

theorem parse_mount_exact:
  "(parse_mount s = Inr m \<longleftrightarrow> pure_path (hostpath m) \<and> pure_path (jailpath m) \<and> s = mount_text m) \<and>
   (parse_mount s = Inl e \<longleftrightarrow>
      (if other_modifier s then e = Msg (''only '' @ [CHR 0x27] @ '':rw'' @ [CHR 0x27] @ '' is supported as a mount modifier'')
       else (\<nexists>m. pure_path (hostpath m) \<and> pure_path (jailpath m) \<and> s = mount_text m) \<and>
         e = Msg ''mount must look like /hostpath:/jailpath[:rw]''))"
proof -
  have "(\<exists>m. parse_mount s = Inr m) \<or>
      (if other_modifier s then parse_mount s = Inl (Msg (''only '' @ [CHR 0x27] @ '':rw'' @ [CHR 0x27] @ '' is supported as a mount modifier''))
       else parse_mount s = Inl mount_syntax)"
    unfolding parse_mount_modifier parse_mount_def by (auto split: list.split)
  moreover have "parse_mount s \<noteq> Inr m" if "other_modifier s" for m
    using that unfolding parse_mount_modifier parse_mount_def by auto
  ultimately show ?thesis
    unfolding parse_mount_Inr [symmetric] mount_syntax_def by (auto split: if_splits)
qed

lemma parse_mount_slashes: "parse_mount ''a:b'' = Inr \<lparr>hostpath = ''a'', jailpath = ''b'', read_write = False\<rparr>"
  by (simp add: parse_mount_Inr pure_path_def mount_text_def)

text \<open>The resource limits accepted are exactly the texts \<open>key=value\<close> with a non-empty key; the
  key ends at the first equals sign, so a value may contain more of them.\<close>

theorem parse_limit_exact:
  "parse_resource_limit s = Inr l \<longleftrightarrow>
     rl_key l \<noteq> [] \<and> CHR ''='' \<notin> set (rl_key l) \<and> s = rl_key l @ ''='' @ rl_value l"
proof
  assume "parse_resource_limit s = Inr l"
  then show "rl_key l \<noteq> [] \<and> CHR ''='' \<notin> set (rl_key l) \<and> s = rl_key l @ ''='' @ rl_value l"
    using split_once_SomeD [of "CHR ''=''" s "rl_key l" "rl_value l"]
    by (auto simp: parse_resource_limit_def split: option.splits if_splits)
next
  assume l: "rl_key l \<noteq> [] \<and> CHR ''='' \<notin> set (rl_key l) \<and> s = rl_key l @ ''='' @ rl_value l"
  then show "parse_resource_limit s = Inr l"
    by (cases l) (simp add: parse_resource_limit_def split_once_append)
qed

section \<open>Properties: the request of a jail\<close>

definition jail_request :: "Cli \<Rightarrow> u32 \<Rightarrow> u32 \<Rightarrow> int \<Rightarrow> string option \<Rightarrow> CliMountSpec list \<Rightarrow> CreateRequest" where
  "jail_request cli uid gid pid wd mounts = CreateRequest_default\<lparr>
     cr_workload_id := Some (''styrojail-'' @ show_int pid),
     cr_rootfs := Some (cli_rootfs cli), cr_rootfs_readonly := Some (\<not> no_rootfs_readonly cli),
     cr_exec := ExecutableSpec_default\<lparr>executable := Some (program cli), arguments := Some (cli_args cli),
       working_directory := wd, ex_uid := Some uid, ex_gid := Some gid\<rparr>,
     cr_uid_mappings := Some [\<lparr>base_nsid = uid, base_hostid = uid, remap_count = 1\<rparr>],
     cr_gid_mappings := Some [\<lparr>base_nsid = gid, base_hostid = gid, remap_count = 1\<rparr>],
     cr_mounts := (if mounts = [] then None else Some (map to_styrolite_mount mounts)),
     cr_limits := (if cli_limit cli = [] then None
       else Some (bt.ins_all (map (\<lambda>l. (rl_key l, rl_value l)) (cli_limit cli)) [])),
     cr_namespaces := Some [Uts, Time, Pid, User, Ipc, Mount],
     cr_setgroups_deny := Some True, cr_skip_two_stage_userns := Some True\<rparr>"

lemma fold_push_mount:
  "fold (\<lambda>m. create_push_mount (to_styrolite_mount m)) ms b =
     b\<lparr>cb_config := (cb_config b)\<lparr>cr_mounts :=
       fold push_opt (map to_styrolite_mount ms) (cr_mounts (cb_config b))\<rparr>\<rparr>"
  by (induction ms arbitrary: b) (simp_all add: create_push_mount_def)

lemma fold_push_limit:
  "fold (\<lambda>l. create_push_resource_limit (rl_key l) (rl_value l)) ls b =
     b\<lparr>cb_config := (cb_config b)\<lparr>cr_limits :=
       fold (\<lambda>(k, v). insert_opt k v) (map (\<lambda>l. (rl_key l, rl_value l)) ls) (cr_limits (cb_config b))\<rparr>\<rparr>"
  by (induction ls arbitrary: b) (simp_all add: create_push_resource_limit_def)

lemmas setter_defs = create_push_namespace_def create_push_gid_mapping_def create_push_uid_mapping_def
  create_set_workload_id_def create_set_setgroups_deny_def create_set_gid_def create_set_uid_def
  create_set_executable_def create_set_skip_two_stage_userns_def create_set_rootfs_readonly_def
  create_set_rootfs_def create_new_def create_exec_def create_set_arguments_def
  create_set_working_directory_def create_to_request_def
  CreateRequest_default_def ExecutableSpec_default_def

lemma jail_request_from_builder:
  "create_to_request (fold (\<lambda>l. create_push_resource_limit (rl_key l) (rl_value l)) (cli_limit cli)
     (fold (\<lambda>m. create_push_mount (to_styrolite_mount m)) mounts
       (create_set_arguments (cli_args cli) (jail_base cli uid gid pid)))) =
   jail_request cli uid gid pid None mounts"
  "create_to_request (fold (\<lambda>l. create_push_resource_limit (rl_key l) (rl_value l)) (cli_limit cli)
     (fold (\<lambda>m. create_push_mount (to_styrolite_mount m)) mounts
       (create_set_arguments (cli_args cli) (create_set_working_directory wd (jail_base cli uid gid pid))))) =
   jail_request cli uid gid pid (Some wd) mounts"
  by (simp_all add: fold_push_mount fold_push_limit fold_push_opt fold_insert_opt jail_base_def jail_request_def
      setter_defs)

lemma succeeds_build_mounts:
  "succeeds K w (build_mounts cli) tr ms w' \<Longrightarrow>
     \<exists>defaults. ms = defaults @ cli_mount cli \<and>
       (if no_default_mounts cli then tr = [] \<and> defaults = []
        else \<exists>rm. tr = [(Run CurrentDir, Some rm)] \<and> \<not> failed rm \<and> utf8_valid (contents rm) \<and>
          defaults = [\<lparr>hostpath = contents rm, jailpath = contents rm, read_write = True\<rparr>])"
  by (auto simp: build_mounts_def to_str_def succeeds_try split: if_splits)

lemma request_built:
  assumes "outcome_of K w (build_request cli) = Done (Inr req)"
  shows "\<exists>ru rg rp tr. trace K w (build_request cli) =
      [(Run GetEuid, Some ru), (Run GetEgid, Some rg), (Proc GetPid, Some rp)] @ tr \<and>
    (if cli_rootfs cli = ''/'' then
       \<exists>rd defaults tr'. tr = (Run CurrentDir, Some rd) # tr' \<and> \<not> failed rd \<and>
         (if no_default_mounts cli then tr' = [] \<and> defaults = []
          else \<exists>rm. tr' = [(Run CurrentDir, Some rm)] \<and> \<not> failed rm \<and> utf8_valid (contents rm) \<and>
            defaults = [\<lparr>hostpath = contents rm, jailpath = contents rm, read_write = True\<rparr>]) \<and>
         req = jail_request cli (word_of_int (rc ru)) (word_of_int (rc rg)) (rc rp)
           (Some (if utf8_valid (contents rd) then contents rd else ''/'')) (defaults @ cli_mount cli)
     else tr = [] \<and>
       req = jail_request cli (word_of_int (rc ru)) (word_of_int (rc rg)) (rc rp) None (cli_mount cli))"
proof -
  obtain w' where s: "succeeds K w (build_request cli) (trace K w (build_request cli)) req w'"
    using assms unfolding outcome_succeeds by blast
  show ?thesis
  proof (cases "cli_rootfs cli = ''/''")
    case True
    with s obtain ru rg rp rd ms w1 tr' where
      t: "trace K w (build_request cli) =
        [(Run GetEuid, Some ru), (Run GetEgid, Some rg), (Proc GetPid, Some rp), (Run CurrentDir, Some rd)] @ tr'"
      "\<not> failed rd" and m: "succeeds K w1 (build_mounts cli) tr' ms w'"
      and req: "req = jail_request cli (word_of_int (rc ru)) (word_of_int (rc rg)) (rc rp)
        (Some (if utf8_valid (contents rd) then contents rd else ''/'')) ms"
      by (auto simp: build_request_def current_ids_def get_pid_def Let_def succeeds_try
          jail_request_from_builder to_str_def)
    from succeeds_build_mounts [OF m] t req True show ?thesis by fastforce
  next
    case False
    with s obtain ru rg rp ms w1 tr' where
      t: "trace K w (build_request cli) =
        [(Run GetEuid, Some ru), (Run GetEgid, Some rg), (Proc GetPid, Some rp)] @ tr'"
      and m: "succeeds K w1 (build_mounts (cli\<lparr>no_default_mounts := True\<rparr>)) tr' ms w'"
      and req: "req = jail_request cli (word_of_int (rc ru)) (word_of_int (rc rg)) (rc rp) None ms"
      using jail_request_from_builder(1) [of "cli"]
      by (auto simp: build_request_def current_ids_def get_pid_def Let_def succeeds_try)
    from succeeds_build_mounts [OF m] t req False show ?thesis by simp
  qed
qed

text \<open>C31. The request of a jail, whenever one is built: the caller's effective ids, mapped to
  themselves and alone, and to be executed with; all of the mount, IPC, user, PID, time and UTS
  namespaces, in one stage; \<open>setgroups\<close> denied; the root read-only unless that is switched off. A jail
  of the whole file system works in the current directory, which it also binds writable unless the
  default mounts are off; a jail of another root gets neither. The mounts asked for come after, in
  their order, read-only unless \<open>rw\<close>.\<close>

theorem jail_request_built:
  assumes "outcome_of K w (build_request cli) = Done (Inr req)"
  shows "\<exists>ru rg rp tr. trace K w (build_request cli) =
      [(Run GetEuid, Some ru), (Run GetEgid, Some rg), (Proc GetPid, Some rp)] @ tr \<and>
    (if cli_rootfs cli = ''/'' then
       \<exists>rd defaults tr'. tr = (Run CurrentDir, Some rd) # tr' \<and> \<not> failed rd \<and>
         (if no_default_mounts cli then tr' = [] \<and> defaults = []
          else \<exists>rm. tr' = [(Run CurrentDir, Some rm)] \<and> \<not> failed rm \<and> utf8_valid (contents rm) \<and>
            defaults = [\<lparr>hostpath = contents rm, jailpath = contents rm, read_write = True\<rparr>]) \<and>
         req = jail_request cli (word_of_int (rc ru)) (word_of_int (rc rg)) (rc rp)
           (Some (if utf8_valid (contents rd) then contents rd else ''/'')) (defaults @ cli_mount cli)
     else tr = [] \<and>
       req = jail_request cli (word_of_int (rc ru)) (word_of_int (rc rg)) (rc rp) None (cli_mount cli))"
  using assms by (rule request_built)

text \<open>\<open>styrojail\<close> starts the runner only as its last call, with the path of a new file in which
  exactly the request that it built was saved before; and it never returns a success: either it has
  been replaced by the runner or it ends with an error.\<close>

lemma jail_reaches_exec:
  assumes "trace K w (jail_main ser cli) = pre @ (Run (CommandExec p args), x) # post"
  shows "post = [] \<and> p = styrolite_bin cli \<and> outcome_of K w (jail_main ser cli) \<noteq> Done (Inr ()) \<and>
    (\<exists>req f wr. outcome_of K w (build_request cli) = Done (Inr req) \<and> args = [contents f] \<and>
       pre = trace K w (build_request cli) @ (Run (TempFileNew ''styrolite-cfg-'' ''.json''), Some f) # wr \<and>
       config_saved (concat (ser (Create req))) (contents f) wr)"
proof -
  let ?s = "Run (CommandExec p args)"
  have sp: "is_spawn ?s" by simp
  have no: "only_calls (\<lambda>s. \<not> is_spawn s) (build_request cli)"
    by (auto simp: build_request_def current_ids_def get_pid_def build_mounts_def Let_def is_spawn_def
        intro!: only_calls_try only_calls_map_err split: option.splits)
  let ?runner = "Runner_new (styrolite_bin cli)"
  let ?rest = "\<lambda>f. try_io (try_io (sys (Run (case create_command ?runner f of (p, args) \<Rightarrow> CommandExec p args))) (\<lambda>r.
      fail (Context (''failed to exec '' @ quote_runner ?runner @ '': '') (OsError (errno r))))) (\<lambda>_ :: unit.
      (fail (Msg (quote_runner ?runner @ '' returned without exec'' @ [CHR 0x27] @ ''ing the workload'')) :: unit io))"
  have eq: "jail_main ser cli = try_io (build_request cli) (\<lambda>req.
      try_io new_config_file (\<lambda>f. try_io (write_config create_configurable ser req f) (\<lambda>_. ?rest f)))"
    by (simp add: jail_main_def runner_exec_def Let_def)
  obtain req w1 p1 where 1: "succeeds K w (build_request cli) (trace K w (build_request cli)) req w1"
    "pre = trace K w (build_request cli) @ p1"
    and r1: "trace K w1 (try_io new_config_file (\<lambda>f. try_io (write_config create_configurable ser req f) (\<lambda>_. ?rest f))) =
      p1 @ (?s, x) # post"
    by (rule try_reached [OF assms [unfolded eq] sp no], rule that)
  obtain f conf wr w' pre' where 2: "p1 = (Run (TempFileNew ''styrolite-cfg-'' ''.json''), Some f) # wr @ pre'"
    "encapsulate create_configurable req = Inr conf" "config_saved (concat (ser conf)) (contents f) wr"
    and t: "trace K w' (?rest (contents f)) = pre' @ (?s, x) # post"
    by (rule spawn_reached [OF r1 sp], rule that)
  have c: "conf = Create req"
    using 2(2) by (simp add: create_configurable_def encapsulate_create_def)
  have a: "pre' = [] \<and> post = [] \<and> p = styrolite_bin cli \<and> args = [contents f]"
    using t by (auto simp: create_command_def Runner_new_def sys_def append_eq_Cons_conv Cons_eq_append_conv
        split: option.splits prod.splits)
  have "outcome_of K w (jail_main ser cli) \<noteq> Done (Inr ())"
    unfolding eq outcome_succeeds by (auto simp: succeeds_try)
  moreover have "outcome_of K w (build_request cli) = Done (Inr req)"
    using 1(1) by (auto dest: succeeds_trace)
  ultimately show ?thesis using 1(2) 2 a c by auto
qed

text \<open>A jail of a directory.\<close>

definition small_jail :: Cli where
  "small_jail = \<lparr>styrolite_bin = ''styrolite'', no_default_mounts = False, cli_rootfs = ''/srv'',
     no_rootfs_readonly = False, cli_mount = [\<lparr>hostpath = ''/a'', jailpath = ''/b'', read_write = False\<rparr>],
     cli_limit = [], program = ''sh'', cli_args = []\<rparr>"

definition jail_kernel :: "unit kernel" where
  "jail_kernel = scripted (\<lambda>s. case s of Run (CommandExec p a) \<Rightarrow> True | _ \<Rightarrow> False) (\<lambda>s. case s of
      Run (TempFileNew a b) \<Rightarrow> reply0\<lparr>contents := ''/tmp/c.json''\<rparr>
    | Proc GetPid \<Rightarrow> reply0\<lparr>rc := 7\<rparr> | _ \<Rightarrow> reply0\<lparr>rc := 1000\<rparr>)"

lemma small_jail_built:
  "succeeds jail_kernel () (build_request small_jail)
     [(Run GetEuid, Some (reply0\<lparr>rc := 1000\<rparr>)), (Run GetEgid, Some (reply0\<lparr>rc := 1000\<rparr>)),
      (Proc GetPid, Some (reply0\<lparr>rc := 7\<rparr>))]
     (jail_request small_jail 1000 1000 7 None (cli_mount small_jail)) ()"
  by (simp add: build_request_def current_ids_def get_pid_def build_mounts_def Let_def succeeds_try
      jail_kernel_def scripted_def small_jail_def)
    (simp add: jail_base_def jail_request_def create_push_mount_def setter_defs reply0_def)

theorem jail_request_built_witness:
  "\<exists>tr. trace jail_kernel () (build_request small_jail) = tr \<and> length tr = 3 \<and>
     outcome_of jail_kernel () (build_request small_jail) =
       Done (Inr (jail_request small_jail 1000 1000 7 None (cli_mount small_jail)))"
proof -
  have o: "outcome_of jail_kernel () (build_request small_jail) =
      Done (Inr (jail_request small_jail 1000 1000 7 None (cli_mount small_jail)))"
    using small_jail_built by (rule succeeds_trace [THEN conjunct2])
  have r: "cli_rootfs small_jail \<noteq> ''/''" by (simp add: small_jail_def)
  from jail_request_built [OF o] r have "length (trace jail_kernel () (build_request small_jail)) = 3" by auto
  with o show ?thesis by blast
qed

definition small_jail_calls :: "event list" where
  "small_jail_calls = trace jail_kernel () (build_request small_jail) @
      [(Run (TempFileNew ''styrolite-cfg-'' ''.json''), Some (reply0\<lparr>contents := ''/tmp/c.json''\<rparr>)),
       (Run (TempFileWrite ''/tmp/c.json'' ''{}''), Some (reply0\<lparr>rc := 1000\<rparr>)),
       (Run (TempFileFlush ''/tmp/c.json''), Some (reply0\<lparr>rc := 1000\<rparr>))]"

lemma small_jail_trace:
  "trace jail_kernel () (jail_main toy_ser small_jail) =
     small_jail_calls @ (Run (CommandExec ''styrolite'' [''/tmp/c.json'']), None) # []"
  "list_all event_ok small_jail_calls" "written ''/tmp/c.json'' small_jail_calls = ''{}''"
proof -
  let ?req = "jail_request small_jail 1000 1000 7 None (cli_mount small_jail)"
  have "trace jail_kernel () (jail_main toy_ser small_jail) = trace jail_kernel () (build_request small_jail) @
      trace jail_kernel () (let runner = Runner_new (styrolite_bin small_jail) in
        try_io (runner_exec runner create_configurable toy_ser ?req) (\<lambda>_ :: unit.
        (fail (Msg (quote_runner runner @ '' returned without exec'' @ [CHR 0x27] @ ''ing the workload'')) :: unit io)))"
    unfolding jail_main_def by (simp only: try_succeeds(1) [OF small_jail_built] succeeds_trace [OF small_jail_built])
  also have "\<dots> = small_jail_calls @ (Run (CommandExec ''styrolite'' [''/tmp/c.json'']), None) # []"
    by (simp add: small_jail_calls_def runner_exec_def new_config_file_def write_config_def create_configurable_def toy_ser_def
        validate_create_def encapsulate_create_def buffered_write_def BUF_SIZE_def flush_buf_def Let_def
        create_command_def Runner_new_def small_jail_def sys_def sys_res_def sys_unit_def
        jail_kernel_def scripted_def reply0_def)
  finally show "trace jail_kernel () (jail_main toy_ser small_jail) =
      small_jail_calls @ (Run (CommandExec ''styrolite'' [''/tmp/c.json'']), None) # []" .
  show "list_all event_ok small_jail_calls" "written ''/tmp/c.json'' small_jail_calls = ''{}''"
    by (simp_all add: small_jail_calls_def succeeds_trace [OF small_jail_built] written_by_def reply0_def)
qed

end
