(* ===== verification/Handshake.thy ===== *)
theory Handshake
  imports CreateWrap
begin

text \<open>
  The supervisor and the child of a create request side by side, after the \<open>fork\<close> in
  \<open>CreateRequest::wrap\<close>. They share the two event counters and, through \<open>waitpid\<close>, the end of the
  child; every other call of either may return anything. The steps are a relation on pairs of
  programs, and the properties hold in every reachable state: the workload runs only in a user
  namespace that has been configured, the supervisor exits with the workload's code, and the two wait
  for each other for ever in exactly two situations. Theory \<open>Progress\<close> shows that every run ends.
\<close>

section \<open>Partial runs of a program\<close>

text \<open>What is left of a program after it has made the calls of a trace, and whether a trace (whose
  last call need not have returned) is the beginning of a run.\<close>

fun after :: "'a prog \<Rightarrow> event list \<Rightarrow> 'a prog option" where
  "after p [] = Some p"
| "after (Call s k) ((s', Some r) # t) = (if s = s' then after (k r) t else None)"
| "after _ _ = None"

fun possible :: "'a prog \<Rightarrow> event list \<Rightarrow> bool" where
  "possible p [] = True"
| "possible (Call s k) ((s', x) # t) =
     (s = s' \<and> (case x of None \<Rightarrow> t = [] | Some r \<Rightarrow> possible (k r) t))"
| "possible _ _ = False"

lemma after_snoc: "after p t = Some (Call s k) \<Longrightarrow> after p (t @ [(s, Some r)]) = Some (k r)"
  by (induction p t rule: after.induct) (auto split: if_splits)

lemma after_possible: "after p t = Some q \<Longrightarrow> possible p t"
  by (induction p t rule: after.induct) (auto split: if_splits)

lemma after_possible_snoc: "after p t = Some (Call s k) \<Longrightarrow> possible p (t @ [(s, x)])"
  by (induction p t rule: after.induct) (auto split: if_splits option.splits)

lemma wp_after: "wp G Q p h \<Longrightarrow> after p t = Some q \<Longrightarrow> wp G Q q (h @ t)"
proof (induction p t arbitrary: h rule: after.induct)
  case (2 s k s' r t)
  then show ?case by (auto split: if_splits) (metis append.assoc append_Cons append_Nil)
qed simp_all

lemma wp_possible: "wp G Q p h \<Longrightarrow> possible p (a @ (s, x) # b) \<Longrightarrow> G (h @ a) s"
proof (induction a arbitrary: p h)
  case Nil
  then show ?case by (cases p) auto
next
  case (Cons e a)
  show ?case
  proof (cases p)
    case (Call s' k)
    with Cons.prems(2) obtain r where r: "e = (s', Some r)" "possible (k r) (a @ (s, x) # b)"
      by (cases e) (auto split: option.splits)
    from Cons.prems(1) Call have "wp G Q (k r) (h @ [(s', Some r)])" by simp
    from Cons.IH [OF this r(2)] r(1) show ?thesis by simp
  qed (use Cons.prems in auto)
qed

section \<open>The two processes\<close>

text \<open>A process runs its program, has become the workload, or has ended: with an exit code, or
  killed by a signal.\<close>

datatype proc_state = Running "unit io" | Workload | Ended "int option"

record duo =
  parent :: proc_state
  child :: proc_state
  counters :: "int \<Rightarrow> nat"
  ptrace :: "event list"
  ctrace :: "event list"
  child_id :: int

text \<open>The exit code of a program that has come to its end: \<open>main\<close> returns its error as 1.\<close>

fun exit_of :: "unit io \<Rightarrow> int option" where
  "exit_of (Ret (Inr u)) = Some 0"
| "exit_of (Ret (Inl e)) = Some 1"
| "exit_of (Halt c) = Some c"
| "exit_of _ = None"

text \<open>How \<open>waitpid\<close> reports the end of the child.\<close>

definition reported :: "int \<Rightarrow> int option \<Rightarrow> wait_status" where
  "reported pid x = (case x of Some c \<Rightarrow> Exited_status pid c | None \<Rightarrow> OtherStatus)"

text \<open>Which replies a call can have now. Reading an event counter blocks while it is zero (the
  signal handlers restart it), waiting for the child blocks until it has ended; an execution that
  returns has failed.\<close>

definition ready :: "duo \<Rightarrow> syscall \<Rightarrow> reply \<Rightarrow> bool" where
  "ready d s r =
     (case s of
        Proc p \<Rightarrow>
          (case p of
             EventFdRead fd \<Rightarrow> 0 < counters d fd \<and> \<not> failed r
           | Waitpid (ChildPid pid) b \<Rightarrow>
               (case child d of Ended x \<Rightarrow> status r = reported (child_id d) x \<and> \<not> failed r | _ \<Rightarrow> False)
           | Execvpe _ _ _ \<Rightarrow> failed r
           | _ \<Rightarrow> True)
      | _ \<Rightarrow> True)"

text \<open>A counter in semaphore mode: a read takes one, a write adds.\<close>

definition bump :: "syscall \<Rightarrow> reply \<Rightarrow> (int \<Rightarrow> nat) \<Rightarrow> int \<Rightarrow> nat" where
  "bump s r cnt =
     (case s of
        Proc (EventFdRead fd) \<Rightarrow> cnt(fd := cnt fd - 1)
      | Proc (EventFdWrite fd n) \<Rightarrow> if failed r then cnt else cnt(fd := cnt fd + n)
      | _ \<Rightarrow> cnt)"

inductive step :: "duo \<Rightarrow> duo \<Rightarrow> bool" where
  parent_call: "parent d = Running (Call s k) \<Longrightarrow> ready d s r \<Longrightarrow>
    step d (d\<lparr>parent := Running (k r), counters := bump s r (counters d), ptrace := ptrace d @ [(s, Some r)]\<rparr>)"
| parent_ends: "parent d = Running p \<Longrightarrow> exit_of p = Some c \<Longrightarrow> step d (d\<lparr>parent := Ended (Some c)\<rparr>)"
| parent_reaps: "parent d = Running OutOfFuel \<Longrightarrow> step d d"
| child_call: "child d = Running (Call s k) \<Longrightarrow> ready d s r \<Longrightarrow>
    step d (d\<lparr>child := Running (k r), counters := bump s r (counters d), ctrace := ctrace d @ [(s, Some r)]\<rparr>)"
| child_execs: "child d = Running (Call s k) \<Longrightarrow> is_exec s \<Longrightarrow>
    step d (d\<lparr>child := Workload, ctrace := ctrace d @ [(s, None)]\<rparr>)"
| child_ends: "child d = Running p \<Longrightarrow> exit_of p = Some c \<Longrightarrow> step d (d\<lparr>child := Ended (Some c)\<rparr>)"
| child_reaps: "child d = Running OutOfFuel \<Longrightarrow> step d d"
| workload_ends: "child d = Workload \<Longrightarrow> step d (d\<lparr>child := Ended x\<rparr>)"

text \<open>After the fork of \<open>wrap\<close>, with the two event counters just made.\<close>

definition forked_duo :: "nat \<Rightarrow> CreateRequest \<Rightarrow> int \<Rightarrow> int \<Rightarrow> int \<Rightarrow> duo" where
  "forked_duo fuel req pid pe ce =
     \<lparr>parent = Running (supervise fuel req pid pe ce), child = Running (child_side req pe ce),
      counters = (\<lambda>_. 0), ptrace = [], ctrace = [], child_id = pid\<rparr>"

definition stuck :: "duo \<Rightarrow> bool" where
  "stuck d \<longleftrightarrow> (\<nexists>d'. step d d')"

inductive_cases step_E: "step d d'"

section \<open>The order of the synchronising calls\<close>

definition syncs :: "event list \<Rightarrow> event list" where
  "syncs t = filter (\<lambda>e. is_sync (fst e)) t"

lemma syncs_simps [simp]:
  "syncs [] = []" "syncs (e # t) = (if is_sync (fst e) then e # syncs t else syncs t)"
  "syncs (t @ t') = syncs t @ syncs t'"
  by (simp_all add: syncs_def)

lemma syncs_quiet: "list_all (\<lambda>s. \<not> is_sync s) (calls t) \<Longrightarrow> syncs t = []"
  by (induction t) auto

lemma exec_sync: "is_exec s \<Longrightarrow> is_sync s"
  by (simp add: is_exec_def is_sync_def split: syscall.splits proc_call.splits)

lemma wp_guarded:
  "wp (\<lambda>_ _. True) Q p h \<Longrightarrow> only_calls P p \<Longrightarrow> (\<And>h s. P s \<Longrightarrow> G h s) \<Longrightarrow> wp G Q p h"
  by (induction p arbitrary: h rule: prog_induct) simp_all

lemma wp_try_quiet:
  assumes "only_calls (\<lambda>s. \<not> is_sync s) m" and "\<And>h s. \<not> is_sync s \<Longrightarrow> G h s"
    and "\<And>t a. syncs t = [] \<Longrightarrow> wp G (\<lambda>_ _. True) (f a) (h @ t)"
  shows "wp G (\<lambda>_ _. True) (try_io m f) h"
  unfolding wp_try
proof (rule wp_guarded [OF wp_only_calls [OF assms(1)] assms(1) assms(2)])
  fix t :: "event list" and x :: "'a result outcome"
  assume "list_all (\<lambda>e. \<not> is_sync (fst e)) t"
  then have "syncs t = []" by (simp add: syncs_def filter_empty_conv list_all_iff)
  with assms(3) show "post_try (\<lambda>_ _. True) (\<lambda>h a. wp G (\<lambda>_ _. True) (f a) h) (h @ t) x"
    by (simp add: post_try_def post_bind_def split: outcome.splits sum.splits)
qed simp

text \<open>The child signals, waits to be released, and executes; each only after the one before has
  succeeded.\<close>

definition child_guard :: "int \<Rightarrow> int \<Rightarrow> event list \<Rightarrow> syscall \<Rightarrow> bool" where
  "child_guard pe ce h s \<longleftrightarrow> (is_sync s \<longrightarrow> list_all event_ok (syncs h) \<and>
     (\<exists>e. is_exec e \<and> prefix (calls (syncs h) @ [s]) [Proc (EventFdWrite pe 2), Proc (EventFdRead ce), e]))"

lemma child_guard_simps [simp]:
  "\<not> is_sync s \<Longrightarrow> child_guard pe ce h s"
  "syncs h = [] \<Longrightarrow> child_guard pe ce h (Proc (EventFdWrite pe 2))"
  "syncs h = [(Proc (EventFdWrite pe 2), Some r)] \<Longrightarrow> \<not> failed r \<Longrightarrow> child_guard pe ce h (Proc (EventFdRead ce))"
  "syncs h = [(Proc (EventFdWrite pe 2), Some r), (Proc (EventFdRead ce), Some r')] \<Longrightarrow> \<not> failed r \<Longrightarrow>
     \<not> failed r' \<Longrightarrow> child_guard pe ce h (Proc (Execvpe p a e))"
  by (auto simp: child_guard_def intro: exI [of _ "Proc (Execvpe p a e)"])

lemma no_sync_confine: "only_calls (\<lambda>s. \<not> is_sync s) (confine exec)"
  by (auto simp: confine_def set_no_new_privs_def install_def change_onexec_def reset_sigpipe_def
      set_signal_def Let_def split: option.splits intro!: only_calls_try only_calls_map_err)

lemma child_wp: "wp (child_guard pe ce) (\<lambda>_ _. True) (child_side req pe ce) []"
proof -
  have ex: "wp (child_guard pe ce) (\<lambda>_ _. True) (execute exec) h"
    if h: "syncs h = [(Proc (EventFdWrite pe 2), Some r), (Proc (EventFdRead ce), Some r')]" "\<not> failed r" "\<not> failed r'"
    for exec h r r'
    using h by (auto simp: execute_cases sys_def split: option.splits intro!: wp_try_quiet no_sync_confine)
  have rest: "wp (child_guard pe ce) (\<lambda>_ _. True) (try_io (child_after req) (\<lambda>_. execute (cr_exec req))) h"
    if "syncs h = [(Proc (EventFdWrite pe 2), Some r), (Proc (EventFdRead ce), Some r')]" "\<not> failed r" "\<not> failed r'" for h r r'
    using ex [of _ r r'] that by (intro wp_try_quiet no_sync_after) auto
  show ?thesis
    unfolding child_side_def
    by (rule wp_try_quiet [OF no_sync_before]) (auto simp: sys_unit_def intro!: rest)
qed

text \<open>The supervisor waits for the signal, releases the child, and waits for its end.\<close>

definition configured :: "CreateRequest \<Rightarrow> int \<Rightarrow> event list \<Rightarrow> bool" where
  "configured req pid t \<longleftrightarrow>
     (\<exists>a b. t = a @ b \<and> length a = 2 \<and> list_all event_ok b \<and>
        calls b = (if User \<in> set (target_ns (cr_namespaces req)) then userns_plan req (userns_pid req pid) else []))"

definition parent_guard :: "CreateRequest \<Rightarrow> int \<Rightarrow> int \<Rightarrow> int \<Rightarrow> event list \<Rightarrow> syscall \<Rightarrow> bool" where
  "parent_guard req pid pe ce h s \<longleftrightarrow> (is_sync s \<longrightarrow> list_all event_ok (syncs h) \<and>
     prefix (calls (syncs h) @ [s]) [Proc (EventFdRead pe), Proc (EventFdWrite ce 1), Proc (Waitpid (ChildPid pid) False)] \<and>
     (s = Proc (EventFdWrite ce 1) \<longrightarrow> configured req pid h))"

lemma parent_guard_quiet [simp]: "\<not> is_sync s \<Longrightarrow> parent_guard req pid pe ce h s"
  by (simp add: parent_guard_def)

lemma no_sync_userns: "only_calls (\<lambda>s. \<not> is_sync s) (prepare_userns req pid)"
  by (auto simp: prepare_userns_def Let_def split: option.splits intro!: only_calls_try)

lemma userns_plan_quiet: "list_all (\<lambda>s. \<not> is_sync s) (userns_plan req pid)"
  by (simp add: userns_plan_def split: option.splits)

lemma no_sync_reap: "only_calls (\<lambda>s. \<not> is_sync s) (reap_children fuel)"
  using only_calls_reap by (rule only_calls_mono) simp

lemma parent_release_wp:
  assumes "syncs h = [(Proc (EventFdRead pe), Some r)]" "\<not> failed r" "configured req pid h"
  shows "wp (parent_guard req pid pe ce) (\<lambda>_ _. True)
     (try_io (sys_unit (Proc (EventFdWrite ce 1))) (\<lambda>_.
      try_io (wait_for_pid pid) (\<lambda>exitcode.
      try_io (reap_children fuel) (\<lambda>_.
      Halt exitcode)))) h"
  using assms
  by (auto simp: sys_unit_def sys_res_def wait_for_pid_def parent_guard_def intro!: wp_try_quiet no_sync_reap)

lemma parent_wp: "wp (parent_guard req pid pe ce) (\<lambda>_ _. True) (supervise fuel req pid pe ce) []"
proof -
  let ?G = "parent_guard req pid pe ce"
  let ?user = "User \<in> set (target_ns (cr_namespaces req))"
  let ?rest = "\<lambda>_::unit. try_io (sys_unit (Proc (EventFdWrite ce 1))) (\<lambda>_.
      try_io (wait_for_pid pid) (\<lambda>exitcode.
      try_io (reap_children fuel) (\<lambda>_.
      Halt exitcode)))"
  let ?h = "\<lambda>r0 r. [(Proc (StoreChildPid pid), Some r0), (Proc (EventFdRead pe), Some r)]"
  have conf: "wp ?G (\<lambda>_ _. True)
      (try_io (if ?user then prepare_userns req (userns_pid req pid) else ok ()) ?rest) (?h r0 r)"
    if ok: "\<not> failed r" for r0 r
  proof (cases ?user)
    case False
    then have "configured req pid (?h r0 r)"
      unfolding configured_def by (intro exI [of _ "?h r0 r"] exI [of _ "[]"]) simp
    with False ok parent_release_wp [of "?h r0 r" pe r req pid ce fuel] show ?thesis by simp
  next
    case True
    have "wp ?G (post_try (\<lambda>_ _. True) (\<lambda>h a. wp ?G (\<lambda>_ _. True) (?rest a) h))
        (prepare_userns req (userns_pid req pid)) (?h r0 r)"
      unfolding wp_shift_Nil [of ?G _ _ "?h r0 r"]
    proof (rule wp_guarded [OF _ no_sync_userns])
      have post: "post_try (\<lambda>_ _. True) (\<lambda>h a. wp ?G (\<lambda>_ _. True) (?rest a) h) (?h r0 r @ t) x"
        if x: "x = Done (Inr ()) \<longleftrightarrow> calls t = userns_plan req (userns_pid req pid) \<and> list_all event_ok t" for t x
      proof (cases "x = Done (Inr ())")
        case fin: True
        with x True have "configured req pid (?h r0 r @ t)"
          unfolding configured_def by (intro exI [of _ "?h r0 r"] exI [of _ t]) simp
        moreover have "syncs t = []"
          using x fin syncs_quiet [of t] userns_plan_quiet by simp
        ultimately show ?thesis
          using fin ok parent_release_wp [of "?h r0 r @ t" pe r req pid ce fuel] by simp
      qed (auto simp: post_try_def post_bind_def split: outcome.splits sum.splits)
      show "wp (\<lambda>_ _. True) (\<lambda>t. post_try (\<lambda>_ _. True) (\<lambda>h a. wp ?G (\<lambda>_ _. True) (?rest a) h) (?h r0 r @ t))
          (prepare_userns req (userns_pid req pid)) []"
        by (rule wp_mono [OF userns_wp], simp, rule post) blast
    qed simp
    with True show ?thesis by (simp add: wp_try)
  qed
  show ?thesis
    using conf unfolding supervise_def store_child_pid_def sys_def sys_unit_def [of "Proc (EventFdRead pe)"]
    by (auto simp: parent_guard_def)
qed

section \<open>The invariant\<close>

definition taken1 :: "int \<Rightarrow> event \<Rightarrow> nat" where
  "taken1 fd e = (case e of (Proc (EventFdRead f), Some r) \<Rightarrow> if f = fd then 1 else 0 | _ \<Rightarrow> 0)"

definition given1 :: "int \<Rightarrow> event \<Rightarrow> nat" where
  "given1 fd e = (case e of (Proc (EventFdWrite f n), Some r) \<Rightarrow> if f = fd \<and> \<not> failed r then n else 0 | _ \<Rightarrow> 0)"

definition taken :: "int \<Rightarrow> event list \<Rightarrow> nat" where
  "taken fd t = sum_list (map (taken1 fd) t)"

definition given :: "int \<Rightarrow> event list \<Rightarrow> nat" where
  "given fd t = sum_list (map (given1 fd) t)"

lemma taken_simps [simp]:
  "taken fd [] = 0" "taken fd (t @ [e]) = taken fd t + taken1 fd e" "taken1 fd (s, None) = 0"
  by (auto simp: taken_def taken1_def split: syscall.splits proc_call.splits)

lemma given_simps [simp]:
  "given fd [] = 0" "given fd (t @ [e]) = given fd t + given1 fd e" "given1 fd (s, None) = 0"
  by (auto simp: given_def given1_def split: syscall.splits proc_call.splits)

lemma bump_counts:
  "ready d s r \<Longrightarrow> bump s r (counters d) fd + taken1 fd (s, Some r) = counters d fd + given1 fd (s, Some r)"
  by (auto simp: ready_def bump_def taken1_def given1_def split: syscall.splits proc_call.splits)

definition wait_reply :: "event \<Rightarrow> reply list" where
  "wait_reply e = (case e of (Proc (Waitpid (ChildPid p) b), Some r) \<Rightarrow> [r] | _ \<Rightarrow> [])"

definition wait_replies :: "event list \<Rightarrow> reply list" where
  "wait_replies t = concat (map wait_reply t)"

lemma wait_replies_simps [simp]:
  "wait_replies [] = []" "wait_replies (t @ t') = wait_replies t @ wait_replies t'"
  "wait_replies (e # t) = wait_reply e @ wait_replies t"
  by (simp_all add: wait_replies_def)

lemma wait_reply_simps [simp]:
  "wait_reply (Proc (Waitpid (ChildPid p) b), Some r) = [r]" "wait_reply (s, None) = []"
  "wait_reply (Proc (EventFdWrite fd n), x) = []"
  by (simp_all add: wait_reply_def split: syscall.splits proc_call.splits wait_target.splits)

definition waits_right :: "duo \<Rightarrow> bool" where
  "waits_right d \<longleftrightarrow>
     (case child d of
        Ended x \<Rightarrow> list_all (\<lambda>r. status r = reported (child_id d) x \<and> \<not> failed r) (wait_replies (ptrace d))
      | _ \<Rightarrow> wait_replies (ptrace d) = [])"

definition counts_right :: "duo \<Rightarrow> bool" where
  "counts_right d \<longleftrightarrow>
     (\<forall>fd. counters d fd + taken fd (ptrace d) + taken fd (ctrace d) = given fd (ptrace d) + given fd (ctrace d))"

definition parent_right :: "unit io \<Rightarrow> duo \<Rightarrow> bool" where
  "parent_right p0 d \<longleftrightarrow>
     (case parent d of
        Running p \<Rightarrow> after p0 (ptrace d) = Some p
      | Ended x \<Rightarrow> (\<exists>p c. after p0 (ptrace d) = Some p \<and> exit_of p = Some c \<and> x = Some c)
      | Workload \<Rightarrow> False)"

definition child_right :: "unit io \<Rightarrow> duo \<Rightarrow> bool" where
  "child_right p0 d \<longleftrightarrow> possible p0 (ctrace d) \<and>
     (case child d of Running p \<Rightarrow> after p0 (ctrace d) = Some p | _ \<Rightarrow> True)"

definition duo_inv :: "unit io \<Rightarrow> unit io \<Rightarrow> duo \<Rightarrow> bool" where
  "duo_inv p0 c0 d \<longleftrightarrow> parent_right p0 d \<and> child_right c0 d \<and> counts_right d \<and> waits_right d"

lemma ready_wait:
  "ready d s r \<Longrightarrow> wait_reply (s, Some r) = [] \<or>
     (\<exists>x. wait_reply (s, Some r) = [r] \<and> child d = Ended x \<and> status r = reported (child_id d) x \<and> \<not> failed r)"
  by (auto simp: ready_def wait_reply_def split: syscall.splits proc_call.splits wait_target.splits proc_state.splits)

lemma waits_right_call:
  assumes "waits_right d" "ready d s r"
  shows "waits_right (d\<lparr>parent := x, counters := y, ptrace := ptrace d @ [(s, Some r)]\<rparr>)"
  using assms(1) ready_wait [OF assms(2)] by (auto simp: waits_right_def split: proc_state.splits)

lemma waits_right_child:
  assumes "waits_right d" "\<And>x. child d \<noteq> Ended x"
  shows "waits_right (d\<lparr>child := y, counters := z, ctrace := t\<rparr>)" "waits_right (d\<lparr>child := y, ctrace := t\<rparr>)"
    "waits_right (d\<lparr>child := y\<rparr>)"
proof -
  have "wait_replies (ptrace d) = []"
    using assms(1) by (auto simp: waits_right_def assms(2) split: proc_state.splits)
  then show "waits_right (d\<lparr>child := y, counters := z, ctrace := t\<rparr>)"
    "waits_right (d\<lparr>child := y, ctrace := t\<rparr>)" "waits_right (d\<lparr>child := y\<rparr>)"
    by (simp_all add: waits_right_def split: proc_state.splits)
qed

lemma duo_inv_step:
  assumes "duo_inv p0 c0 d" and "step d d'"
  shows "duo_inv p0 c0 d'"
  using assms(2)
proof cases
  case (parent_call s k r)
  then have "counts_right d'"
    using assms(1) bump_counts [OF parent_call(3)] by (auto simp: duo_inv_def counts_right_def) (metis add.assoc add.commute)
  with parent_call assms(1) show ?thesis
    by (auto simp: duo_inv_def parent_right_def child_right_def after_snoc waits_right_call split: proc_state.splits)
next
  case (child_call s k r)
  then have "counts_right d'"
    using assms(1) bump_counts [OF child_call(3)] by (auto simp: duo_inv_def counts_right_def) (metis add.assoc add.commute)
  with child_call assms(1) show ?thesis
    by (auto simp: duo_inv_def parent_right_def child_right_def after_snoc after_possible_snoc waits_right_child
        split: proc_state.splits)
next
  case (child_execs s k)
  with assms(1) show ?thesis
    by (auto simp: duo_inv_def parent_right_def child_right_def counts_right_def after_possible_snoc waits_right_child
        split: proc_state.splits)
qed (use assms(1) in \<open>auto simp: duo_inv_def parent_right_def child_right_def counts_right_def waits_right_child
        waits_right_def split: proc_state.splits\<close>)

text \<open>The reachable states.\<close>

lemma duo_inv_init: "duo_inv (supervise fuel req pid pe ce) (child_side req pe ce) (forked_duo fuel req pid pe ce)"
  by (simp add: duo_inv_def forked_duo_def parent_right_def child_right_def counts_right_def waits_right_def)

lemma duo_inv_reachable:
  assumes "step\<^sup>*\<^sup>* (forked_duo fuel req pid pe ce) d"
  shows "duo_inv (supervise fuel req pid pe ce) (child_side req pe ce) d"
  using assms by induction (auto intro: duo_inv_init duo_inv_step)

section \<open>What the traces say\<close>

lemma taken_syncs: "taken fd (syncs t) = taken fd t"
  by (induction t) (auto simp: taken_def taken1_def is_sync_def split: syscall.splits proc_call.splits wait_target.splits)

lemma given_syncs: "given fd (syncs t) = given fd t"
  by (induction t) (auto simp: given_def given1_def is_sync_def split: syscall.splits proc_call.splits wait_target.splits)

lemma last_sync:
  assumes "syncs t \<noteq> []"
  obtains a s x b where "t = a @ (s, x) # b" "is_sync s" "syncs b = []" "syncs t = syncs a @ [(s, x)]"
proof -
  from assms have "\<exists>e \<in> set t. is_sync (fst e)" by (auto simp: syncs_def filter_empty_conv)
  from split_list_last_prop [OF this] obtain a e b where
    "t = a @ e # b" "is_sync (fst e)" "\<forall>e \<in> set b. \<not> is_sync (fst e)" by blast
  then show thesis using that by (cases e) (simp add: syncs_def filter_empty_conv)
qed

lemma child_syncs:
  assumes "possible (child_side req pe ce) t"
  shows "list_all event_ok (butlast (syncs t)) \<and>
    (\<exists>e. is_exec e \<and> prefix (calls (syncs t)) [Proc (EventFdWrite pe 2), Proc (EventFdRead ce), e])"
proof (cases "syncs t = []")
  case False
  then obtain a s x b where "t = a @ (s, x) # b" "is_sync s" "syncs t = syncs a @ [(s, x)]"
    by (rule last_sync)
  with wp_possible [OF child_wp, of req pe ce a s x b] assms show ?thesis
    by (auto simp: child_guard_def)
qed (auto intro: exI [of _ "Proc (Execvpe [] [] [])"])

lemma parent_syncs:
  assumes "possible (supervise fuel req pid pe ce) t"
  shows "list_all event_ok (butlast (syncs t)) \<and>
    prefix (calls (syncs t)) [Proc (EventFdRead pe), Proc (EventFdWrite ce 1), Proc (Waitpid (ChildPid pid) False)]"
proof (cases "syncs t = []")
  case False
  then obtain a s x b where "t = a @ (s, x) # b" "is_sync s" "syncs t = syncs a @ [(s, x)]"
    by (rule last_sync)
  with wp_possible [OF parent_wp, of fuel req pid pe ce a s x b] assms show ?thesis
    by (auto simp: parent_guard_def)
qed simp

lemma calls_eq_Nil [simp]: "calls t = [] \<longleftrightarrow> t = []"
  by (simp add: calls_def)

lemma calls_eq_Cons: "calls t = s # ss \<longleftrightarrow> (\<exists>x t'. t = (s, x) # t' \<and> calls t' = ss)"
  by (cases t) (auto simp: calls_def)

lemma child_sync_cases:
  assumes "possible (child_side req pe ce) t"
  obtains "syncs t = []"
  | x where "syncs t = [(Proc (EventFdWrite pe 2), x)]"
  | r x where "syncs t = [(Proc (EventFdWrite pe 2), Some r), (Proc (EventFdRead ce), x)]" "\<not> failed r"
  | r r' e x where "syncs t = [(Proc (EventFdWrite pe 2), Some r), (Proc (EventFdRead ce), Some r'), (e, x)]"
      "\<not> failed r" "\<not> failed r'" "is_exec e"
  using child_syncs [OF assms]
  by (auto simp: prefix_Cons calls_eq_Cons event_ok_def split: option.splits)

lemma parent_sync_cases:
  assumes "possible (supervise fuel req pid pe ce) t"
  obtains "syncs t = []"
  | x where "syncs t = [(Proc (EventFdRead pe), x)]"
  | r x where "syncs t = [(Proc (EventFdRead pe), Some r), (Proc (EventFdWrite ce 1), x)]" "\<not> failed r"
  | r r' x where "syncs t = [(Proc (EventFdRead pe), Some r), (Proc (EventFdWrite ce 1), Some r'),
        (Proc (Waitpid (ChildPid pid) False), x)]" "\<not> failed r" "\<not> failed r'"
  using parent_syncs [OF assms]
  by (auto simp: prefix_Cons calls_eq_Cons event_ok_def split: option.splits)

lemmas sums = taken_def given_def taken1_def given1_def

text \<open>What each process has taken from and given to the two counters.\<close>

lemma child_sums:
  assumes "possible (child_side req pe ce) t" "pe \<noteq> ce"
  shows "taken pe t = 0" "given ce t = 0"
  using assms(1) by (rule child_sync_cases;
      use assms(2) taken_syncs [of pe t, symmetric] given_syncs [of ce t, symmetric] in
      \<open>auto simp: sums is_exec_def split: option.splits syscall.splits proc_call.splits\<close>)+

lemma parent_sums:
  assumes "possible (supervise fuel req pid pe ce) t" "pe \<noteq> ce"
  shows "taken ce t = 0" "given pe t = 0"
  using assms(1) by (rule parent_sync_cases;
      use assms(2) taken_syncs [of ce t, symmetric] given_syncs [of pe t, symmetric] in
      \<open>auto simp: sums split: option.splits\<close>)+

lemma parent_possible: "parent_right p0 d \<Longrightarrow> possible p0 (ptrace d)"
  by (auto simp: parent_right_def split: proc_state.splits intro: after_possible)

section \<open>Executing the steps\<close>

text \<open>A schedule: which process moves, and the reply its call gets (\<open>None\<close> for the execution that
  does not return).\<close>

datatype move = ParentMove reply | ParentEnd | ChildMove reply | ChildExec | ChildEnd | WorkloadEnd "int option"

definition move :: "move \<Rightarrow> duo \<Rightarrow> duo option" where
  "move m d =
     (case m of
        ParentMove r \<Rightarrow>
          (case parent d of
             Running (Call s k) \<Rightarrow> if ready d s r then Some (d\<lparr>parent := Running (k r),
               counters := bump s r (counters d), ptrace := ptrace d @ [(s, Some r)]\<rparr>) else None
           | _ \<Rightarrow> None)
      | ChildMove r \<Rightarrow>
          (case child d of
             Running (Call s k) \<Rightarrow> if ready d s r then Some (d\<lparr>child := Running (k r),
               counters := bump s r (counters d), ctrace := ctrace d @ [(s, Some r)]\<rparr>) else None
           | _ \<Rightarrow> None)
      | ChildExec \<Rightarrow>
          (case child d of
             Running (Call s k) \<Rightarrow> if is_exec s
               then Some (d\<lparr>child := Workload, ctrace := ctrace d @ [(s, None)]\<rparr>) else None
           | _ \<Rightarrow> None)
      | ParentEnd \<Rightarrow>
          (case parent d of
             Running p \<Rightarrow> (case exit_of p of Some c \<Rightarrow> Some (d\<lparr>parent := Ended (Some c)\<rparr>) | None \<Rightarrow> None)
           | _ \<Rightarrow> None)
      | ChildEnd \<Rightarrow>
          (case child d of
             Running p \<Rightarrow> (case exit_of p of Some c \<Rightarrow> Some (d\<lparr>child := Ended (Some c)\<rparr>) | None \<Rightarrow> None)
           | _ \<Rightarrow> None)
      | WorkloadEnd x \<Rightarrow> (if child d = Workload then Some (d\<lparr>child := Ended x\<rparr>) else None))"

fun moves :: "move list \<Rightarrow> duo \<Rightarrow> duo option" where
  "moves [] d = Some d"
| "moves (m # ms) d = (case move m d of Some d' \<Rightarrow> moves ms d' | None \<Rightarrow> None)"

lemma move_step: "move m d = Some d' \<Longrightarrow> step d d'"
  by (cases m) (auto simp: move_def intro: step.intros split: proc_state.splits prog.splits option.splits if_splits)

lemma moves_steps: "moves ms d = Some d' \<Longrightarrow> step\<^sup>*\<^sup>* d d'"
proof (induction ms d rule: moves.induct)
  case (2 m ms d)
  then show ?case by (auto split: option.splits dest: move_step intro: converse_rtranclp_into_rtranclp)
qed simp

text \<open>The run of a request with a user namespace, up to the execution and up to the end.\<close>

definition user_request :: CreateRequest where
  "user_request = plain_request\<lparr>cr_namespaces := Some [User],
     cr_uid_mappings := Some [\<lparr>base_nsid = 0, base_hostid = 1000, remap_count = 1\<rparr>],
     cr_exec := ExecutableSpec_default\<lparr>executable := Some ''sh''\<rparr>\<rparr>"

lemma user_request_simps [simp]:
  "cr_namespaces user_request = Some [User]" "cr_capabilities user_request = None"
  "cr_uid_mappings user_request = Some [\<lparr>base_nsid = 0, base_hostid = 1000, remap_count = 1\<rparr>]"
  "cr_gid_mappings user_request = None" "cr_setgroups_deny user_request = None" "\<not> skips_two_stage user_request"
  "cr_exec user_request = ExecutableSpec_default\<lparr>executable := Some ''sh''\<rparr>"
  by (simp_all add: user_request_def plain_request_def CreateRequest_default_def skips_two_stage_def)

definition exec_schedule :: "move list" where
  "exec_schedule = replicate 8 (ChildMove reply0) @ replicate 5 (ParentMove reply0) @
     replicate 3 (ChildMove reply0) @ [ChildExec]"

definition end_schedule :: "int option \<Rightarrow> move list" where
  "end_schedule x = exec_schedule @ [WorkloadEnd x, ParentMove (reply0\<lparr>status := reported 42 x\<rparr>),
     ParentMove reply0, ParentEnd]"

lemmas run_defs = child_defs supervise_def store_child_pid_def userns_pid_def prepare_userns_def
  wait_for_pid_def unshare_def ns_flags_def add_flag_def ExecutableSpec_default_def proc_file_def

lemma user_run:
  "\<exists>d. moves exec_schedule (forked_duo 1 user_request 42 3 4) = Some d \<and>
     child d = Workload \<and> list_ex (\<lambda>e. is_exec (fst e)) (ctrace d)"
  "\<exists>d. moves (end_schedule x) (forked_duo 1 user_request 42 3 4) = Some d \<and>
     child d = Ended x \<and> parent d = Ended (Some (case x of Some c \<Rightarrow> c | None \<Rightarrow> 1))"
  by (simp_all add: exec_schedule_def end_schedule_def forked_duo_def move_def ready_def bump_def
      numeral_eq_Suc reply0_def reported_def exit_code_def run_defs Let_def split: option.splits)

section \<open>The exit of the supervisor\<close>

definition released :: "int \<Rightarrow> event list \<Rightarrow> bool" where
  "released ce t \<longleftrightarrow> list_ex (\<lambda>e. fst e = Proc (EventFdWrite ce 1) \<and> event_ok e) t"

lemma released_simps [simp]:
  "\<not> released ce []" "released ce (t @ t') \<longleftrightarrow> released ce t \<or> released ce t'"
  "released ce (e # t) \<longleftrightarrow> (fst e = Proc (EventFdWrite ce 1) \<and> event_ok e) \<or> released ce t"
  by (auto simp: released_def)

lemma released_quiet: "syncs t = [] \<Longrightarrow> \<not> released ce t"
  by (induction t) (auto split: if_splits)

lemma released_syncs: "released ce (syncs t) = released ce t"
  by (induction t) auto

definition exit_right :: "int \<Rightarrow> event list \<Rightarrow> unit result outcome \<Rightarrow> bool" where
  "exit_right ce t x =
     (case x of
        Done (Inl e) \<Rightarrow> \<not> released ce t \<or> (\<exists>r \<in> set (wait_replies t). failed r)
      | Done (Inr u) \<Rightarrow> False
      | Exited c \<Rightarrow> released ce t \<and> (\<exists>r \<in> set (wait_replies t). c = exit_code (status r))
      | _ \<Rightarrow> True)"

lemma exit_right_simps [simp]:
  "exit_right ce t (Done (Inl e)) \<longleftrightarrow> \<not> released ce t \<or> (\<exists>r \<in> set (wait_replies t). failed r)"
  "exit_right ce t (Exited c) \<longleftrightarrow> released ce t \<and> (\<exists>r \<in> set (wait_replies t). c = exit_code (status r))"
  "exit_right ce t Gone" "exit_right ce t NoFuel"
  by (simp_all add: exit_right_def)

lemma wp_try_userns:
  assumes "\<And>t x. syncs t = [] \<Longrightarrow> (\<exists>e. x = Done (Inl e)) \<or> x = Gone \<or> x = NoFuel \<Longrightarrow> Q (h @ t) x"
    and "\<And>t. syncs t = [] \<Longrightarrow> wp (\<lambda>_ _. True) Q (f ()) (h @ t)"
  shows "wp (\<lambda>_ _. True) Q (try_io (prepare_userns req p) f) h"
  unfolding wp_try wp_shift_Nil [of _ _ _ h]
proof (rule wp_mono [OF userns_wp [of req p]], simp)
  fix t :: "event list" and x :: "unit result outcome"
  assume t: "prefix (calls t) (userns_plan req p) \<and>
      (x = Done (Inr ()) \<longleftrightarrow> calls t = userns_plan req p \<and> list_all event_ok t) \<and>
      list_all event_ok (butlast t) \<and> (\<forall>c. x \<noteq> Exited c)"
  then obtain zs where "userns_plan req p = calls t @ zs"
    by (blast elim: prefixE)
  with userns_plan_quiet [of req p] have "syncs t = []"
    by (intro syncs_quiet) simp
  with t assms show "post_try Q (\<lambda>h a. wp (\<lambda>_ _. True) Q (f a) h) (h @ t) x"
    by (auto simp: post_try_def post_bind_def split: outcome.splits sum.splits)
qed

lemma exit_right_release:
  assumes "\<not> released ce h"
  shows "wp (\<lambda>_ _. True) (exit_right ce)
     (try_io (sys_unit (Proc (EventFdWrite ce 1))) (\<lambda>_.
      try_io (wait_for_pid pid) (\<lambda>exitcode.
      try_io (reap_children fuel) (\<lambda>_.
      Halt exitcode)))) h"
proof -
  have "wp (\<lambda>_ _. True) (exit_right ce) (try_io (reap_children fuel) (\<lambda>_. Halt (exit_code (status r'))))
     (h @ [(Proc (EventFdWrite ce 1), Some r), (Proc (Waitpid (ChildPid pid) False), Some r')])"
    if "\<not> failed r" for r r'
    unfolding wp_try by (rule wp_reap) (use that in auto)
  with assms show ?thesis by (auto simp: sys_unit_def sys_res_def wait_for_pid_def)
qed

lemma exit_right_wp: "wp (\<lambda>_ _. True) (exit_right ce) (supervise fuel req pid pe ce) []"
proof -
  let ?h = "\<lambda>r0 r. [(Proc (StoreChildPid pid), Some r0), (Proc (EventFdRead pe), Some r)]"
  have "wp (\<lambda>_ _. True) (exit_right ce)
      (try_io (if User \<in> set (target_ns (cr_namespaces req)) then prepare_userns req (userns_pid req pid) else ok ())
        (\<lambda>_. try_io (sys_unit (Proc (EventFdWrite ce 1))) (\<lambda>_.
          try_io (wait_for_pid pid) (\<lambda>exitcode.
          try_io (reap_children fuel) (\<lambda>_. Halt exitcode))))) (?h r0 r)" for r0 r
  proof (cases "User \<in> set (target_ns (cr_namespaces req))")
    case True
    have "wp (\<lambda>_ _. True) (exit_right ce)
        (try_io (prepare_userns req (userns_pid req pid))
          (\<lambda>_. try_io (sys_unit (Proc (EventFdWrite ce 1))) (\<lambda>_.
            try_io (wait_for_pid pid) (\<lambda>exitcode.
            try_io (reap_children fuel) (\<lambda>_. Halt exitcode))))) (?h r0 r)"
      by (rule wp_try_userns, fastforce dest: released_quiet [of _ ce],
          rule exit_right_release, simp add: released_quiet)
    with True show ?thesis by simp
  next
    case False
    then show ?thesis using exit_right_release [of ce "?h r0 r" pid fuel] by simp
  qed
  then show ?thesis
    by (cases "User \<in> set (target_ns (cr_namespaces req))";
        simp add: supervise_def store_child_pid_def sys_def sys_unit_def [of "Proc (EventFdRead pe)"])
qed

section \<open>Where the two processes can wait\<close>

lemma not_ready:
  assumes "\<And>r. \<not> ready d s r"
  shows "(\<exists>fd. s = Proc (EventFdRead fd) \<and> counters d fd = 0) \<or>
    (\<exists>pid b. s = Proc (Waitpid (ChildPid pid) b) \<and> (\<forall>x. child d \<noteq> Ended x))"
  using assms [of "reply0\<lparr>rc := if is_exec s then - 1 else 0,
      status := (case child d of Ended x \<Rightarrow> reported (child_id d) x | _ \<Rightarrow> StillAlive)\<rparr>"]
  by (auto simp: ready_def reply0_def split: syscall.splits proc_call.splits wait_target.splits proc_state.splits)

lemma stuck_process:
  assumes "stuck d"
  shows "parent d = Running p \<Longrightarrow> \<exists>s k. p = Call s k \<and> (\<forall>r. \<not> ready d s r)"
    and "child d = Running p \<Longrightarrow> \<exists>s k. p = Call s k \<and> (\<forall>r. \<not> ready d s r)"
    and "child d \<noteq> Workload"
proof -
  have none: "\<not> step d d'" for d' using assms by (simp add: stuck_def)
  have ends: "\<exists>c. exit_of (Ret x) = Some c" for x by (cases x) auto
  show "\<exists>s k. p = Call s k \<and> (\<forall>r. \<not> ready d s r)" if p: "parent d = Running p"
  proof (cases p)
    case (Call s k)
    with p none parent_call show ?thesis by blast
  next
    case (Ret x)
    with ends [of x] p none parent_ends show ?thesis by blast
  next
    case (Halt c)
    with p none parent_ends [of d p c] show ?thesis by simp
  next
    case OutOfFuel
    with p none parent_reaps show ?thesis by blast
  qed
  show "\<exists>s k. p = Call s k \<and> (\<forall>r. \<not> ready d s r)" if p: "child d = Running p"
  proof (cases p)
    case (Call s k)
    with p none child_call show ?thesis by blast
  next
    case (Ret x)
    with ends [of x] p none child_ends show ?thesis by blast
  next
    case (Halt c)
    with p none child_ends [of d p c] show ?thesis by simp
  next
    case OutOfFuel
    with p none child_reaps show ?thesis by blast
  qed
  show "child d \<noteq> Workload" using none workload_ends by blast
qed

text \<open>A supervisor that waits is at its read of the event counter or at its wait for the child, with
  everything before that done; a child that waits is at its read.\<close>

lemma parent_waits:
  assumes "after (supervise fuel req pid pe ce) t = Some (Call s k)" "is_sync s"
  shows "s = Proc (EventFdRead pe) \<and> syncs t = [] \<or>
    s = Proc (EventFdWrite ce 1) \<or>
    s = Proc (Waitpid (ChildPid pid) False) \<and> released ce t"
proof -
  have "parent_guard req pid pe ce t s"
    using wp_after [OF parent_wp assms(1)] by simp
  with assms(2) show ?thesis
    by (auto simp: parent_guard_def prefix_Cons append_eq_Cons_conv calls_eq_Cons released_syncs [of ce t, symmetric])
qed

lemma child_waits:
  assumes "after (child_side req pe ce) t = Some (Call s k)" "is_sync s"
  shows "s = Proc (EventFdRead ce) \<and> given pe t = 2 \<and> taken ce t = 0 \<or>
    s = Proc (EventFdWrite pe 2) \<or> is_exec s"
proof -
  have "child_guard pe ce t s"
    using wp_after [OF child_wp assms(1)] by simp
  with assms(2) show ?thesis
    unfolding taken_syncs [of ce t, symmetric] given_syncs [of pe t, symmetric]
    by (auto simp: child_guard_def prefix_Cons append_eq_Cons_conv calls_eq_Cons sums event_ok_def
        split: option.splits)
qed

definition signalled :: "int \<Rightarrow> event list \<Rightarrow> bool" where
  "signalled pe t \<longleftrightarrow> list_ex (\<lambda>e. fst e = Proc (EventFdWrite pe 2) \<and> event_ok e) t"

lemma signalled_syncs: "signalled pe (syncs t) = signalled pe t"
  by (induction t) (auto simp: signalled_def)

lemma given_parent:
  assumes "possible (supervise fuel req pid pe ce) t"
  shows "given ce t = (if released ce t then 1 else 0)"
  unfolding given_syncs [of ce t, symmetric] released_syncs [of ce t, symmetric]
  using assms by (rule parent_sync_cases) (auto simp: sums event_ok_def split: option.splits)

lemma given_child:
  assumes "possible (child_side req pe ce) t"
  shows "given pe t = (if signalled pe t then 2 else 0)"
  unfolding given_syncs [of pe t, symmetric] signalled_syncs [of pe t, symmetric]
  using assms by (rule child_sync_cases)
    (auto simp: sums event_ok_def signalled_def is_exec_def split: option.splits syscall.splits proc_call.splits)

section \<open>A child that does not signal\<close>

lemma ended_step:
  "step d d' \<Longrightarrow> child d = Ended x \<Longrightarrow> child d' = Ended x \<and> ctrace d' = ctrace d"
  by (auto elim: step_E)

lemma ended_steps:
  assumes "step\<^sup>*\<^sup>* d d'" "child d = Ended x"
  shows "child d' = Ended x \<and> ctrace d' = ctrace d"
  using assms by induction (auto dest: ended_step)

lemma after_answered: "after p t = Some q \<Longrightarrow> list_all (\<lambda>e. snd e \<noteq> None) t"
  by (induction p t rule: after.induct) (auto split: if_splits)

lemma after_Call_Cons:
  "after (Call s k) (e # t) = Some q \<longleftrightarrow> (\<exists>r. e = (s, Some r) \<and> after (k r) t = Some q)"
  by (cases e; cases "snd e") auto

lemma parent_untaken:
  assumes "after (supervise fuel req pid pe ce) t = Some p" "taken pe t = 0"
  shows "\<exists>s k. p = Call s k \<and> s \<in> {Proc (StoreChildPid pid), Proc (EventFdRead pe)}"
proof -
  have t: "possible (supervise fuel req pid pe ce) t"
    using assms(1) by (rule after_possible)
  have "list_all (\<lambda>e. snd e \<noteq> None) (syncs t)"
    using after_answered [OF assms(1)] by (simp add: syncs_def list_all_iff)
  moreover have "taken pe (syncs t) = 0"
    using assms(2) by (simp add: taken_syncs)
  ultimately have "syncs t = []"
    by (rule_tac parent_sync_cases [OF t]) (auto simp: sums)
  with assms(1) show ?thesis
    by (cases t rule: list.exhaust; cases "tl t" rule: list.exhaust)
      (auto simp: supervise_def store_child_pid_def sys_def sys_unit_def after_Call_Cons)
qed

text \<open>A request without a root file system: the child fails in \<open>pivot_fs\<close>.\<close>

definition unsignalled_schedule :: "move list" where
  "unsignalled_schedule = replicate 6 (ChildMove reply0) @ [ChildEnd, ParentMove reply0]"

lemma unsignalled_run:
  "\<exists>d k. moves unsignalled_schedule (forked_duo 1 CreateRequest_default 42 3 4) = Some d \<and>
     child d = Ended (Some 1) \<and> \<not> signalled 3 (ctrace d) \<and> counters d 3 = 0 \<and>
     parent d = Running (Call (Proc (EventFdRead 3)) k)"
  by (simp add: unsignalled_schedule_def forked_duo_def move_def ready_def bump_def
      numeral_eq_Suc reply0_def run_defs CreateRequest_default_def skips_two_stage_def default_ns_def
      pivot_fs_def assemble_root_def stage_root_def signalled_def split: option.splits)

lemma stuck_at_read:
  assumes "parent d = Running (Call (Proc (EventFdRead fd)) k)" "counters d fd = 0" "child d = Ended x"
  shows "stuck d"
  using assms by (auto simp: stuck_def ready_def elim!: step_E)

section \<open>Steps lead down\<close>

text \<open>A program is a well-founded tree, so every call brings its process nearer to its end.\<close>

inductive nearer :: "proc_state \<Rightarrow> proc_state \<Rightarrow> bool" where
  call: "nearer (Running (k r)) (Running (Call s k))"
| exec: "nearer Workload (Running p)"
| exit: "nearer (Ended x) (Running p)"
| over: "nearer (Ended x) Workload"

inductive_simps nearer_simps [simp]:
  "nearer q (Ended x)" "nearer q Workload" "nearer q (Running (Ret a))" "nearer q (Running (Halt c))"
  "nearer q (Running OutOfFuel)"

lemma wf_nearer: "wfp nearer"
proof -
  have ended: "Wellfounded.accp nearer (Ended x)" for x by (rule accpI) simp
  have workload: "Wellfounded.accp nearer Workload" by (rule accpI) (auto intro: ended)
  have "Wellfounded.accp nearer (Running p)" for p
  proof (induction p rule: prog_induct)
    case (Call s k)
    show ?case by (rule accpI) (auto elim: nearer.cases intro: ended workload Call)
  qed (rule accpI; auto intro: ended workload elim: nearer.cases)+
  then have "Wellfounded.accp nearer q" for q
    by (cases q) (simp_all add: ended workload)
  then show ?thesis by (rule accp_wfpI [OF allI])
qed

lemma step_nearer:
  assumes "step d d'" "d' \<noteq> d"
  shows "nearer (parent d') (parent d) \<or> parent d' = parent d \<and> nearer (child d') (child d)"
  using assms by cases (auto intro: nearer.intros)

section \<open>The execution and the exit\<close>

lemma exec_released:
  assumes "step\<^sup>*\<^sup>* (forked_duo fuel req pid pe ce) d" and "pe \<noteq> ce"
    and "list_ex (\<lambda>e. is_exec (fst e)) (ctrace d)"
  shows "\<exists>a r b. ptrace d = a @ (Proc (EventFdWrite ce 1), Some r) # b \<and> \<not> failed r \<and> configured req pid a"
proof -
  have inv: "duo_inv (supervise fuel req pid pe ce) (child_side req pe ce) d"
    by (rule duo_inv_reachable [OF assms(1)])
  then have pt: "possible (supervise fuel req pid pe ce) (ptrace d)"
    and ct: "possible (child_side req pe ce) (ctrace d)"
    and cnt: "counters d ce + taken ce (ptrace d) + taken ce (ctrace d) = given ce (ptrace d) + given ce (ctrace d)"
    by (auto simp: duo_inv_def child_right_def counts_right_def dest: parent_possible)
  obtain e x where "(e, x) \<in> set (syncs (ctrace d))" "is_exec e"
    using assms(3) by (auto simp: list_ex_iff syncs_def exec_sync)
  with ct have "0 < taken ce (syncs (ctrace d))"
    by (auto elim!: child_sync_cases simp: sums)
  then have "0 < given ce (syncs (ptrace d))"
    using cnt parent_sums [OF pt assms(2)] child_sums [OF ct assms(2)] by (simp add: taken_syncs given_syncs)
  with pt obtain r where "(Proc (EventFdWrite ce 1), Some r) \<in> set (syncs (ptrace d))" "\<not> failed r"
    by (auto elim!: parent_sync_cases simp: sums split: option.splits if_splits)
  then obtain a b where ab: "ptrace d = a @ (Proc (EventFdWrite ce 1), Some r) # b"
    by (auto simp: syncs_def dest: split_list)
  have "configured req pid a"
    using wp_possible [OF parent_wp pt [unfolded ab]] by (simp add: parent_guard_def)
  with ab \<open>\<not> failed r\<close> show ?thesis by blast
qed

lemma supervisor_end:
  assumes "step\<^sup>*\<^sup>* (forked_duo fuel req pid pe ce) d" and "parent d = Ended y"
  shows "if released ce (ptrace d)
    then \<exists>x. child d = Ended x \<and> y = Some (case x of Some c \<Rightarrow> c | None \<Rightarrow> 1)
    else y = Some 1"
proof -
  have inv: "duo_inv (supervise fuel req pid pe ce) (child_side req pe ce) d"
    by (rule duo_inv_reachable [OF assms(1)])
  with assms(2) obtain p c where p: "after (supervise fuel req pid pe ce) (ptrace d) = Some p"
      "exit_of p = Some c" "y = Some c"
    by (auto simp: duo_inv_def parent_right_def)
  have wp: "wp (\<lambda>_ _. True) (exit_right ce) p (ptrace d)"
    using wp_after [OF exit_right_wp p(1)] by simp
  have w: "waits_right d" using inv by (simp add: duo_inv_def)
  show ?thesis
  proof (cases p)
    case (Ret a)
    then show ?thesis
      using wp p w by (cases a) (auto simp: exit_right_def waits_right_def list_all_iff split: proc_state.splits)
  next
    case (Halt c')
    with wp p obtain r where "released ce (ptrace d)" "r \<in> set (wait_replies (ptrace d))" "c = exit_code (status r)"
      by auto
    with w p show ?thesis
      by (auto simp: waits_right_def list_all_iff reported_def exit_code_def split: proc_state.splits option.splits)
  qed (use p in auto)
qed

section \<open>The standstills\<close>

lemma standstill:
  assumes "step\<^sup>*\<^sup>* (forked_duo fuel req pid pe ce) d" and "pe \<noteq> ce" and "stuck d"
  shows "(\<exists>x y. parent d = Ended x \<and> child d = Ended y) \<or>
    (\<exists>k y. parent d = Running (Call (Proc (EventFdRead pe)) k) \<and> child d = Ended y \<and> \<not> signalled pe (ctrace d)) \<or>
    (\<exists>k x. child d = Running (Call (Proc (EventFdRead ce)) k) \<and> parent d = Ended x \<and> \<not> released ce (ptrace d))"
proof -
  let ?p = "supervise fuel req pid pe ce" and ?c = "child_side req pe ce"
  have inv: "parent_right ?p d" "child_right ?c d" "counts_right d"
    using duo_inv_reachable [OF assms(1)] by (simp_all add: duo_inv_def)
  have pp: "possible ?p (ptrace d)" and cp: "possible ?c (ctrace d)"
    using inv parent_possible by (auto simp: child_right_def)
  have counts: "counters d fd + taken fd (ptrace d) + taken fd (ctrace d) = given fd (ptrace d) + given fd (ctrace d)" for fd
    using inv(3) by (simp add: counts_right_def)
  note sums' = given_parent [OF pp] given_child [OF cp] parent_sums [OF pp assms(2)] child_sums [OF cp assms(2)]
  have child: "(\<exists>y. child d = Ended y) \<or>
      (\<exists>k. child d = Running (Call (Proc (EventFdRead ce)) k) \<and> signalled pe (ctrace d) \<and> \<not> released ce (ptrace d))"
  proof (cases "child d")
    case (Running q)
    then obtain s k where q: "q = Call s k" "\<And>r. \<not> ready d s r" and af: "after ?c (ctrace d) = Some (Call s k)"
      using stuck_process(2) [OF assms(3)] inv(2) by (fastforce simp: child_right_def)
    with not_ready [OF q(2)] child_waits [OF af]
    have s: "s = Proc (EventFdRead ce)" "counters d ce = 0" "given pe (ctrace d) = 2" "taken ce (ctrace d) = 0"
      by (auto simp: is_exec_def)
    with counts [of ce] sums' q Running show ?thesis by (auto split: if_splits)
  qed (use stuck_process(3) [OF assms(3)] in auto)
  show ?thesis
  proof (cases "parent d")
    case (Running q)
    then obtain s k where q: "q = Call s k" "\<And>r. \<not> ready d s r" and af: "after ?p (ptrace d) = Some (Call s k)"
      using stuck_process(1) [OF assms(3)] inv(1) by (fastforce simp: parent_right_def)
    from not_ready [OF q(2)] parent_waits [OF af]
    consider "s = Proc (EventFdRead pe)" "counters d pe = 0" "syncs (ptrace d) = []"
      | "released ce (ptrace d)" "\<forall>x. child d \<noteq> Ended x"
      by auto
    then show ?thesis
    proof cases
      case 1
      then have "taken pe (ptrace d) = 0"
        by (simp add: taken_syncs [of pe "ptrace d", symmetric])
      with 1 counts [of pe] sums' have "\<not> signalled pe (ctrace d)" by (auto split: if_splits)
      with 1 child q Running show ?thesis by blast
    next
      case 2
      with child show ?thesis by blast
    qed
  next
    case (Ended x)
    with child show ?thesis by blast
  qed (use inv in \<open>simp add: parent_right_def\<close>)
qed

section \<open>Properties\<close>

text \<open>C4. In every interleaving of the supervisor and the child: if the child has executed the
  workload, then the supervisor has released it before, and before that has made every write that
  configures the user namespace (if one is requested), all with success.\<close>

theorem workload_runs_configured:
  assumes "step\<^sup>*\<^sup>* (forked_duo fuel req pid pe ce) d" and "pe \<noteq> ce"
    and "list_ex (\<lambda>e. is_exec (fst e)) (ctrace d)"
  shows "\<exists>a r b. ptrace d = a @ (Proc (EventFdWrite ce 1), Some r) # b \<and> \<not> failed r \<and> configured req pid a"
  using assms by (rule exec_released)

theorem workload_runs_configured_witness:
  "\<exists>d a r b. moves exec_schedule (forked_duo 1 user_request 42 3 4) = Some d \<and>
     ptrace d = a @ (Proc (EventFdWrite 4 1), Some r) # b \<and> \<not> failed r \<and> configured user_request 42 a"
proof -
  obtain d where "moves exec_schedule (forked_duo 1 user_request 42 3 4) = Some d"
    "list_ex (\<lambda>e. is_exec (fst e)) (ctrace d)"
    using user_run(1) by blast
  with workload_runs_configured [OF moves_steps, of exec_schedule 1 user_request 42 3 4 d] show ?thesis by auto
qed


text \<open>C10. The exit code of the supervisor, in every interleaving: if it has released the child, it
  ends only after the child, with the code of the child, or with 1 if a signal killed the child; if
  it has not, it ends with 1.\<close>

theorem supervisor_exit_code:
  assumes "step\<^sup>*\<^sup>* (forked_duo fuel req pid pe ce) d" and "parent d = Ended y"
  shows "if released ce (ptrace d)
    then \<exists>x. child d = Ended x \<and> y = Some (case x of Some c \<Rightarrow> c | None \<Rightarrow> 1)
    else y = Some 1"
  using assms by (rule supervisor_end)

theorem supervisor_exit_code_witness:
  "\<exists>d. moves (end_schedule (Some 3)) (forked_duo 1 user_request 42 3 4) = Some d \<and>
     (if released 4 (ptrace d) then \<exists>x. child d = Ended x \<and> Some 3 = Some (case x of Some c \<Rightarrow> c | None \<Rightarrow> 1)
      else Some (3 :: int) = Some 1)"
proof -
  obtain d where d: "moves (end_schedule (Some 3)) (forked_duo 1 user_request 42 3 4) = Some d"
      "parent d = Ended (Some 3)"
    using user_run(2) [of "Some 3"] by auto
  with supervisor_exit_code [OF moves_steps [OF d(1)] d(2)] show ?thesis by blast
qed


text \<open>C9. Where supervisor and child can come to a standstill. If neither can take a step any more,
  then both have ended; or the child has ended without having signalled, and the supervisor waits for
  that signal for ever; or the supervisor has ended without having released the child, and the child
  waits for that for ever. In every other state one of the two can go on, so the two event counters
  alone never make them wait for each other.\<close>

theorem stuck_cases:
  assumes "step\<^sup>*\<^sup>* (forked_duo fuel req pid pe ce) d" and "pe \<noteq> ce" and "stuck d"
  shows "(\<exists>x y. parent d = Ended x \<and> child d = Ended y) \<or>
    (\<exists>k y. parent d = Running (Call (Proc (EventFdRead pe)) k) \<and> child d = Ended y \<and> \<not> signalled pe (ctrace d)) \<or>
    (\<exists>k x. child d = Running (Call (Proc (EventFdRead ce)) k) \<and> parent d = Ended x \<and> \<not> released ce (ptrace d))"
  using assms by (rule standstill)


theorem stuck_cases_witness:
  "\<exists>d. moves unsignalled_schedule (forked_duo 1 CreateRequest_default 42 3 4) = Some d \<and> stuck d \<and>
    ((\<exists>x y. parent d = Ended x \<and> child d = Ended y) \<or>
     (\<exists>k y. parent d = Running (Call (Proc (EventFdRead 3)) k) \<and> child d = Ended y \<and> \<not> signalled 3 (ctrace d)) \<or>
     (\<exists>k x. child d = Running (Call (Proc (EventFdRead 4)) k) \<and> parent d = Ended x \<and> \<not> released 4 (ptrace d)))"
proof -
  obtain d k where d: "moves unsignalled_schedule (forked_duo 1 CreateRequest_default 42 3 4) = Some d"
      "child d = Ended (Some 1)" "counters d 3 = 0" "parent d = Running (Call (Proc (EventFdRead 3)) k)"
    using unsignalled_run by blast
  then have "stuck d" by (blast intro: stuck_at_read)
  with d(1) stuck_cases [OF moves_steps [OF d(1)] _ \<open>stuck d\<close>] show ?thesis by simp
qed

text \<open>C11. A child that ends without having signalled blocks its supervisor: whatever steps follow, the
  supervisor does not get past its read of the event counter; in particular it never waits for the
  child, never exits and reports no exit code. \<open>wrap\<close> ends the child in this way whenever
  \<open>pivot_fs\<close> or the second \<open>unshare\<close> fails, as for a request without a root file system.\<close>

theorem unsignalled_supervisor_blocks:
  assumes "step\<^sup>*\<^sup>* (forked_duo fuel req pid pe ce) d" and "pe \<noteq> ce"
    and "child d = Ended x" and "\<not> signalled pe (ctrace d)" and "step\<^sup>*\<^sup>* d d'"
  shows "child d' = Ended x \<and>
    (\<exists>s k. parent d' = Running (Call s k) \<and> s \<in> {Proc (StoreChildPid pid), Proc (EventFdRead pe)})"
proof -
  let ?p = "supervise fuel req pid pe ce" and ?c = "child_side req pe ce"
  have ended: "child d' = Ended x" "ctrace d' = ctrace d"
    using ended_steps [OF assms(5,3)] by auto
  have inv: "parent_right ?p d'" "child_right ?c d'" "counts_right d'"
    using duo_inv_reachable [OF rtranclp_trans [OF assms(1,5)]] by (simp_all add: duo_inv_def)
  have pp: "possible ?p (ptrace d')" and cp: "possible ?c (ctrace d')"
    using inv parent_possible by (auto simp: child_right_def)
  have none: "taken pe (ptrace d') = 0"
    using inv(3) given_child [OF cp] parent_sums(2) [OF pp assms(2)] assms(4) ended(2)
    by (simp add: counts_right_def) (metis add_is_0)
  obtain p where p: "after ?p (ptrace d') = Some p"
      "parent d' = Running p \<or> (\<exists>c. exit_of p = Some c \<and> parent d' = Ended (Some c))"
    using inv(1) by (auto simp: parent_right_def split: proc_state.splits)
  from parent_untaken [OF p(1) none] p(2) ended(1) show ?thesis by auto
qed

theorem unsignalled_supervisor_blocks_witness:
  "\<exists>d. moves unsignalled_schedule (forked_duo 1 CreateRequest_default 42 3 4) = Some d \<and>
    child d = Ended (Some 1) \<and>
    (\<exists>s k. parent d = Running (Call s k) \<and> s \<in> {Proc (StoreChildPid 42), Proc (EventFdRead 3)})"
proof -
  obtain d where d: "moves unsignalled_schedule (forked_duo 1 CreateRequest_default 42 3 4) = Some d"
      "child d = Ended (Some 1)" "\<not> signalled 3 (ctrace d)"
    using unsignalled_run by blast
  from unsignalled_supervisor_blocks [OF moves_steps [OF d(1)] _ d(2,3) rtranclp.rtrancl_refl] d(1)
  show ?thesis by auto
qed

end
