(* ===== verification/Progress.thy ===== *)
theory Progress
  imports Handshake
begin

text \<open>
  Every run of supervisor and child comes to an end. The only loop on what the kernel says is
  \<open>reap_children\<close> of the supervisor: it goes round once more only for a child that it has reaped, so a
  supervisor that has reaped fewer children than it has fuel is not out of fuel; the child has no such
  loop. Together with the well-founded order of \<open>Handshake\<close> and the cases of a standstill, every
  complete run ends in one of three ways.
\<close>

section \<open>Programs without a loop on replies\<close>

primrec loop_free :: "'a prog \<Rightarrow> bool" where
  "loop_free (Ret a) = True"
| "loop_free (Halt c) = True"
| "loop_free OutOfFuel = False"
| "loop_free (Call s k) = (\<forall>r. loop_free (k r))"

lemma loop_free_bind: "loop_free p \<Longrightarrow> (\<And>a. loop_free (f a)) \<Longrightarrow> loop_free (bind p f)"
  by (induction p) auto

lemma loop_free_try [intro!]: "loop_free p \<Longrightarrow> (\<And>a. loop_free (f a)) \<Longrightarrow> loop_free (try_io p f)"
  unfolding try_io_def by (rule loop_free_bind) (auto split: sum.splits)

lemma loop_free_map_err [intro!]: "loop_free p \<Longrightarrow> loop_free (map_err g p)"
  unfolding map_err_def by (rule loop_free_bind) auto

lemma loop_free_warn [intro!]: "loop_free p \<Longrightarrow> loop_free (warn_on_err p)"
  unfolding warn_on_err_def by (rule loop_free_bind) auto

lemma loop_free_exit_on_err [intro!]: "loop_free p \<Longrightarrow> loop_free (exit_on_err p)"
  unfolding exit_on_err_def by (rule loop_free_bind) (auto split: sum.splits)

lemma loop_free_for [intro!]: "(\<And>x. loop_free (f x)) \<Longrightarrow> loop_free (for_io f xs)"
  by (induction xs) auto

lemma loop_free_sys [simp]: "loop_free (sys s)" "loop_free (sys_res s)" "loop_free (sys_unit s)"
  by (simp_all add: sys_def sys_res_def sys_unit_def)

lemma wp_loop_free:
  assumes "loop_free p" and "\<And>h' x. x \<noteq> NoFuel \<Longrightarrow> Q (h @ h') x"
  shows "wp (\<lambda>_ _. True) Q p h"
  using assms
proof (induction p arbitrary: h rule: prog_induct)
  case (Ret a)
  then show ?case using Ret(2) [of "Done a" "[]"] by simp
next
  case (Halt c)
  then show ?case using Halt(2) [of "Exited c" "[]"] by simp
next
  case (Call s k)
  have "wp (\<lambda>_ _. True) Q (k r) (h @ [(s, Some r)])" for r
    by (rule Call.IH) (use Call.prems(1) Call.prems(2) [of _ "(s, Some r) # h'" for h'] in auto)
  then show ?case using Call.prems(2) [of Gone "[(s, None)]"] by simp
qed simp

section \<open>The child\<close>

lemma loop_free_mount [simp]: "loop_free (mount ms)"
  by (auto simp: mount_def create_target_def source_is_file_def do_mount_def mount_setattr_def Let_def
      split: option.splits intro!: loop_free_try)

lemma loop_free_pivot_fs [simp]: "loop_free (pivot_fs req)"
proof -
  have "loop_free (create_identity req)"
    by (auto simp: create_identity_def identity_of_def get_pid_def intro!: loop_free_try)
  moreover have "loop_free (seal ms)" for ms
    by (auto simp: seal_def open_tree_def mount_setattr_fd_def mount_setattr_def
        split: option.splits intro!: loop_free_try)
  moreover have "loop_free (mask_path root p)" "loop_free (make_readonly root p)" for root p
    by (auto simp: mask_path_def make_readonly_def Let_def intro!: loop_free_try)
  ultimately have "loop_free (populate req root)" for root
    unfolding populate_def by (auto simp: mutate_def split: Mutation.splits)
  moreover have "loop_free (stage_root a b c)" for a b c
    unfolding stage_root_def by auto
  ultimately have "loop_free (assemble_root req)"
    using \<open>loop_free (create_identity req)\<close> unfolding assemble_root_def by (auto simp: Let_def split: option.splits)
  then show ?thesis unfolding pivot_fs_def pivot_def by auto
qed

lemma loop_free_console [simp]: "loop_free (setup_console uid)"
proof -
  have "loop_free (find_tty fds)" for fds by (induction fds) auto
  moreover have "loop_free console_stub" "loop_free (chown_console fd u)" for fd u
    by (auto simp: console_stub_def chown_console_def)
  ultimately show ?thesis unfolding setup_console_def by (auto split: option.splits)
qed

lemma loop_free_prep [simp]: "loop_free (preexec_prep exec caps)"
proof -
  have "loop_free set_keep_caps" by (auto simp: set_keep_caps_def)
  moreover have "loop_free (apply_gid_uid g u sg)" for g u sg
    by (auto simp: apply_gid_uid_def split: option.splits)
  moreover have "loop_free get_caps" "loop_free (names_as_bits ns)" "loop_free (set_caps cs)" for ns cs
    by (auto simp: get_caps_def get_pid_def capget_def names_as_bits_def set_caps_def capset_def)
  moreover have "loop_free (prctl_check m c)" for m c by (simp add: prctl_check_def)
  ultimately show ?thesis
    unfolding preexec_prep_def apply_capabilities_def by (auto simp: Let_def split: option.splits)
qed

lemma loop_free_execute [simp]: "loop_free (execute exec)"
proof -
  have "loop_free (confine exec)"
    by (auto simp: confine_def set_no_new_privs_def install_def change_onexec_def reset_sigpipe_def
        set_signal_def Let_def split: option.splits)
  then show ?thesis by (auto simp: execute_cases split: option.splits)
qed

lemma loop_free_child: "loop_free (child_side req pe ce)"
proof -
  have "loop_free reset_child_signal_handlers"
    by (auto simp: reset_child_signal_handlers_def set_signal_def)
  then have "loop_free (child_before req)"
    unfolding child_before_def maybe_pivot_def unshare_def by auto
  moreover have "loop_free (child_after req)"
    unfolding child_after_def maybe_pivot_def set_oom_score_def by (auto split: option.splits)
  ultimately show ?thesis unfolding child_side_def by auto
qed

section \<open>The supervisor\<close>

text \<open>The children that have been reaped.\<close>

definition reaping :: "event \<Rightarrow> bool" where
  "reaping e \<longleftrightarrow> fst e = Proc (Waitpid AnyChild True) \<and>
     (\<exists>r. snd e = Some r \<and> \<not> failed r \<and> status r \<noteq> StillAlive)"

definition reaped :: "event list \<Rightarrow> nat" where
  "reaped t = length (filter reaping t)"

lemma reaped_simps [simp]:
  "reaped [] = 0" "reaped (t @ t') = reaped t + reaped t'"
  "reaped (e # t) = (if reaping e then Suc (reaped t) else reaped t)"
  by (simp_all add: reaped_def)

lemma wp_reap_fuel:
  assumes "\<And>h' x. (x = NoFuel \<Longrightarrow> fuel \<le> reaped h') \<Longrightarrow> Q (h @ h') x"
  shows "wp (\<lambda>_ _. True) Q (reap_children fuel) h"
  using assms
proof (induction fuel arbitrary: h)
  case 0
  then show ?case using 0 [of NoFuel "[]"] by simp
next
  case (Suc fuel)
  let ?s = "Proc (Waitpid AnyChild True)"
  have "wp (\<lambda>_ _. True) Q (reap_children fuel) (h @ [(?s, Some r)])" if "\<not> failed r" "status r \<noteq> StillAlive" for r
    by (rule Suc.IH) (use Suc.prems [of _ "(?s, Some r) # h'" for h'] that in \<open>auto simp: reaping_def\<close>)
  then show ?case
    using Suc.prems [of Gone "[(?s, None)]"] Suc.prems [of "Done (Inr ())" "[(?s, Some r)]" for r]
    by (auto simp: sys_def)
qed

lemma supervise_fuel_wp:
  "wp (\<lambda>_ _. True) (\<lambda>t x. x = NoFuel \<longrightarrow> fuel \<le> reaped t) (supervise fuel req pid pe ce) []"
proof -
  let ?Q = "\<lambda>t x. x = NoFuel \<longrightarrow> fuel \<le> reaped t"
  have reap: "wp (\<lambda>_ _. True) ?Q (try_io (reap_children fuel) (\<lambda>_. Halt c)) h" for c h
    unfolding wp_try
    by (rule wp_reap_fuel) (auto simp: post_try_def post_bind_def split: outcome.splits sum.splits)
  have step: "wp (\<lambda>_ _. True) ?Q (try_io m f) h"
    if "loop_free m" "\<And>a h. wp (\<lambda>_ _. True) ?Q (f a) h" for m :: "'b io" and f h
    unfolding wp_try
    by (rule wp_loop_free [OF that(1)])
      (use that(2) in \<open>auto simp: post_try_def post_bind_def split: outcome.splits sum.splits\<close>)
  have "loop_free (prepare_userns req u)" for u
    by (auto simp: prepare_userns_def Let_def split: option.splits)
  then show ?thesis
    unfolding supervise_def store_child_pid_def wait_for_pid_def
    by (intro step reap) auto
qed

lemma loop_free_wp: "loop_free p \<Longrightarrow> wp (\<lambda>_ _. True) (\<lambda>_ x. x \<noteq> NoFuel) p h"
  by (rule wp_loop_free)

text \<open>So neither process is out of fuel.\<close>

lemma fuel_left:
  assumes "step\<^sup>*\<^sup>* (forked_duo fuel req pid pe ce) d" and "reaped (ptrace d) < fuel"
  shows "parent d \<noteq> Running OutOfFuel" "child d \<noteq> Running OutOfFuel"
proof -
  have inv: "parent_right (supervise fuel req pid pe ce) d" "child_right (child_side req pe ce) d"
    using duo_inv_reachable [OF assms(1)] by (simp_all add: duo_inv_def)
  show "parent d \<noteq> Running OutOfFuel"
  proof
    assume "parent d = Running OutOfFuel"
    with inv(1) have "after (supervise fuel req pid pe ce) (ptrace d) = Some OutOfFuel"
      by (simp add: parent_right_def)
    from wp_after [OF supervise_fuel_wp this] assms(2) show False by simp
  qed
  show "child d \<noteq> Running OutOfFuel"
  proof
    assume "child d = Running OutOfFuel"
    with inv(2) have "after (child_side req pe ce) (ctrace d) = Some OutOfFuel"
      by (simp add: child_right_def)
    from wp_after [OF loop_free_wp [OF loop_free_child] this] show False by simp
  qed
qed

lemma step_moves:
  assumes "step d d'" and "parent d \<noteq> Running OutOfFuel" and "child d \<noteq> Running OutOfFuel"
  shows "d' \<noteq> d"
  using assms by cases (auto dest: arg_cong [where f = ptrace] arg_cong [where f = ctrace] arg_cong [where f = parent]
      arg_cong [where f = child])

section \<open>Complete runs\<close>

text \<open>A complete run goes on as long as one of the two can take a step; then it stays where it is.\<close>

definition run_of :: "duo \<Rightarrow> (nat \<Rightarrow> duo) \<Rightarrow> bool" where
  "run_of d f \<longleftrightarrow> f 0 = d \<and> (\<forall>i. step (f i) (f (Suc i)) \<or> stuck (f i) \<and> f (Suc i) = f i)"

lemma run_reachable:
  assumes "run_of d f"
  shows "step\<^sup>*\<^sup>* d (f i)"
proof (induction i)
  case 0
  then show ?case using assms by (simp add: run_of_def)
next
  case (Suc i)
  have "step (f i) (f (Suc i)) \<or> f (Suc i) = f i" using assms by (auto simp: run_of_def)
  with Suc show ?case by (auto intro: rtranclp.rtrancl_into_rtrancl)
qed

lemma run_stops:
  assumes run: "run_of (forked_duo fuel req pid pe ce) f" and few: "\<And>i. reaped (ptrace (f i)) < fuel"
  shows "\<exists>i. stuck (f i)"
proof (rule ccontr)
  assume "\<nexists>i. stuck (f i)"
  with run have st: "step (f i) (f (Suc i))" for i by (auto simp: run_of_def)
  have "f (Suc i) \<noteq> f i" for i
    using step_moves [OF st] fuel_left [OF run_reachable [OF run] few] by blast
  then have "nearer (parent (f (Suc i))) (parent (f i)) \<or>
      parent (f (Suc i)) = parent (f i) \<and> nearer (child (f (Suc i))) (child (f i))" for i
    by (rule step_nearer [OF st])
  then have "(f (Suc i), f i) \<in> inv_image ({(q, p). nearer q p} <*lex*> {(q, p). nearer q p}) (\<lambda>d. (parent d, child d))"
    for i by auto
  moreover have "wf (inv_image ({(q, p). nearer q p} <*lex*> {(q, p). nearer q p}) (\<lambda>d. (parent d, child d)))"
    using wf_nearer by (intro wf_inv_image wf_lex_prod) (simp_all add: wfp_def)
  ultimately show False by (auto simp: wf_iff_no_infinite_down_chain)
qed

text \<open>A schedule that ends in a standstill is a complete run.\<close>

lemma reaped_grows: "step d d' \<Longrightarrow> reaped (ptrace d) \<le> reaped (ptrace d')"
  by (erule step_E) auto

lemma moves_run:
  assumes "moves ms d = Some d'" and "stuck d'"
  shows "\<exists>f. run_of d f \<and> (\<forall>i. reaped (ptrace (f i)) \<le> reaped (ptrace d'))"
  using assms(1)
proof (induction ms arbitrary: d)
  case Nil
  with assms(2) show ?case by (intro exI [of _ "\<lambda>_. d'"]) (simp add: run_of_def)
next
  case (Cons m ms)
  then obtain d1 where d1: "step d d1" "moves ms d1 = Some d'" by (auto split: option.splits dest: move_step)
  from Cons.IH [OF d1(2)] obtain f where f: "run_of d1 f" "\<And>i. reaped (ptrace (f i)) \<le> reaped (ptrace d')" by blast
  then have "run_of d (case_nat d f)" "reaped (ptrace d) \<le> reaped (ptrace d')"
    using d1(1) reaped_grows [OF d1(1)] f(2) [of 0] by (auto simp: run_of_def split: nat.splits)
  with f(2) show ?case by (intro exI [of _ "case_nat d f"]) (auto split: nat.splits)
qed

section \<open>Property\<close>

text \<open>C13. Every complete run of supervisor and child comes to an end, however the two are interleaved and
  whatever the replies, if the supervisor reaps fewer orphans than it has fuel (so for any finite
  number of them, with enough fuel): it reaches a standstill, and there either both have ended, the
  supervisor with the code of the child if it has released it and with 1 else; or the child has ended
  without its signal and the supervisor waits for it; or the supervisor has given up with 1 without
  releasing the child, which waits for that. The loop that reaps orphans ends by itself: it never
  goes round without having reaped one.\<close>

theorem handshake_terminates:
  assumes "run_of (forked_duo fuel req pid pe ce) f" and "pe \<noteq> ce"
    and "\<And>i. reaped (ptrace (f i)) < fuel"
  shows "\<exists>i. stuck (f i) \<and>
    ((\<exists>x y. parent (f i) = Ended x \<and> child (f i) = Ended y \<and>
        x = Some (if released ce (ptrace (f i)) then (case y of Some c \<Rightarrow> c | None \<Rightarrow> 1) else 1)) \<or>
     (\<exists>k y. parent (f i) = Running (Call (Proc (EventFdRead pe)) k) \<and> child (f i) = Ended y \<and>
        \<not> signalled pe (ctrace (f i))) \<or>
     (\<exists>k. child (f i) = Running (Call (Proc (EventFdRead ce)) k) \<and> parent (f i) = Ended (Some 1) \<and>
        \<not> released ce (ptrace (f i))))"
proof -
  obtain i where st: "stuck (f i)" using run_stops [OF assms(1,3)] by blast
  have r: "step\<^sup>*\<^sup>* (forked_duo fuel req pid pe ce) (f i)" by (rule run_reachable [OF assms(1)])
  from standstill [OF r assms(2) st] st supervisor_end [OF r] show ?thesis
    by (intro exI [of _ i]) (fastforce split: if_splits)
qed

lemma user_run_ends:
  "\<exists>d. moves (end_schedule (Some 3)) (forked_duo 1 user_request 42 3 4) = Some d \<and>
     child d = Ended (Some 3) \<and> parent d = Ended (Some 3) \<and> reaped (ptrace d) = 0"
  by (simp add: exec_schedule_def end_schedule_def forked_duo_def move_def ready_def bump_def
      numeral_eq_Suc reply0_def reported_def exit_code_def run_defs reaping_def Let_def)

theorem handshake_terminates_witness:
  "\<exists>f. run_of (forked_duo 1 user_request 42 3 4) f \<and> (\<exists>i. stuck (f i))"
proof -
  obtain d where d: "moves (end_schedule (Some 3)) (forked_duo 1 user_request 42 3 4) = Some d"
      "child d = Ended (Some 3)" "parent d = Ended (Some 3)" "reaped (ptrace d) = 0"
    using user_run_ends by blast
  then have "stuck d" by (auto simp: stuck_def elim!: step_E)
  from moves_run [OF d(1) this] d(4) obtain f where
    f: "run_of (forked_duo 1 user_request 42 3 4) f" "\<And>i. reaped (ptrace (f i)) < 1" by auto
  from handshake_terminates [OF f(1) _ f(2)] f(1) show ?thesis by auto
qed

end
