(* ===== verification/Rendezvous.thy ===== *)
theory Rendezvous
  imports Handshake
begin

text \<open>
  What the handshake of \<open>CreateRequest::wrap\<close> promises, as an abstract machine of five facts: whether the
  child has signalled, whether the supervisor has released it, whether the workload has run, and how
  each of the two has ended. Every step of the two processes in \<open>Handshake\<close> is one of its steps or does
  not touch it, so what holds of the machine holds of the code.
\<close>

section \<open>The abstract machine\<close>

record rendezvous =
  has_signalled :: bool
  is_released :: bool
  has_run :: bool
  child_end :: "int option option"
  supervisor_exit :: "int option"

definition rendezvous0 :: rendezvous where
  "rendezvous0 = \<lparr>has_signalled = False, is_released = False, has_run = False, child_end = None, supervisor_exit = None\<rparr>"

definition code_of :: "int option \<Rightarrow> int" where
  "code_of x = (case x of Some c \<Rightarrow> c | None \<Rightarrow> 1)"

inductive meet :: "rendezvous \<Rightarrow> rendezvous \<Rightarrow> bool" where
  signal: "\<not> has_signalled m \<Longrightarrow> child_end m = None \<Longrightarrow> meet m (m\<lparr>has_signalled := True\<rparr>)"
| release: "has_signalled m \<Longrightarrow> \<not> is_released m \<Longrightarrow> supervisor_exit m = None \<Longrightarrow> meet m (m\<lparr>is_released := True\<rparr>)"
| run: "is_released m \<Longrightarrow> \<not> has_run m \<Longrightarrow> child_end m = None \<Longrightarrow> meet m (m\<lparr>has_run := True\<rparr>)"
| child_fails: "\<not> has_run m \<Longrightarrow> child_end m = None \<Longrightarrow> meet m (m\<lparr>child_end := Some (Some c)\<rparr>)"
| workload_ends: "has_run m \<Longrightarrow> child_end m = None \<Longrightarrow> meet m (m\<lparr>child_end := Some x\<rparr>)"
| gives_up: "\<not> is_released m \<Longrightarrow> supervisor_exit m = None \<Longrightarrow> meet m (m\<lparr>supervisor_exit := Some 1\<rparr>)"
| reports: "is_released m \<Longrightarrow> child_end m = Some x \<Longrightarrow> supervisor_exit m = None \<Longrightarrow>
    meet m (m\<lparr>supervisor_exit := Some (code_of x)\<rparr>)"

text \<open>The facts of a pair of processes.\<close>

definition executed :: "event list \<Rightarrow> bool" where
  "executed t \<longleftrightarrow> list_ex (\<lambda>e. is_exec (fst e) \<and> snd e = None) t"

definition ended :: "proc_state \<Rightarrow> int option option" where
  "ended q = (case q of Ended x \<Rightarrow> Some x | _ \<Rightarrow> None)"

definition facts :: "int \<Rightarrow> int \<Rightarrow> duo \<Rightarrow> rendezvous" where
  "facts pe ce d =
     \<lparr>has_signalled = signalled pe (ctrace d), is_released = released ce (ptrace d), has_run = executed (ctrace d),
      child_end = ended (child d), supervisor_exit = Option.bind (ended (parent d)) (\<lambda>x. x)\<rparr>"

lemma facts_sel [simp]:
  "has_signalled (facts pe ce d) = signalled pe (ctrace d)" "is_released (facts pe ce d) = released ce (ptrace d)"
  "has_run (facts pe ce d) = executed (ctrace d)" "child_end (facts pe ce d) = ended (child d)"
  "supervisor_exit (facts pe ce d) = Option.bind (ended (parent d)) (\<lambda>x. x)"
  by (simp_all add: facts_def)

lemma executed_simps [simp]:
  "\<not> executed []" "executed (t @ t') \<longleftrightarrow> executed t \<or> executed t'" "executed (e # t) \<longleftrightarrow> is_exec (fst e) \<and> snd e = None \<or> executed t"
  by (auto simp: executed_def)

lemma ended_simps [simp]: "ended (Running p) = None" "ended Workload = None" "ended (Ended x) = Some x"
  by (simp_all add: ended_def)

lemma signalled_simps [simp]:
  "\<not> signalled pe []" "signalled pe (t @ t') \<longleftrightarrow> signalled pe t \<or> signalled pe t'"
  "signalled pe (e # t) \<longleftrightarrow> (fst e = Proc (EventFdWrite pe 2) \<and> event_ok e) \<or> signalled pe t"
  by (auto simp: signalled_def)

section \<open>How the child got where it is\<close>

text \<open>A child that is not running has executed, or has come to the end of its own program.\<close>

definition child_over :: "unit io \<Rightarrow> duo \<Rightarrow> bool" where
  "child_over c0 d \<longleftrightarrow>
     (case child d of
        Running p \<Rightarrow> after c0 (ctrace d) = Some p
      | Workload \<Rightarrow> executed (ctrace d)
      | Ended x \<Rightarrow> executed (ctrace d) \<or> (\<exists>p. after c0 (ctrace d) = Some p \<and> exit_of p \<noteq> None))"

lemma child_over_step: "child_over c0 d \<Longrightarrow> step d d' \<Longrightarrow> child_over c0 d'"
  by (erule step_E) (auto simp: child_over_def after_snoc split: proc_state.splits)

lemma child_over_reachable:
  assumes "step\<^sup>*\<^sup>* (forked_duo fuel req pid pe ce) d"
  shows "child_over (child_side req pe ce) d"
  using assms
proof induction
  case base
  show ?case by (simp add: child_over_def forked_duo_def)
qed (rule child_over_step)

lemma after_not_executed: "after p t = Some q \<Longrightarrow> \<not> executed t"
  using after_answered [of p t q] by (auto simp: executed_def list_ex_iff list_all_iff)

lemma executed_exec: "executed t \<Longrightarrow> list_ex (\<lambda>e. is_exec (fst e)) t"
  by (auto simp: executed_def list_ex_iff)

lemma released_signalled:
  assumes "step\<^sup>*\<^sup>* (forked_duo fuel req pid pe ce) d" and "pe \<noteq> ce" and "released ce (ptrace d)"
  shows "signalled pe (ctrace d)"
proof -
  have inv: "duo_inv (supervise fuel req pid pe ce) (child_side req pe ce) d"
    by (rule duo_inv_reachable [OF assms(1)])
  then have pt: "possible (supervise fuel req pid pe ce) (ptrace d)" and ct: "possible (child_side req pe ce) (ctrace d)"
    and cnt: "counters d pe + taken pe (ptrace d) + taken pe (ctrace d) = given pe (ptrace d) + given pe (ctrace d)"
    by (auto simp: duo_inv_def child_right_def counts_right_def dest: parent_possible)
  have "released ce (syncs (ptrace d))" using assms(3) by (simp add: released_syncs)
  with pt have "0 < taken pe (syncs (ptrace d))"
    by (auto elim!: parent_sync_cases simp: sums)
  then have "0 < given pe (ctrace d)"
    using cnt parent_sums(2) [OF pt assms(2)] by (simp add: taken_syncs)
  then show ?thesis using given_child [OF ct] by (auto split: if_splits)
qed

section \<open>Refinement\<close>

lemma supervisor_end_meets:
  assumes reach: "step\<^sup>*\<^sup>* (forked_duo fuel req pid pe ce) d'"
    and ends: "parent d = Running p" "d' = d\<lparr>parent := Ended (Some c)\<rparr>"
  shows "meet (facts pe ce d) (facts pe ce d')"
proof -
  note fin = supervisor_end [OF reach]
  show ?thesis
  proof (cases "released ce (ptrace d)")
    case True
    with ends fin [of "Some c"] obtain x where "child d = Ended x" "c = code_of x"
      by (auto simp: code_of_def)
    with True ends have "facts pe ce d' = (facts pe ce d)\<lparr>supervisor_exit := Some (code_of x)\<rparr>"
      "child_end (facts pe ce d) = Some x" by (auto simp: facts_def)
    with True ends show ?thesis by (auto intro!: meet.reports)
  next
    case False
    with ends fin [of "Some c"] have "facts pe ce d' = (facts pe ce d)\<lparr>supervisor_exit := Some 1\<rparr>"
      by (auto simp: facts_def)
    with False ends show ?thesis by (auto intro!: meet.gives_up)
  qed
qed

lemma step_meets:
  assumes reach: "step\<^sup>*\<^sup>* (forked_duo fuel req pid pe ce) d" and "pe \<noteq> ce" and st: "step d d'"
  shows "facts pe ce d' = facts pe ce d \<or> meet (facts pe ce d) (facts pe ce d')"
proof -
  have reach': "step\<^sup>*\<^sup>* (forked_duo fuel req pid pe ce) d'"
    using reach st by (rule rtranclp.rtrancl_into_rtrancl)
  have over: "child_over (child_side req pe ce) d" by (rule child_over_reachable [OF reach])
  note sig = released_signalled [OF reach' assms(2)]
  from st show ?thesis
  proof cases
    case (parent_call s k r)
    show ?thesis
    proof (cases "released ce (ptrace d') \<and> \<not> released ce (ptrace d)")
      case True
      with parent_call sig have "facts pe ce d' = (facts pe ce d)\<lparr>is_released := True\<rparr>" "signalled pe (ctrace d)"
        by (auto simp: facts_def)
      with True parent_call show ?thesis by (auto intro!: meet.release)
    qed (use parent_call in \<open>auto simp: facts_def\<close>)
  next
    case (parent_ends p c)
    with supervisor_end_meets [OF reach'] show ?thesis by blast
  next
    case (child_call s k r)
    show ?thesis
    proof (cases "signalled pe (ctrace d') \<and> \<not> signalled pe (ctrace d)")
      case True
      with child_call have "facts pe ce d' = (facts pe ce d)\<lparr>has_signalled := True\<rparr>" by (auto simp: facts_def)
      with True child_call show ?thesis by (auto intro!: meet.signal)
    qed (use child_call in \<open>auto simp: facts_def\<close>)
  next
    case (child_execs s k)
    then have "released ce (ptrace d)"
      using exec_released [OF reach' assms(2)] by (auto simp: event_ok_def)
    moreover have "\<not> executed (ctrace d)"
      using over child_execs by (auto simp: child_over_def dest: after_not_executed)
    moreover have "facts pe ce d' = (facts pe ce d)\<lparr>has_run := True\<rparr>"
      using child_execs by (auto simp: facts_def event_ok_def)
    ultimately show ?thesis using child_execs(2) by (auto intro!: meet.run)
  next
    case (child_ends p c)
    then have "\<not> executed (ctrace d)" using over by (auto simp: child_over_def dest: after_not_executed)
    moreover have "facts pe ce d' = (facts pe ce d)\<lparr>child_end := Some (Some c)\<rparr>"
      using child_ends by (auto simp: facts_def)
    ultimately show ?thesis using child_ends(2) by (auto intro!: meet.child_fails)
  next
    case (workload_ends x)
    then have "executed (ctrace d)" using over by (auto simp: child_over_def)
    moreover have "facts pe ce d' = (facts pe ce d)\<lparr>child_end := Some x\<rparr>"
      using workload_ends by (auto simp: facts_def)
    ultimately show ?thesis using workload_ends(2) by (auto intro!: meet.workload_ends)
  qed simp_all
qed

section \<open>A child that is not released\<close>

lemma after_try:
  "after (try_io m f) t = Some q \<Longrightarrow>
     (\<exists>m'. after m t = Some m' \<and> q = try_io m' f) \<or>
     (\<exists>t1 a t2. t = t1 @ t2 \<and> after m t1 = Some (Ret (Inr a)) \<and> after (f a) t2 = Some q)"
proof (induction m arbitrary: t rule: prog_induct)
  case (Ret x)
  show ?case
  proof (cases x)
    case (Inr a)
    with Ret show ?thesis by (intro disjI2 exI [of _ "[]"] exI [of _ a] exI [of _ t]) simp
  next
    case (Inl e)
    with Ret show ?thesis by (cases t) simp_all
  qed
next
  case (Call s k)
  show ?case
  proof (cases t)
    case (Cons e t')
    with Call.prems obtain r where e: "e = (s, Some r)" "after (try_io (k r) f) t' = Some q"
      by (auto simp: after_Call_Cons)
    from Call.IH [OF e(2)] show ?thesis
    proof (elim disjE exE conjE)
      fix t1 a t2 assume "t' = t1 @ t2" "after (k r) t1 = Some (Ret (Inr a))" "after (f a) t2 = Some q"
      with e Cons show ?thesis
        by (intro disjI2 exI [of _ "e # t1"] exI [of _ a] exI [of _ t2]) simp
    next
      fix m' assume "after (k r) t' = Some m'" "q = try_io m' f"
      with e Cons show ?thesis by simp
    qed
  next
    case Nil
    with Call.prems show ?thesis by simp
  qed
next
  case (Halt c)
  then show ?case by (cases t) simp_all
next
  case OutOfFuel
  then show ?case by (cases t) simp_all
qed

lemma quiet_after: "only_calls (\<lambda>s. \<not> is_sync s) p \<Longrightarrow> after p t = Some q \<Longrightarrow> syncs t = []"
  by (induction p t rule: after.induct) (auto split: if_splits)

lemma child_at_read:
  assumes "after (child_side req pe ce) t = Some q" and "signalled pe t" and "taken ce t = 0"
  shows "\<exists>k. q = Call (Proc (EventFdRead ce)) k"
proof -
  have no: "\<not> signalled pe t1" if "after (child_before req) t1 = Some m" for t1 m
    using quiet_after [OF no_sync_before that] signalled_syncs [of pe t1] by simp
  from after_try [OF assms(1) [unfolded child_side_def]] no assms(2)
  obtain t1 a t2 where t: "t = t1 @ t2" "after (child_before req) t1 = Some (Ret (Inr a))"
      "after (try_io (sys_unit (Proc (EventFdWrite pe 2))) (\<lambda>_. try_io (sys_unit (Proc (EventFdRead ce)))
         (\<lambda>_. try_io (child_after req) (\<lambda>_. execute (cr_exec req))))) t2 = Some q"
    by blast
  have "signalled pe t2" using assms(2) no [OF t(2)] t(1) by simp
  then obtain r t3 where t2: "t2 = (Proc (EventFdWrite pe 2), Some r) # t3"
      "after (try_io (if failed r then fail (OsError (errno r)) else ok ()) (\<lambda>_. try_io (sys_unit (Proc (EventFdRead ce)))
         (\<lambda>_. try_io (child_after req) (\<lambda>_. execute (cr_exec req))))) t3 = Some q"
    using t(3) by (cases t2) (auto simp: sys_unit_def after_Call_Cons)
  show ?thesis
  proof (cases t3)
    case Nil
    with t2 \<open>signalled pe t2\<close> show ?thesis by (auto simp: sys_unit_def event_ok_def)
  next
    case (Cons e t4)
    with t2(2) obtain r' where "e = (Proc (EventFdRead ce), Some r')"
      by (auto simp: sys_unit_def after_Call_Cons split: if_splits)
    with assms(3) t(1) t2(1) Cons show ?thesis by (simp add: taken_def taken1_def)
  qed
qed

lemma executed_calls:
  assumes "possible (child_side req pe ce) t" and "taken ce t = 0" and "pe \<noteq> ce"
  shows "\<not> executed t"
proof -
  have "taken ce (syncs t) = 0" using assms(2) by (simp add: taken_syncs)
  with assms(1) have "\<not> list_ex (\<lambda>e. is_exec (fst e)) (syncs t)"
    by (auto elim!: child_sync_cases simp: sums is_exec_def)
  then show ?thesis using exec_sync by (fastforce simp: executed_def list_ex_iff syncs_def)
qed

lemma unreleased_child:
  assumes reach: "step\<^sup>*\<^sup>* (forked_duo fuel req pid pe ce) d" and "pe \<noteq> ce"
    and "\<not> released ce (ptrace d)" and "signalled pe (ctrace d)"
  shows "\<exists>k. child d = Running (Call (Proc (EventFdRead ce)) k)" and "counters d ce = 0"
proof -
  have inv: "duo_inv (supervise fuel req pid pe ce) (child_side req pe ce) d"
    by (rule duo_inv_reachable [OF reach])
  then have pt: "possible (supervise fuel req pid pe ce) (ptrace d)" and ct: "possible (child_side req pe ce) (ctrace d)"
    and cnt: "counters d ce + taken ce (ptrace d) + taken ce (ctrace d) = given ce (ptrace d) + given ce (ctrace d)"
    by (auto simp: duo_inv_def child_right_def counts_right_def dest: parent_possible)
  have zero: "counters d ce = 0 \<and> taken ce (ctrace d) = 0"
    using cnt given_parent [OF pt] child_sums(2) [OF ct assms(2)] assms(3) by simp
  then have none: "\<not> executed (ctrace d)" using executed_calls [OF ct _ assms(2)] by simp
  have over: "child_over (child_side req pe ce) d" by (rule child_over_reachable [OF reach])
  show "counters d ce = 0" using zero by simp
  show "\<exists>k. child d = Running (Call (Proc (EventFdRead ce)) k)"
  proof (cases "child d")
    case (Running q)
    with over child_at_read [of req pe ce "ctrace d" q] zero assms(4) show ?thesis
      by (auto simp: child_over_def)
  next
    case (Ended x)
    with over none obtain q where "after (child_side req pe ce) (ctrace d) = Some q" "exit_of q \<noteq> None"
      by (auto simp: child_over_def)
    with child_at_read [of req pe ce "ctrace d" q] zero assms(4) show ?thesis by auto
  qed (use over none in \<open>simp add: child_over_def\<close>)
qed

section \<open>Properties\<close>

text \<open>What the abstract machine promises.\<close>

lemma meet_promises:
  assumes "meet\<^sup>*\<^sup>* rendezvous0 m"
  shows "(has_run m \<longrightarrow> is_released m) \<and> (is_released m \<longrightarrow> has_signalled m) \<and>
    (\<forall>c. supervisor_exit m = Some c \<longrightarrow>
       (if is_released m then \<exists>x. child_end m = Some x \<and> c = code_of x else c = 1 \<and> \<not> has_run m))"
  using assms by induction (auto simp: rendezvous0_def elim!: meet.cases)

text \<open>C7. The two processes of a create request implement a rendezvous. Of every reachable state of the two
  keep five facts: the child has signalled; the supervisor has released it; the workload was executed;
  how the child has ended; with which code the supervisor has exited. Then every step of either process,
  in any interleaving and with any replies, leaves the facts alone or is a step of the abstract machine
  \<open>meet\<close>: signal; release, only after the signal; run, only after the release; the end of the child or of
  the workload; the supervisor's exit with 1 when it has not released the child, and with the code of
  the child, after its end, when it has.\<close>

theorem handshake_refines:
  assumes "step\<^sup>*\<^sup>* (forked_duo fuel req pid pe ce) d" and "pe \<noteq> ce"
  shows "meet\<^sup>*\<^sup>* rendezvous0 (facts pe ce d) \<and>
    (step d d' \<longrightarrow> facts pe ce d' = facts pe ce d \<or> meet (facts pe ce d) (facts pe ce d'))"
proof -
  have "meet\<^sup>*\<^sup>* rendezvous0 (facts pe ce d)"
    using assms(1)
  proof induction
    case base
    show ?case by (simp add: facts_def forked_duo_def rendezvous0_def)
  next
    case (step d d')
    from step_meets [OF step(1) assms(2) step(2)] step(3) show ?case by auto
  qed
  then show ?thesis using step_meets [OF assms] by blast
qed

text \<open>The whole life of a workload that exits with 3, fact by fact.\<close>

theorem handshake_refines_witness:
  "\<exists>d. moves (end_schedule (Some 3)) (forked_duo 1 user_request 42 3 4) = Some d \<and>
     meet\<^sup>*\<^sup>* rendezvous0 (facts 3 4 d) \<and> supervisor_exit (facts 3 4 d) = Some 3"
proof -
  obtain d where d: "moves (end_schedule (Some 3)) (forked_duo 1 user_request 42 3 4) = Some d"
      "parent d = Ended (Some 3)"
    using user_run(2) [of "Some 3"] by auto
  with handshake_refines [OF moves_steps [OF d(1)], of d] show ?thesis by auto
qed

text \<open>C12. A supervisor that ends without having released a child that has signalled leaves it blocked for
  ever: its exit code is 1, the child stands at its read of the event counter, and no step of either
  process is possible any more. \<open>wrap\<close> ends in this way whenever a write of \<open>prepare_userns\<close> fails.\<close>

theorem unreleased_child_blocks:
  assumes "step\<^sup>*\<^sup>* (forked_duo fuel req pid pe ce) d" and "pe \<noteq> ce"
    and "parent d = Ended y" and "\<not> released ce (ptrace d)" and "signalled pe (ctrace d)"
  shows "y = Some 1 \<and> (\<exists>k. child d = Running (Call (Proc (EventFdRead ce)) k)) \<and> \<not> (\<exists>d'. step d d')"
proof -
  obtain k where k: "child d = Running (Call (Proc (EventFdRead ce)) k)"
    using unreleased_child(1) [OF assms(1,2,4,5)] by blast
  then have "\<not> step d d'" for d'
    using unreleased_child(2) [OF assms(1,2,4,5)] assms(3)
    by (auto simp: ready_def is_exec_def elim!: step_E)
  with k supervisor_end [OF assms(1,3)] assms(4) show ?thesis by auto
qed

text \<open>The id map cannot be written.\<close>

definition unmapped_schedule :: "move list" where
  "unmapped_schedule = replicate 8 (ChildMove reply0) @ replicate 2 (ParentMove reply0) @
     [ParentMove (reply0\<lparr>rc := -1\<rparr>), ParentEnd]"

theorem unreleased_child_blocks_witness:
  "\<exists>d. moves unmapped_schedule (forked_duo 1 user_request 42 3 4) = Some d \<and> parent d = Ended (Some 1) \<and>
     (\<exists>k. child d = Running (Call (Proc (EventFdRead 4)) k)) \<and> \<not> (\<exists>d'. step d d')"
proof -
  have "\<exists>d. moves unmapped_schedule (forked_duo 1 user_request 42 3 4) = Some d \<and> parent d = Ended (Some 1) \<and>
      \<not> released 4 (ptrace d) \<and> signalled 3 (ctrace d)"
    by (simp add: unmapped_schedule_def forked_duo_def move_def ready_def bump_def numeral_eq_Suc reply0_def
        run_defs Let_def event_ok_def split: option.splits)
  then obtain d where d: "moves unmapped_schedule (forked_duo 1 user_request 42 3 4) = Some d"
      "parent d = Ended (Some 1)" "\<not> released 4 (ptrace d)" "signalled 3 (ctrace d)" by blast
  with unreleased_child_blocks [OF moves_steps [OF d(1)] _ d(2-4)] show ?thesis by auto
qed

end
