(* ===== verification/Requests.thy ===== *)
theory Requests
  imports AttachReq Runner
begin

text \<open>
  The interface \<open>Wrappable\<close> of \<open>src/config.rs\<close>: what the two requests promise of their \<open>wrap\<close>, proved once
  for the interface, and what follows for the program \<open>styrolite\<close>, which calls \<open>wrap\<close> on whichever request
  it has read.
\<close>

section \<open>The interface\<close>

text \<open>The execution of a workload: the last call, with the program, the arguments and the environment of
  the specification, after a successful \<open>preexec_prep\<close> and, at the very end, its confinement.\<close>

definition executes_configured ::
  "'w kernel \<Rightarrow> ExecutableSpec \<Rightarrow> Capabilities option \<Rightarrow> event list \<Rightarrow> syscall \<Rightarrow> event list \<Rightarrow> bool" where
  "executes_configured K exec caps pre s post \<longleftrightarrow>
     post = [] \<and>
     (\<exists>prog. executable exec = Some prog \<and> s = Proc (Execvpe prog (prog # exec_args exec) (exec_env exec))) \<and>
     (\<exists>a prep c w1 w2. pre = a @ prep @ c \<and> succeeds K w1 (preexec_prep exec caps) prep () w2 \<and> confined exec c)"

locale wrappable =
  fixes K :: "'w kernel"
    and wrap :: "nat \<Rightarrow> 'r \<Rightarrow> unit io"
    and exec_of :: "'r \<Rightarrow> ExecutableSpec"
    and caps_of :: "'r \<Rightarrow> Capabilities option"
  assumes wrap_executes: "trace K w (wrap fuel req) = pre @ (s, x) # post \<Longrightarrow> is_exec s \<Longrightarrow>
    executes_configured K (exec_of req) (caps_of req) pre s post"
begin

lemma one_execution:
  "length (filter (\<lambda>e. is_exec (fst e)) (trace K w (wrap fuel req))) \<le> 1"
proof (cases "\<exists>e \<in> set (trace K w (wrap fuel req)). is_exec (fst e)")
  case True
  from split_list_first_prop [OF this] obtain pre e post where
    e: "trace K w (wrap fuel req) = pre @ e # post" "is_exec (fst e)" "\<forall>y \<in> set pre. \<not> is_exec (fst y)" by blast
  then have "post = []"
    using wrap_executes [of w fuel req pre "fst e" "snd e" post] by (simp add: executes_configured_def)
  with e show ?thesis by simp
next
  case False
  then have "filter (\<lambda>e. is_exec (fst e)) (trace K w (wrap fuel req)) = []"
    by (auto simp: filter_empty_conv)
  then show ?thesis by simp
qed

lemma nothing_without_executable:
  assumes "executable (exec_of req) = None"
  shows "list_all (\<lambda>e. \<not> is_exec (fst e)) (trace K w (wrap fuel req))"
proof (rule ccontr)
  assume "\<not> ?thesis"
  then obtain e where "e \<in> set (trace K w (wrap fuel req))" "is_exec (fst e)"
    by (auto simp: list_all_iff)
  then obtain pre post where "trace K w (wrap fuel req) = pre @ (fst e, snd e) # post"
    by (auto dest: split_list)
  from wrap_executes [OF this \<open>is_exec (fst e)\<close>] assms show False by (simp add: executes_configured_def)
qed

lemma filter_installed:
  assumes "trace K w (wrap fuel req) = pre @ (s, x) # post" and "is_exec s" and "seccomp (exec_of req) = Some flt"
  shows "no_new_privs (exec_of req)"
    and "\<exists>r. (Cred (SeccompSetFilter 1 1 (sock_fprog_len flt) (instructions flt)), Some r) \<in> set pre \<and> rc r = 0"
proof -
  from wrap_executes [OF assms(1,2)] obtain a c where pre: "pre = a @ c" and c: "confined (exec_of req) c"
    unfolding executes_configured_def by (metis append_assoc)
  from c obtain wd nnp sec app sig where "c = wd @ nnp @ sec @ app @ sig"
    "calls sec = [Cred (SeccompSetFilter 1 1 (sock_fprog_len flt) (instructions flt))]" "list_all event_zero sec"
    and nnp: "no_new_privs (exec_of req)"
    unfolding confined_def using assms(3) by auto
  then show "\<exists>r. (Cred (SeccompSetFilter 1 1 (sock_fprog_len flt) (instructions flt)), Some r) \<in> set pre \<and> rc r = 0"
    using pre by (auto simp: calls_def event_zero_def split: option.splits)
  show "no_new_privs (exec_of req)" by (rule nnp)
qed

end

section \<open>The two requests\<close>

lemma is_exec_iff: "is_exec s \<longleftrightarrow> (\<exists>p a e. s = Proc (Execvpe p a e))"
  by (auto simp: is_exec_def split: syscall.splits proc_call.splits)

interpretation create: wrappable K create_wrap cr_exec cr_capabilities for K :: "'w kernel"
proof
  fix w fuel req pre s x post
  assume "trace K w (create_wrap fuel req) = pre @ (s, x) # post" "is_exec s"
  then obtain p a e where s: "s = Proc (Execvpe p a e)"
    and t: "trace K w (create_wrap fuel req) = pre @ (Proc (Execvpe p a e), x) # post" by (auto simp: is_exec_iff)
  obtain b r1 r2 r3 pre' w' where
    pre: "pre = b @ [(Proc (EventFdNew 0 True), Some r1), (Proc (EventFdNew 0 True), Some r2), (Proc Fork, Some r3)] @ pre'"
    and child: "trace K w' (child_side req (rc r1) (rc r2)) = pre' @ (Proc (Execvpe p a e), x) # post"
    using wrap_reaches_exec [OF t, where ns = User] by (elim exE conjE) (rule that)
  from child_reaches_exec [OF child] obtain t1 q1 q2 t2 t3 where c: "post = []" "executable (cr_exec req) = Some p"
    "a = p # exec_args (cr_exec req)" "e = exec_env (cr_exec req)" "after_done K req t2" "confined (cr_exec req) t3"
    "pre' = t1 @ [(Proc (EventFdWrite (rc r1) 2), Some q1), (Proc (EventFdRead (rc r2)), Some q2)] @ t2 @ t3"
    by (elim exE conjE) (rule that)
  then obtain front prep w2 w3 where "t2 = front @ prep"
    "succeeds K w2 (preexec_prep (cr_exec req) (cr_capabilities req)) prep () w3"
    unfolding after_done_def by (metis append_assoc)
  moreover have "pre = (b @ [(Proc (EventFdNew 0 True), Some r1), (Proc (EventFdNew 0 True), Some r2),
      (Proc Fork, Some r3)] @ t1 @ [(Proc (EventFdWrite (rc r1) 2), Some q1),
      (Proc (EventFdRead (rc r2)), Some q2)] @ front) @ prep @ t3"
    using pre c(7) \<open>t2 = front @ prep\<close> by simp
  ultimately show "executes_configured K (cr_exec req) (cr_capabilities req) pre s post"
    unfolding executes_configured_def using s c(1-4,6) by blast
qed

interpretation attach: wrappable K attach_wrap ar_exec ar_capabilities for K :: "'w kernel"
proof
  fix w fuel req pre s x post
  assume "trace K w (attach_wrap fuel req) = pre @ (s, x) # post" "is_exec s"
  then obtain p a e where s: "s = Proc (Execvpe p a e)"
    and t: "trace K w (attach_wrap fuel req) = pre @ (Proc (Execvpe p a e), x) # post" by (auto simp: is_exec_iff)
  from attach_reaches_exec [OF t] have at: "post = []" "executable (ar_exec req) = Some p"
    "a = p # exec_args (ar_exec req)" "e = exec_env (ar_exec req)" "attached K req pre" by auto
  then obtain front prep conf w3 w4 where "pre = front @ prep @ conf"
    "succeeds K w3 (preexec_prep (ar_exec req) (ar_capabilities req)) prep () w4" "confined (ar_exec req) conf"
    unfolding attached_def by (metis append_assoc)
  with s at show "executes_configured K (ar_exec req) (ar_capabilities req) pre s post"
    unfolding executes_configured_def by blast
qed

section \<open>The program\<close>

definition config_exec :: "Config \<Rightarrow> ExecutableSpec" where
  "config_exec conf = (case conf of Create req \<Rightarrow> cr_exec req | Attach req \<Rightarrow> ar_exec req)"

definition config_caps :: "Config \<Rightarrow> Capabilities option" where
  "config_caps conf = (case conf of Create req \<Rightarrow> cr_capabilities req | Attach req \<Rightarrow> ar_capabilities req)"

lemma wrap_config:
  assumes "trace K w (case conf of Create req \<Rightarrow> create_wrap fuel req | Attach req \<Rightarrow> attach_wrap fuel req) =
      pre @ (s, x) # post" and "is_exec s"
  shows "executes_configured K (config_exec conf) (config_caps conf) pre s post"
  using assms create.wrap_executes [of K w fuel _ pre s x post] attach.wrap_executes [of K w fuel _ pre s x post]
  by (cases conf) (simp_all add: config_exec_def config_caps_def)

lemma executes_after:
  "executes_configured K exec caps pre s post \<Longrightarrow> executes_configured K exec caps (t @ pre) s post"
  unfolding executes_configured_def by (metis append_assoc)

text \<open>C17. Whatever the program \<open>styrolite\<close> executes, for a create or an attach request, with any kernel and
  any decoder: it is the last call of the run, and it is the program, with the arguments and the
  environment, of the configuration that was read from the given file; before it \<open>preexec_prep\<close> has
  succeeded with the specification and the capabilities of that configuration; and its working
  directory, \<open>no_new_privs\<close>, seccomp filter, AppArmor profile and \<open>SIGPIPE\<close> were set last, with success.
  Without an executable in the configuration nothing is executed.\<close>

theorem styrolite_executes_configured:
  assumes "trace K w (styrolite_main fuel dec [p, path]) = pre @ (Proc (Execvpe prog args env), x) # post"
  shows "\<exists>r conf. (Fs (ReadFile path), Some r) \<in> set pre \<and> dec (contents r) = Inr conf \<and>
    executes_configured K (config_exec conf) (config_caps conf) pre (Proc (Execvpe prog args env)) post"
proof -
  obtain r1 r2 conf w' pre' where m: "pre = [(Fs (PathExists path), Some r1), (Fs (ReadFile path), Some r2)] @ pre'"
    "dec (contents r2) = Inr conf"
    "trace K w' (case conf of Create req \<Rightarrow> create_wrap fuel req | Attach req \<Rightarrow> attach_wrap fuel req) =
      pre' @ (Proc (Execvpe prog args env), x) # post"
    by (rule main_reaches_exec [OF assms]) (simp, rule that)
  have "executes_configured K (config_exec conf) (config_caps conf) pre (Proc (Execvpe prog args env)) post"
    unfolding m(1) by (rule executes_after [OF wrap_config [OF m(3)]]) simp
  with m(1,2) show ?thesis by (intro exI [of _ r2] exI [of _ conf]) simp
qed

text \<open>Attaching to the container of \<open>attach_kernel\<close>.\<close>

theorem styrolite_executes_configured_witness:
  "\<exists>pre. trace attach_kernel () (styrolite_main 1 (\<lambda>_. Inr (Attach shell_request)) [''styrolite'', ''c.json'']) =
       pre @ [(Proc (Execvpe ''httpd'' [''httpd'', ''-f''] [''A=1'']), None)] \<and>
     executes_configured attach_kernel web_exec None pre (Proc (Execvpe ''httpd'' [''httpd'', ''-f''] [''A=1''])) []"
proof -
  let ?T = "trace attach_kernel () (styrolite_main 1 (\<lambda>_. Inr (Attach shell_request)) [''styrolite'', ''c.json''])"
  let ?e = "(Proc (Execvpe ''httpd'' [''httpd'', ''-f''] [''A=1'']), None)"
  have "last ?T = ?e \<and> ?T \<noteq> []"
    by (simp add: styrolite_main_def attach_wrap_def first_child_pid_of_def shell_request_numbers attach_kernel_eq
        attach_cgroup_def attach_identity_def identity_of_def get_pid_def CGroup_open_def
        set_child_value_def setns_def pidfd_open_def set_process_limits_def fork_and_wait_def
        setup_parent_signal_handlers_def child_defs reply0_def Let_def del: parse_i32.simps)
  then obtain pre where pre: "?T = pre @ ?e # []" by (metis append_butlast_last_id)
  from styrolite_executes_configured [OF pre] pre show ?thesis
    by (auto simp: config_exec_def config_caps_def)
qed

end
