(* ===== verification/SignalFlow.thy ===== *)
theory SignalFlow
  imports CreateWrap
begin

text \<open>
  What becomes of a signal sent to a create request, by the moment at which it arrives: the dispositions
  and the static \<open>CHILD_PID\<close> of \<open>src/signal.rs\<close>, as the calls of \<open>CreateRequest::wrap\<close> leave them, at the
  fork, while the supervisor waits for the child, and when the workload is executed.
\<close>

section \<open>Calls that leave the signal state alone\<close>

definition touches_signals :: "syscall \<Rightarrow> bool" where
  "touches_signals s = (case s of Proc p \<Rightarrow> (case p of SetSignal sig d \<Rightarrow> True | StoreChildPid pid \<Rightarrow> True | _ \<Rightarrow> False)
     | _ \<Rightarrow> False)"

text \<open>The three moments: the fork, the wait for the child, the execution.\<close>

definition milestone :: "syscall \<Rightarrow> bool" where
  "milestone s = (case s of Proc p \<Rightarrow> (case p of Fork \<Rightarrow> True | Waitpid (ChildPid pid) b \<Rightarrow> True | Execvpe a b c \<Rightarrow> True
     | _ \<Rightarrow> False) | _ \<Rightarrow> False)"

definition quiet :: "syscall \<Rightarrow> bool" where
  "quiet s \<longleftrightarrow> \<not> touches_signals s \<and> \<not> milestone s"

lemmas quiet_defs = quiet_def touches_signals_def milestone_def

lemma quiet_simps [simp]:
  "quiet (Fs f)" "quiet (Mnt m)" "quiet (Ns n)" "quiet (Sys y)" "quiet (Cred c)" "quiet (Proc (EventFdNew u b))"
  "quiet (Proc (EventFdRead fd))" "quiet (Proc (EventFdWrite fd n'))" "quiet (Proc (Waitpid AnyChild b))"
  "milestone (Proc Fork)" "milestone (Proc (Execvpe a b' c'))" "milestone (Proc (Waitpid (ChildPid pid) b))"
  "\<not> milestone (Proc (StoreChildPid pid))"
  by (simp_all add: quiet_defs)

lemma quiet_not_milestone: "quiet s \<Longrightarrow> \<not> milestone s"
  by (simp add: quiet_def)

lemma quiet_plain: "plain_call s \<Longrightarrow> quiet s"
  by (auto simp: plain_call_def quiet_defs split: syscall.splits)

lemma quiet_prep: "prep_call s \<Longrightarrow> quiet s"
  by (auto simp: prep_call_def quiet_defs split: syscall.splits)

lemma sig_run_append [simp]: "sig_run s (t @ t') = sig_run (sig_run s t) t'"
  by (simp add: sig_run_def)

lemma sig_run_quiet: "list_all (\<lambda>e. \<not> touches_signals (fst e)) t \<Longrightarrow> sig_run s t = s"
proof (induction t)
  case (Cons e t)
  then have "sig_step s e = s"
    by (cases "(s, e)" rule: sig_step.cases) (auto simp: touches_signals_def)
  with Cons show ?case by simp
qed simp

lemma quiet_run: "only_calls quiet p \<Longrightarrow> sig_run s (trace K w p) = s"
  using only_calls_trace [of quiet p] by (intro sig_run_quiet) (fastforce simp: list_all_iff quiet_def)

text \<open>A milestone after a quiet program, and after one that sets signals.\<close>

lemma quiet_reached:
  assumes "trace K w (try_io m f) = pre @ (s, x) # post" and "milestone s" and "only_calls quiet m"
  obtains a w1 pre' where "succeeds K w m (trace K w m) a w1" "sig_run sg pre = sig_run sg pre'"
    "trace K w1 (f a) = pre' @ (s, x) # post"
proof -
  have no: "only_calls (\<lambda>s. \<not> milestone s) m"
    using assms(3) by (rule only_calls_mono) (rule quiet_not_milestone)
  from try_reached [OF assms(1,2) no] obtain a w1 pre' where "succeeds K w m (trace K w m) a w1"
    "pre = trace K w m @ pre'" "trace K w1 (f a) = pre' @ (s, x) # post" by blast
  moreover from this(2) have "sig_run sg pre = sig_run sg pre'" by (simp add: quiet_run [OF assms(3)])
  ultimately show thesis by (intro that)
qed

lemma signals_reached:
  assumes "trace K w (try_io (exit_on_err (for_io (set_signal msg d) sigs)) f) = pre @ (s, x) # post" and "milestone s"
  obtains w1 pre' where
    "sig_run sg pre = sig_run (sg\<lparr>disp := (\<lambda>sig. if sig \<in> set sigs then d else disp sg sig)\<rparr>) pre'"
    "trace K w1 (f ()) = pre' @ (s, x) # post"
proof -
  let ?m = "for_io (set_signal msg d) sigs"
  have "only_calls (\<lambda>s. \<not> milestone s) ?m"
    by (auto simp: set_signal_def milestone_def intro!: only_calls_for only_calls_map_err)
  then have no: "only_calls (\<lambda>s. \<not> milestone s) (exit_on_err ?m)"
    by (auto simp: exit_on_err_def split: sum.splits intro!: only_calls_bind)
  from try_reached [OF assms(1,2) no] obtain w1 pre' where
    m: "succeeds K w (exit_on_err ?m) (trace K w (exit_on_err ?m)) () w1"
    "pre = trace K w (exit_on_err ?m) @ pre'" "trace K w1 (f ()) = pre' @ (s, x) # post" by (metis old.unit.exhaust)
  from succeeds_trace [OF succeeds_exit_on_err [OF m(1)]]
  have "trace K w ?m = trace K w (exit_on_err ?m)" "outcome_of K w ?m = Done (Inr ())" by simp_all
  with set_signals_run [of K w msg d sigs sg] m that show thesis by simp
qed

lemma quiet_nowhere:
  assumes "trace K w p = pre @ (s, x) # post" and "only_calls quiet p"
  shows "\<not> milestone s"
  using only_calls_trace [OF assms(2), of s x K w] assms(1) by (simp add: quiet_not_milestone)

section \<open>The supervisor\<close>

lemma quiet_userns: "only_calls quiet (prepare_userns req pid)"
  by (auto simp: prepare_userns_def Let_def split: option.splits intro!: only_calls_try)

lemma quiet_reap: "only_calls quiet (reap_children fuel)"
  by (rule only_calls_mono [OF only_calls_reap]) auto

lemma supervise_signals:
  assumes "trace K w (supervise fuel req c pe ce) = pre @ (s, x) # post" and "milestone s"
  shows "s = Proc (Waitpid (ChildPid c) False) \<and> sig_run s0 pre = s0\<lparr>child_pid := c\<rparr>"
proof -
  let ?s1 = "s0\<lparr>child_pid := c\<rparr>"
  let ?waiting = "try_io (wait_for_pid c) (\<lambda>exitcode. try_io (reap_children fuel) (\<lambda>_. Halt exitcode :: unit io))"
  let ?releasing = "try_io (sys_unit (Proc (EventFdWrite ce 1))) (\<lambda>_. ?waiting)"
  let ?conf = "try_io (if User \<in> set (target_ns (cr_namespaces req)) then prepare_userns req (userns_pid req c) else ok ()) (\<lambda>_. ?releasing)"
  have "trace K w (Call (Proc (StoreChildPid c)) (\<lambda>_. try_io (sys_unit (Proc (EventFdRead pe))) (\<lambda>_. ?conf))) = pre @ (s, x) # post"
    using assms(1) by (simp add: supervise_def store_child_pid_def sys_def)
  with assms(2) obtain r w1 pre1 where 1: "pre = (Proc (StoreChildPid c), Some r) # pre1"
      "trace K w1 (try_io (sys_unit (Proc (EventFdRead pe))) (\<lambda>_. ?conf)) = pre1 @ (s, x) # post"
    by (cases pre) (auto split: prod.splits option.splits)
  have q: "only_calls quiet (sys_unit (Proc (EventFdRead pe)))" "only_calls quiet (sys_unit (Proc (EventFdWrite ce 1)))"
    "only_calls quiet (if User \<in> set (target_ns (cr_namespaces req)) then prepare_userns req (userns_pid req c) else ok ())"
    by (simp_all add: quiet_userns)
  obtain a2 w2 pre2 where 2: "sig_run ?s1 pre1 = sig_run ?s1 pre2" "trace K w2 ?conf = pre2 @ (s, x) # post"
    by (rule quiet_reached [OF 1(2) assms(2) q(1)])
  obtain a3 w3 pre3 where 3: "sig_run ?s1 pre2 = sig_run ?s1 pre3" "trace K w3 ?releasing = pre3 @ (s, x) # post"
    by (rule quiet_reached [OF 2(2) assms(2) q(3)])
  obtain a4 w4 pre4 where 4: "sig_run ?s1 pre3 = sig_run ?s1 pre4" "trace K w4 ?waiting = pre4 @ (s, x) # post"
    by (rule quiet_reached [OF 3(2) assms(2) q(2)])
  let ?fin = "\<lambda>r. if failed r then fail (OsError (errno r))
    else try_io (reap_children fuel) (\<lambda>_. Halt (exit_code (status r)) :: unit io)"
  have "?waiting = Call (Proc (Waitpid (ChildPid c) False)) ?fin"
    by (simp add: wait_for_pid_def sys_res_def fun_eq_iff)
  moreover have "only_calls quiet (?fin r)" for r
    by (simp add: only_calls_try [OF quiet_reap])
  ultimately have "pre4 = [] \<and> s = Proc (Waitpid (ChildPid c) False)"
    using 4(2) assms(2) quiet_nowhere [of K _ "?fin _" _ s x post]
    by (cases pre4) (auto split: prod.splits option.splits)
  with 1(1) 2(1) 3(1) 4(1) show ?thesis by simp
qed

section \<open>The child\<close>

lemma execute_signals:
  assumes "trace K w (execute exec) = pre @ (s, x) # post" and "milestone s"
  shows "is_exec s \<and> sig_run s0 pre = s0\<lparr>disp := (disp s0)(SIGPIPE := SigDfl)\<rparr>"
proof -
  let ?quiet = "try_io (case working_directory exec of None \<Rightarrow> ok () | Some wd \<Rightarrow> sys_unit (Fs (SetCurrentDir wd))) (\<lambda>_.
     try_io (if no_new_privs exec then set_no_new_privs else ok ()) (\<lambda>_.
     try_io (case seccomp exec of None \<Rightarrow> ok () | Some flt \<Rightarrow>
         if \<not> no_new_privs exec then fail (Msg ''seccomp filter requires no_new_privs = true'') else install flt) (\<lambda>_.
     case apparmor exec of None \<Rightarrow> ok () | Some profile \<Rightarrow>
       map_err (Context ''failed to set AppArmor profile: '') (change_onexec profile))))"
  have q: "only_calls quiet ?quiet"
    by (auto simp: set_no_new_privs_def install_def change_onexec_def Let_def split: option.splits
        intro!: only_calls_try only_calls_map_err)
  have split: "confine exec = try_io ?quiet (\<lambda>_. reset_sigpipe)" by (simp add: confine_def)
  let ?last = "\<lambda>p. sys (Proc (Execvpe p (p # exec_args exec) (exec_env exec)))"
  let ?fin = "\<lambda>p r. if failed r then
      fail (Hint (Context (''failed to execute '' @ [CHR 0x27] @ p @ [CHR 0x27] @ '': '') (OsError (errno r))) (exec_hint p (errno r)))
    else ok () :: unit io"
  obtain p where "execute exec = try_io (confine exec) (\<lambda>_. try_io (?last p) (?fin p))"
  proof (cases "executable exec")
    case (Some p)
    show thesis
    proof (cases "no_nul (p # exec_args exec) \<and> no_nul (exec_env exec)")
      case True
      with Some have "execute exec = try_io (confine exec) (\<lambda>_. try_io (?last p) (?fin p))" by (simp add: execute_cases)
      then show thesis by (rule that)
    qed (use assms(1) Some in \<open>auto simp: execute_cases\<close>)
  qed (use assms(1) in \<open>simp add: execute_cases\<close>)
  then have t: "trace K w (try_io ?quiet (\<lambda>_. try_io reset_sigpipe (\<lambda>_. try_io (?last p) (?fin p)))) = pre @ (s, x) # post"
    using assms(1) split by simp
  obtain a w1 pre1 where 1: "sig_run s0 pre = sig_run s0 pre1"
    "trace K w1 (try_io reset_sigpipe (\<lambda>_. try_io (?last p) (?fin p))) = pre1 @ (s, x) # post"
    by (rule quiet_reached [OF t assms(2) q])
  from 1(2) assms(2) obtain r w2 pre2 where 2: "pre1 = (Proc (SetSignal SIGPIPE SigDfl), Some r) # pre2" "\<not> failed r"
    "trace K w2 (try_io (?last p) (?fin p)) = pre2 @ (s, x) # post"
    by (cases pre1) (auto simp: reset_sigpipe_def set_signal_def sys_unit_def milestone_def
        split: prod.splits option.splits if_splits)
  from 2(3) have "pre2 = [] \<and> is_exec s"
    by (cases pre2) (auto simp: sys_def split: prod.splits option.splits if_splits)
  with 1(1) 2 show ?thesis by simp
qed

lemma child_signals:
  assumes "trace K w (child_side req pe ce) = pre @ (s, x) # post" and "milestone s"
  shows "is_exec s \<and> sig_run s0 pre =
    s0\<lparr>disp := (\<lambda>sig. if sig \<in> insert SIGPIPE (set FORWARDED_SIGNALS) then SigDfl else disp s0 sig)\<rparr>"
proof -
  let ?s1 = "s0\<lparr>disp := (\<lambda>sig. if sig \<in> set FORWARDED_SIGNALS then SigDfl else disp s0 sig)\<rparr>"
  let ?between = "try_io (if \<not> skips_two_stage req then
       try_io (maybe_pivot req) (\<lambda>_. if User \<in> set (target_ns (cr_namespaces req)) then unshare [User] else ok ())
     else ok ()) (\<lambda>_.
     try_io (sys_unit (Proc (EventFdWrite pe 2))) (\<lambda>_.
     try_io (sys_unit (Proc (EventFdRead ce))) (\<lambda>_. child_after req)))"
  have pv: "only_calls quiet (maybe_pivot req)" "only_calls quiet (setup_console uid)"
    "only_calls quiet (preexec_prep exec caps)" for uid exec caps
    by (rule only_calls_mono [OF plain_pivot_fs quiet_plain], assumption)
      (rule only_calls_mono [OF plain_console quiet_plain], assumption,
       rule only_calls_mono [OF only_calls_prep quiet_prep], assumption)
  have q: "only_calls quiet ?between"
    by (auto simp: pv unshare_def child_after_def set_oom_score_def split: option.split intro!: only_calls_try)
  have t: "trace K w (try_io (exit_on_err (for_io (set_signal ''Failed to reset signal handler: '' SigDfl) FORWARDED_SIGNALS))
      (\<lambda>_. try_io ?between (\<lambda>_. execute (cr_exec req)))) = pre @ (s, x) # post"
    using assms(1) by (simp add: child_side_def child_before_def reset_child_signal_handlers_def)
  obtain w1 pre1 where 1: "sig_run s0 pre = sig_run ?s1 pre1"
    "trace K w1 (try_io ?between (\<lambda>_. execute (cr_exec req))) = pre1 @ (s, x) # post"
    by (rule signals_reached [OF t assms(2)])
  obtain a w2 pre2 where 2: "sig_run ?s1 pre1 = sig_run ?s1 pre2" "trace K w2 (execute (cr_exec req)) = pre2 @ (s, x) # post"
    by (rule quiet_reached [OF 1(2) assms(2) q])
  from execute_signals [OF 2(2) assms(2), of ?s1] 1(1) 2(1) show ?thesis
    by (auto simp: fun_eq_iff)
qed

section \<open>The whole\<close>

definition forwarding :: "sig_state \<Rightarrow> sig_state" where
  "forwarding s = s\<lparr>disp := (\<lambda>sig. if sig \<in> set FORWARDED_SIGNALS then ForwardSignal else disp s sig)\<rparr>"

lemma create_signals:
  assumes "trace K w (create_wrap fuel req) = pre @ (s, x) # post" and "milestone s"
  shows "s = Proc Fork \<and> sig_run s0 pre = forwarding s0 \<or>
    (\<exists>c. 0 < c \<and> s = Proc (Waitpid (ChildPid c) False) \<and> sig_run s0 pre = (forwarding s0)\<lparr>child_pid := c\<rparr>) \<or>
    is_exec s \<and> sig_run s0 pre =
      s0\<lparr>disp := (\<lambda>sig. if sig \<in> insert SIGPIPE (set FORWARDED_SIGNALS) then SigDfl else disp s0 sig)\<rparr>"
proof -
  let ?new = "sys_res (Proc (EventFdNew 0 True))"
  let ?both = "\<lambda>(pe :: reply) (ce :: reply) (r :: reply). if rc r \<noteq> 0 then supervise fuel req (rc r) (rc pe) (rc ce) else child_side req (rc pe) (rc ce)"
  let ?fork = "\<lambda>(pe :: reply) (ce :: reply). try_io (sys_res (Proc Fork)) (?both pe ce)"
  let ?news = "try_io ?new (\<lambda>pe. try_io ?new (?fork pe))"
  have q: "only_calls quiet (before_handlers req)"
    by (rule only_calls_mono [OF plain_before_handlers]) (auto intro: quiet_plain)
  have qn: "only_calls quiet ?new" by simp
  have t: "trace K w (try_io (before_handlers req) (\<lambda>_. try_io (exit_on_err (for_io (set_signal ''Failed to set signal handler: ''
      ForwardSignal) FORWARDED_SIGNALS)) (\<lambda>_. ?news))) = pre @ (s, x) # post"
    using assms(1) by (simp add: create_wrap_def before_fork_split setup_parent_signal_handlers_def)
  obtain a1 w1 pre1 where 1: "sig_run s0 pre = sig_run s0 pre1"
    "trace K w1 (try_io (exit_on_err (for_io (set_signal ''Failed to set signal handler: '' ForwardSignal) FORWARDED_SIGNALS))
      (\<lambda>_. ?news)) = pre1 @ (s, x) # post"
    by (rule quiet_reached [OF t assms(2) q])
  obtain w2 pre2 where 2: "sig_run s0 pre1 = sig_run (forwarding s0) pre2" "trace K w2 ?news = pre2 @ (s, x) # post"
    unfolding forwarding_def by (rule signals_reached [OF 1(2) assms(2)])
  obtain pe w3 pre3 where 3: "sig_run (forwarding s0) pre2 = sig_run (forwarding s0) pre3"
    "trace K w3 (try_io ?new (?fork pe)) = pre3 @ (s, x) # post"
    by (rule quiet_reached [OF 2(2) assms(2) qn, where sg = "forwarding s0"], rule that)
  obtain ce w4 pre4 where 4: "sig_run (forwarding s0) pre3 = sig_run (forwarding s0) pre4"
    "trace K w4 (?fork pe ce) = pre4 @ (s, x) # post"
    by (rule quiet_reached [OF 3(2) assms(2) qn, where sg = "forwarding s0"], rule that)
  have run: "sig_run s0 pre = sig_run (forwarding s0) pre4" using 1 2 3 4 by simp
  show ?thesis
  proof (cases pre4)
    case Nil
    with 4(2) run show ?thesis by (auto simp: sys_res_def split: prod.splits option.splits)
  next
    case (Cons e pre5)
    with 4(2) obtain r w5 where r: "e = (Proc Fork, Some r)" "\<not> failed r"
      "trace K w5 (?both pe ce r) = pre5 @ (s, x) # post"
      by (auto simp: sys_res_def split: prod.splits option.splits if_splits)
    have run5: "sig_run s0 pre = sig_run (forwarding s0) pre5" using run Cons r(1) by simp
    show ?thesis
    proof (cases "rc r = 0")
      case True
      with r(3) have "trace K w5 (child_side req (rc pe) (rc ce)) = pre5 @ (s, x) # post" by simp
      from child_signals [OF this assms(2), of "forwarding s0"] run5 show ?thesis
        by (auto simp: forwarding_def fun_eq_iff)
    next
      case False
      with r(3) have "trace K w5 (supervise fuel req (rc r) (rc pe) (rc ce)) = pre5 @ (s, x) # post" by simp
      from supervise_signals [OF this assms(2), of "forwarding s0"] run5 False r(2) show ?thesis by auto
    qed
  qed
qed

section \<open>Property\<close>

text \<open>C8. What becomes of a signal, by the moment at which it arrives. In every run of a create request, at
  the fork the six forwarded signals already have the forwarding handler, but no child is stored, so
  the handler drops the signal. When the supervisor waits for its child, they have the handler and the
  child that was forked is stored, so that the signal is sent to exactly that child. When the workload
  is executed, the six signals and \<open>SIGPIPE\<close> have their default action, and every other signal has
  the disposition that the program was started with.\<close>

theorem signals_forwarded:
  assumes "trace K w (create_wrap fuel req) = pre @ (s, x) # post" and "child_pid s0 = 0"
  shows
    "(s = Proc Fork \<longrightarrow> (\<forall>sig \<in> set FORWARDED_SIGNALS. disp (sig_run s0 pre) sig = ForwardSignal) \<and>
       forward_signal try_from (child_pid (sig_run s0 pre)) n = Ret ()) \<and>
     (s = Proc (Waitpid (ChildPid c) False) \<longrightarrow>
       (\<forall>sig \<in> set FORWARDED_SIGNALS. disp (sig_run s0 pre) sig = ForwardSignal) \<and>
       (try_from n = Some sig \<longrightarrow>
          calls (trace K' w' (forward_signal try_from (child_pid (sig_run s0 pre)) n)) = [Proc (proc_call.Kill c sig)])) \<and>
     (is_exec s \<longrightarrow> disp (sig_run s0 pre) =
       (\<lambda>sig. if sig \<in> insert SIGPIPE (set FORWARDED_SIGNALS) then SigDfl else disp s0 sig))"
proof (cases "milestone s")
  case True
  from create_signals [OF assms(1) True, of s0] show ?thesis
    using assms(2)
    by (auto simp: forwarding_def forward_signal_def calls_def split: prod.split option.split)
next
  case False
  then show ?thesis by (auto simp: is_exec_def milestone_def split: syscall.splits proc_call.splits)
qed

text \<open>The supervisor of a child 42, started with \<open>SIGPIPE\<close> ignored.\<close>

definition rust_signals :: sig_state where
  "rust_signals = \<lparr>disp = (\<lambda>sig. if sig = SIGPIPE then SigIgn else SigDfl), child_pid = 0\<rparr>"

definition fork_kernel :: "unit kernel" where
  "fork_kernel = scripted (\<lambda>_. False) (\<lambda>s. if s = Proc Fork then reply0\<lparr>rc := 42\<rparr> else reply0)"

theorem signals_forwarded_witness:
  "\<exists>pre post. trace fork_kernel () (create_wrap 1 plain_request) =
       pre @ (Proc (Waitpid (ChildPid 42) False), Some reply0) # post \<and>
     calls (trace good_kernel () (forward_signal (\<lambda>n. if n = 15 then Some SIGTERM else None)
       (child_pid (sig_run rust_signals pre)) 15)) = [Proc (proc_call.Kill 42 SIGTERM)]"
proof -
  have more: "cr_limits plain_request = None" "cr_cgroupfs plain_request = None"
    "cr_hostname plain_request = None" "cr_workload_id plain_request = None"
    by (simp_all add: plain_request_def CreateRequest_default_def)
  have nul: "CHR 0x00 \<notin> set (show_int 0)" by code_simp
  have "(Proc (Waitpid (ChildPid 42) False), Some reply0) \<in> set (trace fork_kernel () (create_wrap 1 plain_request))"
    by (simp add: wrap_defs child_defs more nul fork_kernel_def scripted_def Let_def supervise_def store_child_pid_def
        wait_for_pid_def target_ns_def) (simp add: reply0_def)
  then obtain pre post where pre: "trace fork_kernel () (create_wrap 1 plain_request) =
      pre @ (Proc (Waitpid (ChildPid 42) False), Some reply0) # post"
    by (auto dest: split_list)
  from signals_forwarded [OF this, of rust_signals "\<lambda>n. if n = 15 then Some SIGTERM else None" 15 42 SIGTERM good_kernel "()"]
  have "calls (trace good_kernel () (forward_signal (\<lambda>n. if n = 15 then Some SIGTERM else None)
      (child_pid (sig_run rust_signals pre)) 15)) = [Proc (proc_call.Kill 42 SIGTERM)]"
    by (simp add: rust_signals_def)
  with pre show ?thesis by blast
qed

end
