(* ===== verification/Credentials.thy ===== *)
theory Credentials
  imports Privileges ExecSpec
begin

text \<open>
  The credentials that the workload gets. What the identity and capability calls do to a process is
  the kernel's, so it is a hypothesis here, taken from \<open>capabilities(7)\<close>, \<open>setuid(2)\<close>, \<open>capset(2)\<close> and
  \<open>prctl(2)\<close>: \<open>cred_eff\<close> is the documented effect of a call that succeeded, \<open>honest\<close> what its reply says
  of the credentials, and \<open>documented\<close> a kernel that keeps to both. In every such kernel the credentials
  at the execution are those that \<open>preexec_prep\<close> is meant to set.
\<close>

section \<open>Credentials of a process\<close>

record creds =
  p_uid :: u32
  p_gid :: u32
  p_groups :: "u32 list"
  p_caps :: CapResult
  p_bset :: "CapabilityBit set"
  p_ambient :: "CapabilityBit set"
  p_fixup :: bool

text \<open>\<open>p_fixup\<close>: the kernel adjusts the capabilities when the user id changes from or to 0, which it does
  unless \<open>SECBIT_NO_SETUID_FIXUP\<close> is set.\<close>

definition change_uid :: "u32 \<Rightarrow> creds \<Rightarrow> creds" where
  "change_uid u c =
     (if p_fixup c \<and> p_uid c = 0 \<and> u \<noteq> 0 then
        c\<lparr>p_uid := u, p_caps := (p_caps c)\<lparr>effective := 0, permitted := 0\<rparr>, p_ambient := {}\<rparr>
      else if p_fixup c \<and> p_uid c \<noteq> 0 \<and> u = 0 then
        c\<lparr>p_uid := u, p_caps := (p_caps c)\<lparr>effective := permitted (p_caps c)\<rparr>\<rparr>
      else c\<lparr>p_uid := u\<rparr>)"

definition numbered :: "int \<Rightarrow> CapabilityBit set" where
  "numbered n = {b. uint (to_cap_number b) = n}"

lemma numbered_to_cap_number [simp]: "numbered (uint (to_cap_number b)) = {b}"
  by (auto simp: numbered_def word_uint_eq_iff [symmetric] to_cap_number_inj)

text \<open>A change of the capability sets takes away from the ambient set what is not both permitted and
  inheritable any more.\<close>

definition change_caps :: "CapResult \<Rightarrow> creds \<Rightarrow> creds" where
  "change_caps d c = c\<lparr>p_caps := d,
     p_ambient := {b \<in> p_ambient c. get_from b (permitted d) \<and> get_from b (inheritable d)}\<rparr>"

definition prctl_eff :: "int \<Rightarrow> int \<Rightarrow> int \<Rightarrow> creds \<Rightarrow> creds" where
  "prctl_eff op a b c =
     (if op = PR_SET_SECUREBITS then c\<lparr>p_fixup := (a AND SECBIT_NO_SETUID_FIXUP = 0)\<rparr>
      else if op = PR_CAPBSET_DROP then c\<lparr>p_bset := p_bset c - numbered a\<rparr>
      else if op = PR_CAP_AMBIENT \<and> a = PR_CAP_AMBIENT_LOWER then c\<lparr>p_ambient := p_ambient c - numbered b\<rparr>
      else if op = PR_CAP_AMBIENT \<and> a = PR_CAP_AMBIENT_RAISE then c\<lparr>p_ambient := p_ambient c \<union> numbered b\<rparr>
      else c)"

fun cred_eff :: "creds \<Rightarrow> event \<Rightarrow> creds" where
  "cred_eff c (Cred call, Some r) =
     (if failed r then c
      else (case call of
              SetUid u \<Rightarrow> change_uid u c
            | SetGid g \<Rightarrow> c\<lparr>p_gid := g\<rparr>
            | SetGroups gs \<Rightarrow> c\<lparr>p_groups := gs\<rparr>
            | Capset v pid lo hi \<Rightarrow> change_caps (cap_data_to_result (lo, hi)) c
            | Prctl op a b d e \<Rightarrow> prctl_eff op a b c
            | _ \<Rightarrow> c))"
| "cred_eff c e = c"

text \<open>The calls that read an id always succeed, with the id; the capabilities read are those of the
  process; the others return 0 or a negative number; an ambient capability can only be raised if it is
  permitted and inheritable.\<close>

definition honest :: "creds \<Rightarrow> syscall \<Rightarrow> reply \<Rightarrow> bool" where
  "honest c s r =
     (case s of
        Cred call \<Rightarrow>
          (case call of
             GetUid \<Rightarrow> rc r = uint (p_uid c)
           | GetGid \<Rightarrow> rc r = uint (p_gid c)
           | Capget v pid \<Rightarrow> failed r \<or> cap_data_to_result (caplo r, caphi r) = p_caps c
           | Prctl op a b d e \<Rightarrow> rc r \<le> 0 \<and>
               (op = PR_CAP_AMBIENT \<and> a = PR_CAP_AMBIENT_RAISE \<and> rc r = 0 \<longrightarrow>
                  (\<forall>x \<in> numbered b. get_from x (permitted (p_caps c)) \<and> get_from x (inheritable (p_caps c))))
           | _ \<Rightarrow> True)
      | _ \<Rightarrow> True)"

text \<open>A call after which another view of the ids may hold: a change of namespaces, and the wait for another
  process, which may write the id maps meanwhile.\<close>

abbreviation no_ns :: "syscall \<Rightarrow> bool" where
  "no_ns s \<equiv> (\<forall>n. s \<noteq> Ns n) \<and> (\<forall>fd. s \<noteq> Proc (EventFdRead fd))"

text \<open>A kernel with these laws; \<open>creds_of\<close> reads the credentials of the process from its state. Of calls
  that change namespaces, and of the reads of an event counter, nothing is assumed. There is one user id:
  the real, effective and saved ones are taken to be equal, as they are for a process that was started
  with equal ones and whose changes of the user were those of a process with \<open>CAP_SETUID\<close>.\<close>

definition documented :: "'w kernel \<Rightarrow> ('w \<Rightarrow> creds) \<Rightarrow> bool" where
  "documented K creds_of \<longleftrightarrow>
     (\<forall>w s r w'. K w s = (Some r, w') \<longrightarrow> no_ns s \<longrightarrow>
        honest (creds_of w) s r \<and> creds_of w' = cred_eff (creds_of w) (s, Some r))"

definition creds_after :: "creds \<Rightarrow> event list \<Rightarrow> creds" where
  "creds_after c tr = foldl cred_eff c tr"

lemma creds_after_simps [simp]:
  "creds_after c [] = c" "creds_after c (e # tr) = creds_after (cred_eff c e) tr"
  "creds_after c (tr @ tr') = creds_after (creds_after c tr) tr'"
  by (simp_all add: creds_after_def)

fun honest_trace :: "creds \<Rightarrow> event list \<Rightarrow> bool" where
  "honest_trace c [] = True"
| "honest_trace c ((s, x) # tr) =
     ((case x of Some r \<Rightarrow> honest c s r | None \<Rightarrow> True) \<and> honest_trace (cred_eff c (s, x)) tr)"

lemma honest_append [simp]:
  "honest_trace c (tr @ tr') \<longleftrightarrow> honest_trace c tr \<and> honest_trace (creds_after c tr) tr'"
  by (induction c tr rule: honest_trace.induct) auto

lemma documented_trace:
  assumes "documented K creds_of" and "only_calls no_ns p"
  shows "honest_trace (creds_of w) (trace K w p)"
  using assms(2)
proof (induction p arbitrary: w rule: prog_induct)
  case (Call s k)
  obtain x w' where K: "K w s = (x, w')" by (cases "K w s")
  show ?case
  proof (cases x)
    case (Some r)
    with K Call.prems assms(1) have "honest (creds_of w) s r" "creds_of w' = cred_eff (creds_of w) (s, Some r)"
      by (auto simp: documented_def)
    with K Some Call.IH [of r w'] Call.prems show ?thesis by simp
  qed (use K in simp)
qed simp_all

text \<open>What \<open>capset(2)\<close> allows every process: to keep or lower its permitted set, to make effective what is
  then permitted, and to make inheritable what was inheritable or permitted.\<close>

definition legal_caps :: "CapResult \<Rightarrow> CapResult \<Rightarrow> bool" where
  "legal_caps old new \<longleftrightarrow> permitted new AND NOT (permitted old) = 0 \<and> effective new AND NOT (permitted new) = 0 \<and>
     inheritable new AND NOT (inheritable old OR permitted old) = 0"

section \<open>The operations\<close>

lemma keep_caps_creds:
  assumes "succeeds K w set_keep_caps tr u w'" and "honest_trace c tr"
  shows "creds_after c tr = c\<lparr>p_fixup := False\<rparr>"
  using assms by (auto simp: set_keep_caps_def succeeds_try prctl_eff_def SECBIT_NO_SETUID_FIXUP_def split: if_splits)

text \<open>A change of identity that was refused.\<close>

definition refused :: "cred_call \<Rightarrow> event list \<Rightarrow> bool" where
  "refused call tr \<longleftrightarrow> list_ex (\<lambda>e. fst e = Cred call \<and> (case snd e of Some r \<Rightarrow> failed r | None \<Rightarrow> False)) tr"

lemma refused_simps [simp]:
  "\<not> refused call []" "refused call (tr @ tr') \<longleftrightarrow> refused call tr \<or> refused call tr'"
  "refused call ((s, Some r) # tr) \<longleftrightarrow> s = Cred call \<and> failed r \<or> refused call tr"
  by (auto simp: refused_def)

definition granted :: "('a \<Rightarrow> cred_call) \<Rightarrow> 'a option \<Rightarrow> event list \<Rightarrow> 'a \<Rightarrow> 'a" where
  "granted call want tr old = (case want of None \<Rightarrow> old | Some v \<Rightarrow> if refused (call v) tr then old else v)"

lemma gid_uid_creds:
  assumes "succeeds K w (apply_gid_uid gid uid gids) tr u w'" and "honest_trace c tr" and "\<not> p_fixup c"
  shows "creds_after c tr = c\<lparr>p_gid := granted SetGid gid tr (p_gid c),
    p_groups := granted SetGroups gids tr (p_groups c), p_uid := granted SetUid uid tr (p_uid c)\<rparr>"
  using assms
  by (cases gid; cases uid; cases gids)
    (auto simp: apply_gid_uid_def succeeds_try granted_def honest_def change_uid_def split: if_splits)

lemma succeeds_prctl_check:
  "succeeds K w (prctl_check m c) tr u w' \<longleftrightarrow> (\<exists>r. K w (Cred c) = (Some r, w') \<and> tr = [(Cred c, Some r)] \<and> rc r = 0)"
  by (auto simp: prctl_check_def split: if_splits)

lemma diff_one_by_one: "x - {d} - set ds = x - insert d (set ds)"
  by blast

lemma prctl_creds:
  assumes "rc r = 0"
  shows "cred_eff c (Cred (bset_drop d), Some r) = c\<lparr>p_bset := p_bset c - {d}\<rparr>"
    and "cred_eff c (Cred (ambient_lower d), Some r) = c\<lparr>p_ambient := p_ambient c - {d}\<rparr>"
    and "cred_eff c (Cred (ambient_raise d), Some r) = c\<lparr>p_ambient := insert d (p_ambient c)\<rparr>"
    and "honest c (Cred (ambient_raise d)) r \<longleftrightarrow> get_from d (permitted (p_caps c)) \<and> get_from d (inheritable (p_caps c))"
  using assms by (simp_all add: bset_drop_def ambient_lower_def ambient_raise_def prctl_eff_def prctl_defs honest_def)

lemma bset_creds:
  "succeeds K w (for_io (\<lambda>d. prctl_check m (bset_drop d)) ds) tr u w' \<Longrightarrow>
     creds_after c tr = c\<lparr>p_bset := p_bset c - set ds\<rparr>"
proof (induction ds arbitrary: w tr c)
  case (Cons d ds)
  then obtain r w1 t where "rc r = 0" "tr = (Cred (bset_drop d), Some r) # t"
    "succeeds K w1 (for_io (\<lambda>d. prctl_check m (bset_drop d)) ds) t u w'"
    by (auto simp: succeeds_try succeeds_prctl_check)
  with Cons.IH [of w1 t "c\<lparr>p_bset := p_bset c - {d}\<rparr>"] show ?case
    by (simp add: prctl_creds diff_one_by_one del: cred_eff.simps)
qed simp

lemma ambient_lower_creds:
  "succeeds K w (for_io (\<lambda>d. prctl_check m (ambient_lower d)) ds) tr u w' \<Longrightarrow>
     creds_after c tr = c\<lparr>p_ambient := p_ambient c - set ds\<rparr>"
proof (induction ds arbitrary: w tr c)
  case (Cons d ds)
  then obtain r w1 t where "rc r = 0" "tr = (Cred (ambient_lower d), Some r) # t"
    "succeeds K w1 (for_io (\<lambda>d. prctl_check m (ambient_lower d)) ds) t u w'"
    by (auto simp: succeeds_try succeeds_prctl_check)
  with Cons.IH [of w1 t "c\<lparr>p_ambient := p_ambient c - {d}\<rparr>"] show ?case
    by (simp add: prctl_creds diff_one_by_one del: cred_eff.simps)
qed simp

lemma ambient_raise_creds:
  "succeeds K w (for_io (\<lambda>d. prctl_check m (ambient_raise d)) ds) tr u w' \<Longrightarrow> honest_trace c tr \<Longrightarrow>
     creds_after c tr = c\<lparr>p_ambient := p_ambient c \<union> set ds\<rparr> \<and>
     (\<forall>d \<in> set ds. get_from d (permitted (p_caps c)) \<and> get_from d (inheritable (p_caps c)))"
proof (induction ds arbitrary: w tr c)
  case (Cons d ds)
  then obtain r w1 t where r: "rc r = 0" "tr = (Cred (ambient_raise d), Some r) # t"
    "succeeds K w1 (for_io (\<lambda>d. prctl_check m (ambient_raise d)) ds) t u w'"
    by (auto simp: succeeds_try succeeds_prctl_check)
  with Cons.IH [of w1 t "c\<lparr>p_ambient := insert d (p_ambient c)\<rparr>"] Cons.prems(2) show ?case
    by (simp add: prctl_creds del: cred_eff.simps)
qed simp

lemma names_creds:
  "succeeds K w (names_as_bits ns) tr bits w' \<Longrightarrow> creds_after c tr = c \<and> set bits = (\<Union>n \<in> set ns. name_caps n)"
  using succeeds_names [of K w ns tr bits w']
  by (auto simp: names_as_bits_def succeeds_try)

lemma get_caps_creds:
  "succeeds K w get_caps tr cur w' \<Longrightarrow> honest_trace c tr \<Longrightarrow> creds_after c tr = c \<and> cur = p_caps c"
  by (auto simp: get_caps_def get_pid_def capget_def succeeds_try honest_def split: if_splits)

lemma set_caps_creds:
  "succeeds K w (set_caps d) tr u w' \<Longrightarrow> creds_after c tr = change_caps d c"
  using cap_result_to_data_back [of d]
  by (auto simp: set_caps_def get_pid_def capset_def succeeds_try split: if_splits)

text \<open>What the three lists of names ask for.\<close>

definition dropped :: "Capabilities \<Rightarrow> CapabilityBit set" where
  "dropped caps = (\<Union>n \<in> set (unwrap_names (cap_drop caps)). name_caps n)"

definition raised :: "Capabilities \<Rightarrow> CapabilityBit set" where
  "raised caps = (\<Union>n \<in> set (unwrap_names (cap_raise caps)). name_caps n)"

definition raised_ambient :: "Capabilities \<Rightarrow> CapabilityBit set" where
  "raised_ambient caps = (\<Union>n \<in> set (unwrap_names (cap_raise_ambient caps)). name_caps n)"

definition caps_intended :: "Capabilities option \<Rightarrow> creds \<Rightarrow> creds \<Rightarrow> bool" where
  "caps_intended capabilities c c' =
     (case capabilities of
        None \<Rightarrow> c' = c
      | Some caps \<Rightarrow>
          \<exists>eff. c' = c\<lparr>p_caps := \<lparr>effective = eff, permitted = eff, inheritable = eff\<rparr>,
            p_bset := p_bset c - (dropped caps - raised caps - raised_ambient caps),
            p_ambient := {b \<in> p_ambient c. get_from b eff} - dropped caps \<union> raised_ambient caps\<rparr> \<and>
          (\<forall>b. get_from b eff \<longleftrightarrow> b \<in> raised caps \<or> get_from b (effective (p_caps c)) \<and> b \<notin> dropped caps) \<and>
          (\<forall>b \<in> raised_ambient caps. get_from b eff))"

lemma capabilities_creds:
  assumes "succeeds K w (apply_capabilities capabilities) tr u w'" and "honest_trace c tr"
  shows "caps_intended capabilities c (creds_after c tr)"
proof (cases capabilities)
  case None
  with assms(1) show ?thesis by (simp add: apply_capabilities_def caps_intended_def)
next
  case (Some caps)
  obtain t1 cur w1 t2 ds w2 t3 rs w3 t4 as w4 t5 w5 t6 w6 t7 w7 t8 where
    a: "succeeds K w get_caps t1 cur w1"
    and b: "succeeds K w1 (names_as_bits (unwrap_names (cap_drop caps))) t2 ds w2"
    and c: "succeeds K w2 (names_as_bits (unwrap_names (cap_raise caps))) t3 rs w3"
    and d: "succeeds K w3 (names_as_bits (unwrap_names (cap_raise_ambient caps))) t4 as w4"
    and e: "succeeds K w4 (for_io (\<lambda>d. prctl_check ''failed to drop bounding capability: '' (bset_drop d))
        (filter (\<lambda>d. d \<notin> set rs \<and> d \<notin> set as) ds)) t5 () w5"
    and f: "succeeds K w5 (set_caps (let eff = set_bits (clear_bits (effective cur) ds) rs
        in \<lparr>effective = eff, permitted = eff, inheritable = eff\<rparr>)) t6 () w6"
    and g: "succeeds K w6 (for_io (\<lambda>d. prctl_check ''failed to drop ambient capability: '' (ambient_lower d)) ds) t7 () w7"
    and h: "succeeds K w7 (for_io (\<lambda>r. prctl_check ''failed to raise ambient capability: '' (ambient_raise r)) as) t8 () w'"
    and tr: "tr = t1 @ t2 @ t3 @ t4 @ t5 @ t6 @ t7 @ t8"
    by (rule succeeds_capabilities [OF assms(1) [unfolded Some]], rule that)
  have cur: "cur = p_caps c" and t1: "creds_after c t1 = c"
    using get_caps_creds [OF a, of c] assms(2) by (simp_all add: tr)
  note names = names_creds [OF b, THEN conjunct1] names_creds [OF c, THEN conjunct1] names_creds [OF d, THEN conjunct1]
  have sets: "set ds = dropped caps" "set rs = raised caps" "set as = raised_ambient caps"
    using names_creds [OF b] names_creds [OF c] names_creds [OF d]
    by (simp_all add: dropped_def raised_def raised_ambient_def)
  define eff where "eff = set_bits (clear_bits (effective (p_caps c)) ds) rs"
  define c' where "c' = c\<lparr>p_bset := p_bset c - (dropped caps - raised caps - raised_ambient caps),
      p_caps := \<lparr>effective = eff, permitted = eff, inheritable = eff\<rparr>,
      p_ambient := {b \<in> p_ambient c. get_from b eff} - dropped caps\<rparr>"
  have "{d. (d \<in> dropped caps \<and> d \<notin> raised caps) \<and> d \<notin> raised_ambient caps} =
      dropped caps - raised caps - raised_ambient caps" by blast
  then have "creds_after c (t1 @ t2 @ t3 @ t4 @ t5 @ t6 @ t7) = c'"
    by (simp add: t1 names bset_creds [OF e] set_caps_creds [OF f] ambient_lower_creds [OF g] sets
        change_caps_def c'_def eff_def cur Let_def)
  then have "creds_after c tr = c'\<lparr>p_ambient := p_ambient c' \<union> raised_ambient caps\<rparr> \<and>
      (\<forall>b \<in> raised_ambient caps. get_from b eff)"
    using ambient_raise_creds [OF h, of c'] assms(2) by (simp add: tr sets) (simp add: c'_def)
  then show ?thesis
    by (auto simp: Some caps_intended_def c'_def eff_def get_from_set_bits get_from_clear_bits sets
        intro!: exI [of _ eff])
qed

section \<open>Up to the execution\<close>

text \<open>The state of the kernel after the calls of a trace.\<close>

primrec state_after :: "'w kernel \<Rightarrow> 'w \<Rightarrow> event list \<Rightarrow> 'w" where
  "state_after K w [] = w"
| "state_after K w (e # tr) = state_after K (snd (K w (fst e))) tr"

lemma state_after_append [simp]: "state_after K w (tr @ tr') = state_after K (state_after K w tr) tr'"
  by (induction tr arbitrary: w) auto

lemma succeeds_state_after: "succeeds K w p tr a w' \<Longrightarrow> state_after K w tr = w'"
  by (induction p arbitrary: w tr rule: prog_induct) auto

lemma documented_succeeds:
  assumes "documented K creds_of"
  shows "only_calls no_ns p \<Longrightarrow> succeeds K w p tr a w' \<Longrightarrow> creds_of w' = creds_after (creds_of w) tr"
proof (induction p arbitrary: w tr rule: prog_induct)
  case (Call s k)
  then obtain r w1 t where 1: "K w s = (Some r, w1)" "tr = (s, Some r) # t" "succeeds K w1 (k r) t a w'"
    by auto
  with assms Call.prems(1) have "creds_of w1 = cred_eff (creds_of w) (s, Some r)"
    by (auto simp: documented_def)
  with Call.IH [OF _ 1(3)] Call.prems(1) 1(2) show ?case by simp
qed simp_all

lemma documented_at_call:
  assumes "documented K creds_of"
  shows "only_calls no_ns p \<Longrightarrow> trace K w p = pre @ (s, x) # post \<Longrightarrow>
    creds_of (state_after K w pre) = creds_after (creds_of w) pre"
proof (induction p arbitrary: w pre rule: prog_induct)
  case (Call s' k)
  obtain y w1 where K: "K w s' = (y, w1)" by (cases "K w s'")
  show ?case
  proof (cases pre)
    case (Cons e pre')
    with K Call.prems(2) obtain r where r: "y = Some r" "e = (s', Some r)" "trace K w1 (k r) = pre' @ (s, x) # post"
      by (cases y) auto
    moreover have "creds_of w1 = cred_eff (creds_of w) e"
      using assms K r Call.prems(1) by (auto simp: documented_def)
    ultimately show ?thesis using Call.IH [OF _ r(3)] Call.prems(1) Cons K by simp
  qed simp
qed simp_all

text \<open>Calls that change no credentials.\<close>

definition neutral :: "syscall \<Rightarrow> bool" where
  "neutral s =
     (case s of
        Cred call \<Rightarrow> (case call of
            Prctl op a b d e \<Rightarrow> op \<notin> {PR_SET_SECUREBITS, PR_CAPBSET_DROP, PR_CAP_AMBIENT}
          | SeccompSetFilter a b d e \<Rightarrow> True
          | _ \<Rightarrow> False)
      | _ \<Rightarrow> no_ns s)"

lemma neutral_creds: "list_all (\<lambda>e. neutral (fst e)) tr \<Longrightarrow> creds_after c tr = c"
proof (induction tr)
  case (Cons e tr)
  then have "cred_eff c e = c"
    by (cases "(c, e)" rule: cred_eff.cases) (auto simp: neutral_def prctl_eff_def split: cred_call.splits)
  with Cons show ?case by simp
qed simp

lemma neutral_execute: "only_calls neutral (execute exec)"
proof -
  have "only_calls neutral (confine exec)"
    by (auto simp: confine_def set_no_new_privs_def install_def change_onexec_def reset_sigpipe_def
        set_signal_def Let_def neutral_def prctl_defs PR_SET_NO_NEW_PRIVS_def split: option.splits
        intro!: only_calls_try only_calls_map_err)
  then show ?thesis
    by (auto simp: execute_cases sys_def neutral_def split: option.splits intro!: only_calls_try)
qed

definition sets_id :: "syscall \<Rightarrow> bool" where
  "sets_id s = (case s of Cred call \<Rightarrow> (case call of SetUid u \<Rightarrow> True | SetGid g \<Rightarrow> True | SetGroups gs \<Rightarrow> True
     | _ \<Rightarrow> False) | _ \<Rightarrow> False)"

lemma not_refused:
  assumes "list_all (\<lambda>e. \<not> sets_id (fst e)) tr"
  shows "refused (SetUid u) tr = False" and "refused (SetGid g) tr = False" and "refused (SetGroups gs) tr = False"
  using assms by (auto simp: refused_def list_ex_iff list_all_iff sets_id_def)

lemma granted_append:
  assumes "list_all (\<lambda>e. \<not> sets_id (fst e)) tr"
  shows "granted SetUid want (tr @ t) old = granted SetUid want t old"
    and "granted SetUid want (t @ tr) old = granted SetUid want t old"
    and "granted SetGid want (tr @ t) old = granted SetGid want t old"
    and "granted SetGid want (t @ tr) old = granted SetGid want t old"
    and "granted SetGroups gs (tr @ t) olds = granted SetGroups gs t olds"
    and "granted SetGroups gs (t @ tr) olds = granted SetGroups gs t olds"
  by (simp_all add: granted_def not_refused [OF assms] split: option.split)

lemma sets_id_capabilities: "only_calls (\<lambda>s. \<not> sets_id s) (apply_capabilities caps)"
proof -
  have "only_calls (\<lambda>s. \<not> sets_id s) get_caps" "\<And>c. only_calls (\<lambda>s. \<not> sets_id s) (set_caps c)"
    "\<And>ns. only_calls (\<lambda>s. \<not> sets_id s) (names_as_bits ns)"
    by (auto simp: get_caps_def set_caps_def get_pid_def capget_def capset_def names_as_bits_def sets_id_def
        intro!: only_calls_try)
  then show ?thesis
    by (auto simp: apply_capabilities_def Let_def sets_id_def bset_drop_def ambient_lower_def ambient_raise_def
        split: option.splits intro!: only_calls_try only_calls_for)
qed

definition identity_changed :: "ExecutableSpec \<Rightarrow> event list \<Rightarrow> creds \<Rightarrow> creds" where
  "identity_changed exec tr c = c\<lparr>p_fixup := False, p_gid := granted SetGid (ex_gid exec) tr (p_gid c),
     p_groups := granted SetGroups (supplemental_gids exec) tr (p_groups c),
     p_uid := granted SetUid (ex_uid exec) tr (p_uid c)\<rparr>"

lemma preexec_creds:
  assumes "succeeds K w (preexec_prep exec caps) tr u w'" and "honest_trace c tr"
  shows "caps_intended caps (identity_changed exec tr c) (creds_after c tr)"
proof -
  from assms(1) obtain t1 u1 w1 t2 u2 w2 t3 where
    1: "succeeds K w set_keep_caps t1 u1 w1"
    and 2: "succeeds K w1 (apply_gid_uid (ex_gid exec) (ex_uid exec) (supplemental_gids exec)) t2 u2 w2"
    and 3: "succeeds K w2 (apply_capabilities caps) t3 u w'" and tr: "tr = t1 @ t2 @ t3"
    unfolding preexec_prep_def succeeds_try by blast
  have t1: "list_all (\<lambda>e. \<not> sets_id (fst e)) t1"
    using 1 by (auto simp: set_keep_caps_def succeeds_try sets_id_def split: if_splits)
  have t3: "list_all (\<lambda>e. \<not> sets_id (fst e)) t3"
    using only_calls_trace [OF sets_id_capabilities, of _ _ K w2 caps] succeeds_trace [OF 3]
    by (auto simp: list_all_iff)
  have "identity_changed exec tr c = identity_changed exec t2 c"
    by (simp add: identity_changed_def tr granted_append [OF t1] granted_append [OF t3])
  then have "creds_after c (t1 @ t2) = identity_changed exec tr c"
    using keep_caps_creds [OF 1, of c] gid_uid_creds [OF 2, of "c\<lparr>p_fixup := False\<rparr>"] assms(2)
    by (simp add: identity_changed_def tr)
  with capabilities_creds [OF 3, of "creds_after c (t1 @ t2)"] assms(2) show ?thesis
    by (simp add: tr)
qed

section \<open>The credentials at the execution\<close>

lemma neutral_no_ns: "only_calls neutral p \<Longrightarrow> only_calls no_ns p"
  by (erule only_calls_mono) (auto simp: neutral_def)

lemma prep_no_ns: "only_calls no_ns (preexec_prep exec caps)"
  by (rule only_calls_mono [OF only_calls_prep]) (auto simp: prep_call_def)

lemma neutral_sets_no_id: "neutral s \<Longrightarrow> \<not> sets_id s"
  by (auto simp: neutral_def sets_id_def split: syscall.splits cred_call.splits)

lemma identity_neutral:
  assumes "list_all (\<lambda>e. neutral (fst e)) tr"
  shows "identity_changed exec (tr @ t) c = identity_changed exec t c"
    and "identity_changed exec (t @ tr) c = identity_changed exec t c"
proof -
  have "list_all (\<lambda>e. \<not> sets_id (fst e)) tr"
    using assms neutral_sets_no_id by (auto simp: list_all_iff)
  then show "identity_changed exec (tr @ t) c = identity_changed exec t c"
    "identity_changed exec (t @ tr) c = identity_changed exec t c"
    by (simp_all add: identity_changed_def granted_append)
qed

lemma neutral_trace: "only_calls neutral p \<Longrightarrow> list_all (\<lambda>e. neutral (fst e)) (trace K w p)"
  using only_calls_trace by (fastforce simp: list_all_iff)

lemma neutral_prefix:
  "only_calls neutral p \<Longrightarrow> trace K w p = pre @ post \<Longrightarrow> list_all (\<lambda>e. neutral (fst e)) pre"
  using neutral_trace [of p K w] by simp

lemma prepared_creds:
  assumes "documented K creds_of"
    and "trace K w (try_io (preexec_prep exec caps) (\<lambda>_. execute exec)) = pre @ (Proc (Execvpe prog args env), x) # post"
  shows "caps_intended caps (identity_changed exec pre (creds_of w)) (creds_of (state_after K w pre))"
proof -
  have no: "only_calls (\<lambda>s. \<not> is_exec s) (preexec_prep exec caps)"
    by (rule only_calls_mono [OF only_calls_prep]) (auto simp: prep_call_def is_exec_def split: syscall.splits)
  obtain u w1 pre' where 1: "succeeds K w (preexec_prep exec caps) (trace K w (preexec_prep exec caps)) u w1"
      "pre = trace K w (preexec_prep exec caps) @ pre'"
    and 2: "trace K w1 (execute exec) = pre' @ (Proc (Execvpe prog args env), x) # post"
    by (rule try_reached [OF assms(2) _ no]) (simp, rule that)
  have pre': "list_all (\<lambda>e. neutral (fst e)) pre'"
    by (rule neutral_prefix [OF neutral_execute 2])
  have "creds_of (state_after K w pre) = creds_of (state_after K w1 pre')"
    using 1 succeeds_state_after by fastforce
  also have "\<dots> = creds_after (creds_of w1) pre'"
    by (rule documented_at_call [OF assms(1) neutral_no_ns [OF neutral_execute] 2])
  also have "\<dots> = creds_after (creds_of w) (trace K w (preexec_prep exec caps))"
    using neutral_creds [OF pre'] documented_succeeds [OF assms(1) prep_no_ns 1(1)] by simp
  finally show ?thesis
    using preexec_creds [OF 1(1) documented_trace [OF assms(1) prep_no_ns]] identity_neutral [OF pre'] 1(2)
    by simp
qed

end
