(* ===== verification/Workload.thy ===== *)
theory Workload
  imports CreateWrap AttachReq Credentials
begin

text \<open>
  With which credentials the workload of a create and of an attach request is executed, from the laws of
  the kernel in \<open>Credentials\<close>: those that the request asks for, except that a refused change of the
  user, the group or the supplementary groups leaves the old ones. A capability that the request drops
  is out of reach of the workload.
\<close>

section \<open>From the release to the execution\<close>

lemma neutral_of_plain: "only_calls plain_call p \<Longrightarrow> only_calls neutral p"
  by (erule only_calls_mono) (auto simp: plain_call_def neutral_def split: syscall.splits)

lemma after_neutral_creds:
  assumes "documented K creds_of" and "only_calls neutral p"
    and "trace K w (try_io p (\<lambda>_. try_io (preexec_prep exec caps) (\<lambda>_. execute exec))) =
      pre @ (Proc (Execvpe prog args env), x) # post"
    and "only_calls (\<lambda>s. \<not> is_exec s) p"
  shows "caps_intended caps (identity_changed exec pre (creds_of w)) (creds_of (state_after K w pre))"
proof -
  obtain u w1 pre' where 1: "succeeds K w p (trace K w p) u w1" "pre = trace K w p @ pre'"
    and 2: "trace K w1 (try_io (preexec_prep exec caps) (\<lambda>_. execute exec)) =
      pre' @ (Proc (Execvpe prog args env), x) # post"
    by (rule try_reached [OF assms(3) _ assms(4)]) (simp, rule that)
  have n: "list_all (\<lambda>e. neutral (fst e)) (trace K w p)"
    by (rule neutral_trace [OF assms(2)])
  have "creds_of w1 = creds_of w"
    using documented_succeeds [OF assms(1) neutral_no_ns [OF assms(2)] 1(1)] neutral_creds [OF n] by simp
  then show ?thesis
    using prepared_creds [OF assms(1) 2] identity_neutral [OF n] succeeds_state_after [OF 1(1)] 1(2) by simp
qed

lemma child_creds:
  assumes "documented K creds_of"
    and "trace K w (child_side req parent_efd child_efd) = pre @ (Proc (Execvpe prog args env), x) # post"
  shows "\<exists>rel r mid. pre = (rel @ [(Proc (EventFdRead child_efd), Some r)]) @ mid \<and>
    caps_intended (cr_capabilities req)
      (identity_changed (cr_exec req) mid
        (creds_of (state_after K w (rel @ [(Proc (EventFdRead child_efd), Some r)]))))
      (creds_of (state_after K w pre))"
proof -
  let ?e = "Proc (Execvpe prog args env)"
  let ?plain = "try_io (if skips_two_stage req then maybe_pivot req else ok ()) (\<lambda>_.
     try_io (set_oom_score (cr_exec req)) (\<lambda>_. setup_console (ex_uid (cr_exec req))))"
  let ?rest = "try_io (child_after req) (\<lambda>_. execute (cr_exec req))"
  have x: "is_exec ?e" by simp
  have no: "only_calls (\<lambda>s. \<not> is_exec s) (sys_unit (Proc (EventFdWrite parent_efd 2)))"
    "only_calls (\<lambda>s. \<not> is_exec s) (sys_unit (Proc (EventFdRead child_efd)))" by simp_all
  have "only_calls plain_call ?plain"
    by (auto simp: plain_pivot_fs plain_console set_oom_score_def split: option.split intro!: only_calls_try)
  then have plain: "only_calls neutral ?plain" "only_calls (\<lambda>s. \<not> is_exec s) ?plain"
    by (rule neutral_of_plain, rule no_exec_of_sync [OF no_sync_of_plain])
  obtain u1 w1 p1 where 1: "succeeds K w (child_before req) (trace K w (child_before req)) u1 w1"
    "pre = trace K w (child_before req) @ p1"
    and r1: "trace K w1 (try_io (sys_unit (Proc (EventFdWrite parent_efd 2))) (\<lambda>_.
       try_io (sys_unit (Proc (EventFdRead child_efd))) (\<lambda>_. ?rest))) = p1 @ (?e, x) # post"
    by (rule try_reached [OF assms(2) [unfolded child_side_def] x no_exec_before], rule that)
  obtain u2 w2 p2 where 2: "succeeds K w1 (sys_unit (Proc (EventFdWrite parent_efd 2)))
      (trace K w1 (sys_unit (Proc (EventFdWrite parent_efd 2)))) u2 w2"
    "p1 = trace K w1 (sys_unit (Proc (EventFdWrite parent_efd 2))) @ p2"
    and r2: "trace K w2 (try_io (sys_unit (Proc (EventFdRead child_efd))) (\<lambda>_. ?rest)) = p2 @ (?e, x) # post"
    by (rule try_reached [OF r1 x no(1)], rule that)
  obtain u3 w3 mid where 3: "succeeds K w2 (sys_unit (Proc (EventFdRead child_efd)))
      (trace K w2 (sys_unit (Proc (EventFdRead child_efd)))) u3 w3"
    "p2 = trace K w2 (sys_unit (Proc (EventFdRead child_efd))) @ mid"
    and r3: "trace K w3 ?rest = mid @ (?e, x) # post"
    by (rule try_reached [OF r2 x no(2)], rule that)
  obtain r where r: "trace K w2 (sys_unit (Proc (EventFdRead child_efd))) = [(Proc (EventFdRead child_efd), Some r)]"
    using 3(1) unfolding succeeds_sys by auto
  let ?rel = "trace K w (child_before req) @ trace K w1 (sys_unit (Proc (EventFdWrite parent_efd 2)))"
  have pre: "pre = (?rel @ [(Proc (EventFdRead child_efd), Some r)]) @ mid"
    using 1(2) 2(2) 3(2) r by simp
  have w3: "state_after K w (?rel @ [(Proc (EventFdRead child_efd), Some r)]) = w3"
    using succeeds_state_after [OF 1(1)] succeeds_state_after [OF 2(1)] succeeds_state_after [OF 3(1)] r
    by simp
  have "?rest = try_io ?plain (\<lambda>_. try_io (preexec_prep (cr_exec req) (cr_capabilities req)) (\<lambda>_. execute (cr_exec req)))"
    by (simp add: child_after_def)
  from after_neutral_creds [OF assms(1) plain(1) r3 [unfolded this] plain(2)]
  have "caps_intended (cr_capabilities req) (identity_changed (cr_exec req) mid (creds_of w3))
      (creds_of (state_after K w3 mid))" .
  then show ?thesis
    using pre w3 by (metis state_after_append)
qed

lemma attach_creds:
  assumes "documented K creds_of"
    and "trace K w (attach_wrap fuel req) = pre @ (Proc (Execvpe prog args env), x) # post"
  shows "\<exists>fk r mid. pre = (fk @ [(Proc Fork, Some r)]) @ mid \<and> rc r = 0 \<and>
    caps_intended (ar_capabilities req)
      (identity_changed (ar_exec req) mid (creds_of (state_after K w (fk @ [(Proc Fork, Some r)]))))
      (creds_of (state_after K w pre))"
proof -
  let ?e = "Proc (Execvpe prog args env)"
  let ?fin = "\<lambda>_::unit. try_io (preexec_prep (ar_exec req) (ar_capabilities req)) (\<lambda>_. execute (ar_exec req))"
  let ?joined = "try_io (first_child_pid_of (ar_pid req)) (\<lambda>pid. try_io (warn_on_err (attach_cgroup req)) (\<lambda>_.
     try_io (setns pid (target_ns (ar_namespaces req))) (\<lambda>_.
     try_io (warn_on_err (set_process_limits (ar_exec req))) (\<lambda>_.
     try_io (set_oom_score (ar_exec req)) (\<lambda>_. exit_on_err setup_parent_signal_handlers)))))"
  let ?sup = "\<lambda>c. try_io (store_child_pid c) (\<lambda>_. try_io (wait_for_pid c) (\<lambda>exitcode.
     try_io (reap_children fuel) (\<lambda>_. Halt exitcode :: unit io)))"
  let ?forked = "\<lambda>r. try_io (if rc r \<noteq> 0 then ?sup (rc r) else exit_on_err reset_child_signal_handlers) ?fin"
  have x: "is_exec ?e" by simp
  have eq: "attach_wrap fuel req = try_io ?joined (\<lambda>_. try_io (sys_res (Proc Fork)) ?forked)"
    by (simp add: attach_wrap_def fork_and_wait_def)
  have no: "only_calls (\<lambda>s. \<not> is_exec s) ?joined"
    by (intro only_calls_try only_calls_warn no_exec_find no_exec_attach_cgroup no_exec_setns no_exec_limits
        no_exec_oom no_exec_handlers)
  have no_fork: "only_calls (\<lambda>s. \<not> is_exec s) (sys_res (Proc Fork))" by simp
  have no_sup: "only_calls (\<lambda>s. \<not> is_exec s) (?sup c)" for c
    using only_calls_mono [OF only_calls_reap, of "\<lambda>s. \<not> is_exec s" fuel]
    by (auto simp: store_child_pid_def wait_for_pid_def intro!: only_calls_try)
  obtain u1 w1 p1 where 1: "succeeds K w ?joined (trace K w ?joined) u1 w1" "pre = trace K w ?joined @ p1"
    and r1: "trace K w1 (try_io (sys_res (Proc Fork)) ?forked) = p1 @ (?e, x) # post"
    by (rule try_reached [OF assms(2) [unfolded eq] x no], rule that)
  obtain r w2 mid where 2: "succeeds K w1 (sys_res (Proc Fork)) (trace K w1 (sys_res (Proc Fork))) r w2"
    "p1 = trace K w1 (sys_res (Proc Fork)) @ mid" and r2: "trace K w2 (?forked r) = mid @ (?e, x) # post"
    by (rule try_reached [OF r1 x no_fork], rule that)
  have r: "trace K w1 (sys_res (Proc Fork)) = [(Proc Fork, Some r)]"
    using 2(1) unfolding succeeds_sys by auto
  have child: "rc r = 0"
  proof (rule ccontr)
    assume "rc r \<noteq> 0"
    with r2 have "trace K w2 (try_io (?sup (rc r)) ?fin) = mid @ (?e, x) # post" by simp
    from try_reached [OF this x no_sup] obtain a wa where "succeeds K w2 (?sup (rc r)) (trace K w2 (?sup (rc r))) a wa"
      by blast
    then show False by (auto simp: succeeds_try)
  qed
  have reset: "only_calls neutral (exit_on_err reset_child_signal_handlers)"
    unfolding exit_on_err_def
    by (rule only_calls_bind [OF only_calls_mono [OF only_calls_handlers(2)]])
      (auto simp: is_set_signal_def neutral_def split: syscall.splits proc_call.splits sum.splits)
  have r3: "trace K w2 (try_io (exit_on_err reset_child_signal_handlers) ?fin) = mid @ (?e, x) # post"
    using r2 child by simp
  have w2: "state_after K w (trace K w ?joined @ [(Proc Fork, Some r)]) = w2"
    using succeeds_state_after [OF 1(1)] succeeds_state_after [OF 2(1)] r by simp
  have "caps_intended (ar_capabilities req) (identity_changed (ar_exec req) mid (creds_of w2))
      (creds_of (state_after K w2 mid))"
    by (rule after_neutral_creds [OF assms(1) reset r3 no_exec_handlers(2)])
  then show ?thesis
    using 1(2) 2(2) r child w2 by (metis append_assoc state_after_append)
qed

section \<open>A kernel with these laws\<close>

text \<open>It keeps the credentials of one process, denies the changes of identity in \<open>deny\<close>, has one
  process 42 in every list of children, and never returns from an execution.\<close>

definition id_answer :: "cred_call set \<Rightarrow> cred_call \<Rightarrow> reply" where
  "id_answer deny call = (if call \<in> deny then reply0\<lparr>rc := -1, errno := EPERM\<rparr> else reply0)"

definition creds_answer :: "cred_call set \<Rightarrow> creds \<Rightarrow> syscall \<Rightarrow> reply" where
  "creds_answer deny c s =
     (case s of
        Cred call \<Rightarrow>
          (case call of
             GetUid \<Rightarrow> reply0\<lparr>rc := uint (p_uid c)\<rparr>
           | GetGid \<Rightarrow> reply0\<lparr>rc := uint (p_gid c)\<rparr>
           | SetUid u \<Rightarrow> id_answer deny call
           | SetGid g \<Rightarrow> id_answer deny call
           | SetGroups gs \<Rightarrow> id_answer deny call
           | Capget v pid \<Rightarrow> reply0\<lparr>caplo := fst (cap_result_to_data (p_caps c)), caphi := snd (cap_result_to_data (p_caps c))\<rparr>
           | Capset v pid lo hi \<Rightarrow>
               if legal_caps (p_caps c) (cap_data_to_result (lo, hi)) then reply0 else reply0\<lparr>rc := -1, errno := EPERM\<rparr>
           | Prctl op a b d e \<Rightarrow>
               if op = PR_CAP_AMBIENT \<and> a = PR_CAP_AMBIENT_RAISE \<and>
                 \<not> (\<forall>x \<in> numbered b. get_from x (permitted (p_caps c)) \<and> get_from x (inheritable (p_caps c)))
               then reply0\<lparr>rc := -1, errno := EPERM\<rparr> else reply0
           | _ \<Rightarrow> reply0)
      | Fs fs \<Rightarrow> reply0\<lparr>contents := ''42 ''\<rparr>
      | _ \<Rightarrow> reply0)"

definition creds_kernel :: "cred_call set \<Rightarrow> creds kernel" where
  "creds_kernel deny c s =
     (if is_exec s then (None, c) else (Some (creds_answer deny c s), cred_eff c (s, Some (creds_answer deny c s))))"

lemma creds_kernel_documented: "documented (creds_kernel deny) (\<lambda>c. c)"
proof -
  have "honest c (Cred call) (creds_answer deny c (Cred call))" for c call
    by (cases call) (auto simp: honest_def creds_answer_def cap_result_to_data_back reply0_def)
  then have "honest c s (creds_answer deny c s)" for c s
    by (cases s) (auto simp: honest_def)
  then show ?thesis
    by (auto simp: documented_def creds_kernel_def split: if_splits)
qed

definition root_creds :: creds where
  "root_creds = \<lparr>p_uid = 0, p_gid = 0, p_groups = [], p_caps = \<lparr>effective = - 1, permitted = - 1, inheritable = 0\<rparr>,
     p_bset = UNIV, p_ambient = {}, p_fixup = True\<rparr>"

definition uid_request :: "Capabilities option \<Rightarrow> CreateRequest" where
  "uid_request caps = plain_request\<lparr>cr_exec := web_exec\<lparr>ex_uid := Some 1000\<rparr>, cr_capabilities := caps\<rparr>"

lemma uid_request_simps [simp]:
  "cr_exec (uid_request caps) = web_exec\<lparr>ex_uid := Some 1000\<rparr>" "cr_capabilities (uid_request caps) = caps"
  "cr_namespaces (uid_request caps) = Some []" "\<not> skips_two_stage (uid_request caps)"
  by (simp_all add: uid_request_def plain_request_def CreateRequest_default_def skips_two_stage_def)

abbreviation httpd_exec :: syscall where
  "httpd_exec \<equiv> Proc (Execvpe ''httpd'' [''httpd'', ''-f''] [''A=1''])"

section \<open>Properties\<close>

text \<open>C5. The credentials of the workload of a create request. In every kernel that keeps the documented
  laws, the child executes with the credentials it had when the supervisor released it, changed as the
  request says and in no other way: group, supplementary groups and user are the requested ones, except
  that a change that the kernel refused leaves the old value; the effective, permitted and inheritable
  capabilities are the ones it had effective, without the dropped and with the raised ones, whatever the
  user became; the bounding set has lost the dropped capabilities that are not raised; the ambient
  set has lost the dropped and gained the requested ones. Without a capability section nothing but the
  identity changes.\<close>

theorem workload_credentials:
  assumes "documented K creds_of"
    and "trace K w (child_side req parent_efd child_efd) = pre @ (Proc (Execvpe prog args env), x) # post"
  shows "\<exists>rel r mid. pre = (rel @ [(Proc (EventFdRead child_efd), Some r)]) @ mid \<and>
    caps_intended (cr_capabilities req)
      (identity_changed (cr_exec req) mid
        (creds_of (state_after K w (rel @ [(Proc (EventFdRead child_efd), Some r)]))))
      (creds_of (state_after K w pre))"
  using assms by (rule child_creds)

lemmas creds_kernel_simps = child_defs creds_kernel_def creds_answer_def id_answer_def reply0_def Let_def
  prctl_defs prctl_eff_def change_uid_def SECBIT_NO_SETUID_FIXUP_def PR_SET_NO_NEW_PRIVS_def root_creds_def

lemma denied_run:
  "\<exists>pre. trace (creds_kernel {SetUid 1000}) root_creds (child_side (uid_request None) 3 4) = pre @ (httpd_exec, None) # [] \<and>
     p_uid (state_after (creds_kernel {SetUid 1000}) root_creds pre) = 0"
  by (intro exI [of _ "butlast (trace (creds_kernel {SetUid 1000}) root_creds (child_side (uid_request None) 3 4))"])
    (simp add: creds_kernel_simps)

theorem workload_credentials_witness:
  "\<exists>rel r mid. trace (creds_kernel {SetUid 1000}) root_creds (child_side (uid_request None) 3 4) =
       rel @ (Proc (EventFdRead 4), Some r) # mid @ [(httpd_exec, None)] \<and>
     state_after (creds_kernel {SetUid 1000}) root_creds (rel @ (Proc (EventFdRead 4), Some r) # mid) =
       identity_changed (web_exec\<lparr>ex_uid := Some 1000\<rparr>) mid
         (state_after (creds_kernel {SetUid 1000}) root_creds (rel @ [(Proc (EventFdRead 4), Some r)])) \<and>
     p_uid (state_after (creds_kernel {SetUid 1000}) root_creds (rel @ (Proc (EventFdRead 4), Some r) # mid)) = 0"
proof -
  obtain pre where pre: "trace (creds_kernel {SetUid 1000}) root_creds (child_side (uid_request None) 3 4) =
      pre @ (httpd_exec, None) # []" "p_uid (state_after (creds_kernel {SetUid 1000}) root_creds pre) = 0"
    using denied_run by blast
  from workload_credentials [OF creds_kernel_documented pre(1)] obtain rel r mid where
    "pre = (rel @ [(Proc (EventFdRead 4), Some r)]) @ mid"
    "caps_intended None (identity_changed (web_exec\<lparr>ex_uid := Some 1000\<rparr>) mid
       (state_after (creds_kernel {SetUid 1000}) root_creds (rel @ [(Proc (EventFdRead 4), Some r)])))
     (state_after (creds_kernel {SetUid 1000}) root_creds pre)"
    by auto
  with pre show ?thesis
    by (intro exI [of _ rel] exI [of _ r] exI [of _ mid]) (simp add: caps_intended_def)
qed

text \<open>What the kernel does with the capabilities of a process that executes a file: the permitted ones
  come from the inheritable and the bounding set, and from the ambient one, which is kept when the file
  is \<open>plain\<close>, that is, has no capabilities and no set-user-id or set-group-id bit of its own.\<close>

definition exec_rule :: "('f \<Rightarrow> bool) \<Rightarrow> ('f \<Rightarrow> creds \<Rightarrow> CapabilityBit set) \<Rightarrow> bool" where
  "exec_rule plain permitted_after \<longleftrightarrow>
     (\<forall>f c. permitted_after f c \<subseteq> {b. get_from b (inheritable (p_caps c))} \<union> p_bset c \<union> p_ambient c \<and>
       (plain f \<longrightarrow> p_ambient c \<subseteq> permitted_after f c))"

lemma caps_intended_dropped:
  assumes "caps_intended (Some caps) c c'" and "b \<in> dropped caps" "b \<notin> raised caps" "b \<notin> raised_ambient caps"
  shows "b \<notin> p_bset c' \<and> b \<notin> p_ambient c' \<and> \<not> get_from b (effective (p_caps c')) \<and>
    \<not> get_from b (permitted (p_caps c')) \<and> \<not> get_from b (inheritable (p_caps c'))"
  using assms by (auto simp: caps_intended_def)

lemma caps_intended_ambient: "caps_intended (Some caps) c c' \<Longrightarrow> raised_ambient caps \<subseteq> p_ambient c'"
  by (auto simp: caps_intended_def)

text \<open>C6. Dropped capabilities are out of reach of the workload, and ambient ones are in it. In every
  kernel that keeps the documented laws, when the child executes: a capability that the request drops
  and raises in neither way is in none of the five sets of the process, so that no program the workload
  executes has it, whatever the file; and every capability that the request raises in the ambient set
  is permitted after the execution of a plain file.\<close>

theorem dropped_capability_gone:
  assumes "documented K creds_of" and "exec_rule plain permitted_after" and "cr_capabilities req = Some caps"
    and "trace K w (child_side req parent_efd child_efd) = pre @ (Proc (Execvpe prog args env), x) # post"
  shows "(b \<in> dropped caps \<and> b \<notin> raised caps \<and> b \<notin> raised_ambient caps \<longrightarrow>
      b \<notin> permitted_after f (creds_of (state_after K w pre)) \<and> b \<notin> p_bset (creds_of (state_after K w pre)) \<and>
      b \<notin> p_ambient (creds_of (state_after K w pre)) \<and>
      \<not> get_from b (effective (p_caps (creds_of (state_after K w pre)))) \<and>
      \<not> get_from b (permitted (p_caps (creds_of (state_after K w pre)))) \<and>
      \<not> get_from b (inheritable (p_caps (creds_of (state_after K w pre))))) \<and>
    (plain f \<longrightarrow> raised_ambient caps \<subseteq> permitted_after f (creds_of (state_after K w pre)))"
proof -
  obtain c where c: "caps_intended (Some caps) c (creds_of (state_after K w pre))"
    using child_creds [OF assms(1,4)] assms(3) by auto
  let ?c = "creds_of (state_after K w pre)"
  have "permitted_after f ?c \<subseteq> {b. get_from b (inheritable (p_caps ?c))} \<union> p_bset ?c \<union> p_ambient ?c"
    "plain f \<longrightarrow> p_ambient ?c \<subseteq> permitted_after f ?c"
    using assms(2) unfolding exec_rule_def by blast+
  then show ?thesis
    using caps_intended_dropped [OF c] caps_intended_ambient [OF c] by blast
qed

text \<open>The program is not root any more, has no \<open>CAP_SYS_ADMIN\<close>, and may bind low ports.\<close>

definition port_caps :: Capabilities where
  "port_caps = \<lparr>cap_raise = None, cap_raise_ambient = Some [''CAP_NET_BIND_SERVICE''],
     cap_drop = Some [''CAP_SYS_ADMIN'', ''CAP_CHOWN'']\<rparr>"

lemma port_names:
  "collect_names [''CAP_NET_BIND_SERVICE''] [] = Inr [NetBindService]"
  "collect_names [''CAP_SYS_ADMIN'', ''CAP_CHOWN''] [] = Inr [Chown, SysAdmin]"
  by code_simp+

lemma reply0_simps: "rc reply0 = 0" "contents reply0 = []" "seed reply0 = []" "status reply0 = StillAlive"
  by (simp_all add: reply0_def)

lemma legal_caps_full [simp]:
  "legal_caps \<lparr>effective = e, permitted = - 1, inheritable = i\<rparr> \<lparr>effective = x, permitted = x, inheritable = x\<rparr>"
  by (simp add: legal_caps_def)

lemma creds_kernel_calls:
  "creds_kernel deny c (Fs f) = (Some (reply0\<lparr>contents := ''42 ''\<rparr>), c)"
  "creds_kernel deny c (Ns n) = (Some reply0, c)" "creds_kernel deny c (Sys y) = (Some reply0, c)"
  "creds_kernel deny c (Proc p) = (if is_exec (Proc p) then (None, c) else (Some reply0, c))"
  "creds_kernel deny c (Cred GetUid) = (Some (reply0\<lparr>rc := uint (p_uid c)\<rparr>), c)"
  "creds_kernel deny c (Cred (SetUid u)) =
     (if SetUid u \<in> deny then (Some (reply0\<lparr>rc := -1, errno := EPERM\<rparr>), c) else (Some reply0, change_uid u c))"
  "creds_kernel deny c (Cred (Prctl PR_SET_SECUREBITS bits 0 0 0)) = (Some reply0, c\<lparr>p_fixup := bits AND SECBIT_NO_SETUID_FIXUP = 0\<rparr>)"
  "creds_kernel deny c (Cred (Prctl PR_SET_NO_NEW_PRIVS bits 0 0 0)) = (Some reply0, c)"
  "creds_kernel deny c (Cred (SeccompSetFilter a1 a2 a3 a4)) = (Some reply0, c)"
  "creds_kernel deny c (Cred (Capget v pid)) = (Some (reply0\<lparr>caplo := fst (cap_result_to_data (p_caps c)),
     caphi := snd (cap_result_to_data (p_caps c))\<rparr>), c)"
  "legal_caps (p_caps c) d \<Longrightarrow>
     creds_kernel deny c (Cred (Capset v pid (fst (cap_result_to_data d)) (snd (cap_result_to_data d)))) = (Some reply0, change_caps d c)"
  "creds_kernel deny c (Cred (bset_drop b)) = (Some reply0, c\<lparr>p_bset := p_bset c - {b}\<rparr>)"
  "creds_kernel deny c (Cred (ambient_lower b)) = (Some reply0, c\<lparr>p_ambient := p_ambient c - {b}\<rparr>)"
  "get_from b (permitted (p_caps c)) \<Longrightarrow> get_from b (inheritable (p_caps c)) \<Longrightarrow>
     creds_kernel deny c (Cred (ambient_raise b)) = (Some reply0, c\<lparr>p_ambient := insert b (p_ambient c)\<rparr>)"
  by (simp_all add: creds_kernel_def creds_answer_def id_answer_def reply0_def prctl_eff_def prctl_defs
      PR_SET_NO_NEW_PRIVS_def bset_drop_def ambient_lower_def ambient_raise_def cap_result_to_data_back)

lemma get_from_all: "get_from b (- 1)"
  by (simp add: get_from_def)

lemma port_run:
  "\<exists>pre. trace (creds_kernel {}) root_creds (child_side (uid_request (Some port_caps)) 3 4) = pre @ (httpd_exec, None) # [] \<and>
     p_uid (state_after (creds_kernel {}) root_creds pre) = 1000"
  by (intro exI [of _ "butlast (trace (creds_kernel {}) root_creds (child_side (uid_request (Some port_caps)) 3 4))"])
    (simp add: child_defs creds_kernel_calls port_caps_def unwrap_names_def names_as_bits_def port_names Let_def
      get_caps_def get_pid_def capget_def set_caps_def capset_def prctl_check_def cap_result_to_data_back
      change_caps_def change_uid_def root_creds_def get_from_clear_bits get_from_set_bits get_from_all SECBIT_NO_SETUID_FIXUP_def reply0_simps
      del: collect_names.simps(2) to_uppercase.simps)

theorem dropped_capability_gone_witness:
  "\<exists>c pre. trace (creds_kernel {}) root_creds (child_side (uid_request (Some port_caps)) 3 4) = pre @ [(httpd_exec, None)] \<and>
     state_after (creds_kernel {}) root_creds pre = c \<and> p_uid c = 1000 \<and>
     SysAdmin \<notin> p_bset c \<and> \<not> get_from SysAdmin (permitted (p_caps c)) \<and> NetBindService \<in> p_ambient c"
proof -
  let ?after = "\<lambda>(f :: unit) c. if p_uid c = 0
    then {b. get_from b (inheritable (p_caps c))} \<union> p_bset c \<union> p_ambient c else p_ambient c"
  obtain pre where pre: "trace (creds_kernel {}) root_creds (child_side (uid_request (Some port_caps)) 3 4) =
      pre @ (httpd_exec, None) # []" "p_uid (state_after (creds_kernel {}) root_creds pre) = 1000"
    using port_run by blast
  have rule: "exec_rule (\<lambda>_. True) ?after"
    by (auto simp: exec_rule_def)
  have "name_caps ''CAP_SYS_ADMIN'' = {SysAdmin}" "name_caps ''CAP_NET_BIND_SERVICE'' = {NetBindService}"
    by code_simp+
  then have "SysAdmin \<in> dropped port_caps" "SysAdmin \<notin> raised port_caps" "SysAdmin \<notin> raised_ambient port_caps"
    "raised_ambient port_caps = {NetBindService}"
    by (simp_all add: dropped_def raised_def raised_ambient_def port_caps_def unwrap_names_def)
  with dropped_capability_gone [OF creds_kernel_documented rule _ pre(1), of port_caps SysAdmin] pre
  show ?thesis by simp
qed

text \<open>C16. The credentials of a program that an attach request executes: those that the process had when it
  was forked in the container, changed by the request in the same way.\<close>

theorem attached_credentials:
  assumes "documented K creds_of"
    and "trace K w (attach_wrap fuel req) = pre @ (Proc (Execvpe prog args env), x) # post"
  shows "\<exists>fk r mid. pre = (fk @ [(Proc Fork, Some r)]) @ mid \<and> rc r = 0 \<and>
    caps_intended (ar_capabilities req)
      (identity_changed (ar_exec req) mid (creds_of (state_after K w (fk @ [(Proc Fork, Some r)]))))
      (creds_of (state_after K w pre))"
  using assms by (rule attach_creds)

theorem attached_credentials_witness:
  "\<exists>fk r mid. trace (creds_kernel {}) root_creds (attach_wrap 1 shell_request) =
       (fk @ [(Proc Fork, Some r)]) @ mid @ [(httpd_exec, None)] \<and>
     caps_intended None
       (identity_changed web_exec mid (state_after (creds_kernel {}) root_creds (fk @ [(Proc Fork, Some r)])))
       (state_after (creds_kernel {}) root_creds ((fk @ [(Proc Fork, Some r)]) @ mid))"
proof -
  let ?T = "trace (creds_kernel {}) root_creds (attach_wrap 1 shell_request)"
  have "last ?T = (httpd_exec, None) \<and> ?T \<noteq> []"
    by (simp add: attach_wrap_def first_child_pid_of_def shell_request_numbers creds_kernel_calls
        attach_cgroup_def attach_identity_def identity_of_def get_pid_def CGroup_open_def
        set_child_value_def setns_def pidfd_open_def set_process_limits_def fork_and_wait_def
        setup_parent_signal_handlers_def child_defs reply0_simps Let_def del: parse_i32.simps)
  then obtain pre where pre: "?T = pre @ (httpd_exec, None) # []" by (metis append_butlast_last_id)
  from attached_credentials [OF creds_kernel_documented pre] obtain fk r mid where
    "pre = (fk @ [(Proc Fork, Some r)]) @ mid"
    "caps_intended None
       (identity_changed web_exec mid (state_after (creds_kernel {}) root_creds (fk @ [(Proc Fork, Some r)])))
       (state_after (creds_kernel {}) root_creds pre)"
    by auto
  with pre show ?thesis
    by (intro exI [of _ fk] exI [of _ r] exI [of _ mid]) (simp only: append_assoc simp_thms)
qed

end
