(* ===== verification/UnitTests.thy ===== *)
theory UnitTests
  imports Workload
begin

text \<open>
  The unit tests of \<open>src/caps.rs\<close>, \<open>src/mount.rs\<close>, \<open>src/signal.rs\<close> and \<open>src/wrap.rs\<close>, as programs of
  the model. A test passes if its run returns; an assertion that does not hold and an \<open>expect\<close> of an
  error panic, which is an error here. The tests of pure functions are evaluated; the others run against
  a kernel, and the properties show from the documented laws of that kernel what they can end with.
\<close>

section \<open>Tests of pure functions\<close>

definition low_caps :: u64 where
  "low_caps = raw_bits [Chown, NetRaw, Setfcap]"

definition high_caps :: u64 where
  "high_caps = raw_bits [MacOverride, CheckpointRestore]"

definition all_caps :: u64 where
  "all_caps = raw_bits ALL_caps"

definition test_cap_encoding_word_order :: bool where
  "test_cap_encoding_word_order =
     (let input = \<lparr>effective = low_caps, permitted = low_caps, inheritable = low_caps\<rparr>;
          (data0, data1) = cap_result_to_data input;
          rt = cap_data_to_result (data0, data1)
      in d_effective data0 = ucast low_caps \<and> d_effective data1 = 0 \<and> effective rt = low_caps \<and>
     (let input = \<lparr>effective = high_caps, permitted = high_caps, inheritable = high_caps\<rparr>;
          (data0, data1) = cap_result_to_data input;
          rt = cap_data_to_result (data0, data1)
      in d_effective data0 = 0 \<and> d_effective data1 = ucast (drop_bit 32 high_caps) \<and> effective rt = high_caps \<and>
     (let input = \<lparr>effective = all_caps, permitted = all_caps, inheritable = all_caps\<rparr>;
          (data0, data1) = cap_result_to_data input;
          rt = cap_data_to_result (data0, data1)
      in d_effective data0 = ucast all_caps \<and> d_effective data1 = ucast (drop_bit 32 all_caps) \<and>
         effective rt = all_caps \<and> permitted rt = all_caps \<and> inheritable rt = all_caps)))"

definition join_rootfs_avoids_double_separators :: bool where
  "join_rootfs_avoids_double_separators \<longleftrightarrow>
     join_rootfs ''/run/root'' ''/proc/kcore'' = ''/run/root/proc/kcore'' \<and>
     join_rootfs ''/run/root/'' ''proc/sys'' = ''/run/root/proc/sys'' \<and>
     join_rootfs ''/'' ''/proc/sysrq-trigger'' = ''/proc/sysrq-trigger''"

section \<open>Tests that call the system\<close>

definition assert_that :: "bool \<Rightarrow> unit io" where
  "assert_that b = (if b then ok () else fail (Msg ''assertion failed''))"

definition expect :: "string \<Rightarrow> 'a io \<Rightarrow> 'a io" where
  "expect msg m = map_err (Context msg) m"

text \<open>\<open>signal(2)\<close> returns the previous disposition.\<close>

definition test_reset_sigpipe_restores_default :: "unit io" where
  "test_reset_sigpipe_restores_default =
     try_io (expect ''failed to seed SIGPIPE with SIG_IGN'' (sys_res (Proc (SetSignal SIGPIPE SigIgn)))) (\<lambda>original.
     try_io (expect ''reset_sigpipe failed'' reset_sigpipe) (\<lambda>_.
     try_io (expect ''failed to read back SIGPIPE disposition'' (sys_res (Proc (SetSignal SIGPIPE SigDfl)))) (\<lambda>after.
     try_io (assert_that (old_handler after = SigDfl)) (\<lambda>_.
     expect ''failed to restore original SIGPIPE disposition''
       (sys_unit (Proc (SetSignal SIGPIPE (old_handler original))))))))"

definition NOBODY_UID :: u32 where "NOBODY_UID = 65534"

text \<open>The child leaves with the value of the closure; the parent looks at the exit status.\<close>

definition in_child :: "int prog \<Rightarrow> bool io" where
  "in_child f =
     try_io (expect ''fork failed'' (sys_res (Proc Fork))) (\<lambda>r.
     if rc r = 0 then bind f Halt
     else
       try_io (expect ''waitpid failed'' (sys_res (Proc (Waitpid (ChildPid (rc r)) False)))) (\<lambda>s.
       ok (case status s of Exited_status _ code \<Rightarrow> code = 0 | _ \<Rightarrow> False)))"

definition is_root :: "bool io" where
  "is_root = try_io (sys (Run GetEuid)) (\<lambda>r. ok (rc r = 0))"

definition root_only :: "int prog \<Rightarrow> unit io" where
  "root_only f = try_io is_root (\<lambda>root. if \<not> root then ok () else try_io (in_child f) assert_that)"

text \<open>\<open>TempDir\<close> is third-party code: making one and dropping it are calls. A closure that returns drops
  the directory it made.\<close>

definition make_minimal_rootfs :: "string option prog" where
  "make_minimal_rootfs =
     Call (Run TempDirNew) (\<lambda>dir. if failed dir then Ret None
     else Call (Fs (CreateDirAll (path_push (contents dir) ''proc''))) (\<lambda>r.
       if failed r then Call (Run (TempDirDrop (contents dir))) (\<lambda>_. Ret None)
       else Ret (Some (contents dir))))"

definition request_with_rootfs :: "string \<Rightarrow> CreateRequest" where
  "request_with_rootfs dir = CreateRequest_default\<lparr>cr_rootfs := Some dir, cr_workload_id := Some ''test''\<rparr>"

definition with_rootfs :: "(CreateRequest \<Rightarrow> int prog) \<Rightarrow> int prog" where
  "with_rootfs body =
     bind make_minimal_rootfs (\<lambda>d. case d of
       None \<Rightarrow> Ret 1
     | Some dir \<Rightarrow> bind (body (request_with_rootfs dir)) (\<lambda>code. Call (Run (TempDirDrop dir)) (\<lambda>_. Ret code)))"

text \<open>\<open>if m.is_err() { return code; }\<close>, and \<open>let Ok(a) = m else { return code; }\<close>.\<close>

definition or_return :: "'a io \<Rightarrow> int \<Rightarrow> ('a \<Rightarrow> int prog) \<Rightarrow> int prog" where
  "or_return m code f = bind m (\<lambda>x. case x of Inl e \<Rightarrow> Ret code | Inr a \<Rightarrow> f a)"

definition pivot_before_user_ns :: "int prog" where
  "pivot_before_user_ns = with_rootfs (\<lambda>req.
     or_return (unshare [Mount]) 2 (\<lambda>_. or_return (pivot_fs req) 3 (\<lambda>_. or_return (unshare [User]) 4 (\<lambda>_. Ret 0))))"

definition pivot_after_user_ns :: "int prog" where
  "pivot_after_user_ns = with_rootfs (\<lambda>req.
     or_return (unshare [Mount]) 1 (\<lambda>_. or_return (unshare [User]) 1 (\<lambda>_.
     bind (pivot_fs req) (\<lambda>x. Ret (case x of Inl e \<Rightarrow> 0 | Inr a \<Rightarrow> 1)))))"

definition pivot_skip_two_stage :: "int prog" where
  "pivot_skip_two_stage = with_rootfs (\<lambda>req.
     or_return (unshare [User, Mount, Pid]) 2 (\<lambda>_.
     Call (Proc Fork) (\<lambda>r.
     if failed r then Ret 3
     else if rc r = 0 then bind (pivot_fs req) (\<lambda>x. Halt (case x of Inl e \<Rightarrow> 1 | Inr a \<Rightarrow> 0))
     else Call (Proc (Waitpid (ChildPid (rc r)) False)) (\<lambda>s.
       if failed s then Ret 4
       else Ret (case status s of Exited_status _ code \<Rightarrow> (if code = 0 then 0 else 4) | _ \<Rightarrow> 4)))))"

definition pivot_mount_only :: "int prog" where
  "pivot_mount_only = with_rootfs (\<lambda>req.
     or_return (unshare [Mount]) 2 (\<lambda>_. or_return (pivot_fs req) 3 (\<lambda>_. Ret 0)))"

definition raise_net_raw :: Capabilities where
  "raise_net_raw = \<lparr>cap_raise = Some [''CAP_NET_RAW''], cap_raise_ambient = None, cap_drop = None\<rparr>"

definition nobody_exec :: ExecutableSpec where
  "nobody_exec = ExecutableSpec_default\<lparr>ex_uid := Some NOBODY_UID, ex_gid := Some NOBODY_UID\<rparr>"

definition raised_cap_kept :: "int prog" where
  "raised_cap_kept =
     or_return (preexec_prep nobody_exec (Some raise_net_raw)) 1 (\<lambda>_.
     or_return get_caps 2 (\<lambda>now.
     if \<not> get_from NetRaw (permitted now) then Ret 3
     else if \<not> get_from NetRaw (effective now) then Ret 4
     else Ret 0))"

definition raised_cap_lost :: "int prog" where
  "raised_cap_lost =
     or_return (apply_capabilities (Some raise_net_raw)) 1 (\<lambda>_.
     or_return get_caps 2 (\<lambda>before.
     if \<not> get_from NetRaw (effective before) then Ret 3
     else or_return (apply_gid_uid (Some NOBODY_UID) (Some NOBODY_UID) None) 4 (\<lambda>_.
       or_return get_caps 5 (\<lambda>after.
       if get_from NetRaw (permitted after) then Ret 6
       else if get_from NetRaw (effective after) then Ret 7
       else Ret 0))))"

definition root_only_two_stage_pivot_fs_before_user_ns_succeeds :: "unit io" where
  "root_only_two_stage_pivot_fs_before_user_ns_succeeds = root_only pivot_before_user_ns"

definition root_only_two_stage_pivot_fs_after_user_ns_fails :: "unit io" where
  "root_only_two_stage_pivot_fs_after_user_ns_fails = root_only pivot_after_user_ns"

definition root_only_skip_two_stage_pivot_fs_succeeds :: "unit io" where
  "root_only_skip_two_stage_pivot_fs_succeeds = root_only pivot_skip_two_stage"

definition root_only_mount_only_ns_pivot_fs_succeeds :: "unit io" where
  "root_only_mount_only_ns_pivot_fs_succeeds = root_only pivot_mount_only"

definition root_only_apply_exec_prep_preserves_raised_cap_across_uid_change :: "unit io" where
  "root_only_apply_exec_prep_preserves_raised_cap_across_uid_change = root_only raised_cap_kept"

definition root_only_raise_then_setuid_without_keep_caps_drops_cap :: "unit io" where
  "root_only_raise_then_setuid_without_keep_caps_drops_cap = root_only raised_cap_lost"

section \<open>The pure tests pass\<close>

lemma test_masks: "low_caps = 0x80002001" "high_caps = 0x10100000000" "all_caps = 0x1FFFFFFFFFF"
  by (simp_all add: low_caps_def high_caps_def all_caps_def raw_bits_def set_bits_def ALL_caps_def add_to_def bit_mask_def)

lemma word_order_test: "test_cap_encoding_word_order"
  by (simp add: test_cap_encoding_word_order_def test_masks cap_result_to_data_def cap_data_to_result_def join_words_def)

lemma join_rootfs_test: "join_rootfs_avoids_double_separators"
  by code_simp

section \<open>Kernels whose replies are of a kind\<close>

definition replies :: "'w kernel \<Rightarrow> (syscall \<Rightarrow> reply \<Rightarrow> bool) \<Rightarrow> bool" where
  "replies K P \<longleftrightarrow> (\<forall>w s. \<exists>r w'. K w s = (Some r, w') \<and> P s r)"

text \<open>What a program ends with if the replies are.\<close>

primrec ensures :: "(syscall \<Rightarrow> reply \<Rightarrow> bool) \<Rightarrow> ('a outcome \<Rightarrow> bool) \<Rightarrow> 'a prog \<Rightarrow> bool" where
  "ensures P Q (Ret a) \<longleftrightarrow> Q (Done a)"
| "ensures P Q (Halt c) \<longleftrightarrow> Q (Exited c)"
| "ensures P Q OutOfFuel \<longleftrightarrow> Q NoFuel"
| "ensures P Q (Call s k) \<longleftrightarrow> (\<forall>r. P s r \<longrightarrow> ensures P Q (k r))"

lemma ensures_outcome:
  assumes "replies K P"
  shows "ensures P Q p \<Longrightarrow> Q (outcome_of K w p)"
proof (induction p arbitrary: w rule: prog_induct)
  case (Call s k)
  obtain r w' where "K w s = (Some r, w')" "P s r" using assms unfolding replies_def by blast
  with Call show ?case by simp
qed simp_all

lemma ensures_bind:
  "ensures P (\<lambda>x. \<exists>a. x = Done a \<and> R a) m \<Longrightarrow> (\<And>a. R a \<Longrightarrow> ensures P Q (f a)) \<Longrightarrow> ensures P Q (bind m f)"
  by (induction m) auto

section \<open>The signal test\<close>

text \<open>Where \<open>signal(2)\<close> works as documented, the test passes and leaves every disposition as it was.\<close>

lemma sigpipe_test_passes:
  assumes "\<And>w sig d. \<exists>r w'. K w (Proc (SetSignal sig d)) = (Some r, w') \<and> \<not> failed r \<and>
    old_handler r = disp_of w sig \<and> disp_of w' = (disp_of w)(sig := d)"
  shows "\<exists>tr w'. run K w test_reset_sigpipe_restores_default = (tr, Done (Inr ()), w') \<and> disp_of w' = disp_of w"
proof -
  obtain r1 w1 where 1: "K w (Proc (SetSignal SIGPIPE SigIgn)) = (Some r1, w1)" "\<not> failed r1"
    "old_handler r1 = disp_of w SIGPIPE" "disp_of w1 = (disp_of w)(SIGPIPE := SigIgn)" using assms by blast
  obtain r2 w2 where 2: "K w1 (Proc (SetSignal SIGPIPE SigDfl)) = (Some r2, w2)" "\<not> failed r2"
    "disp_of w2 = (disp_of w1)(SIGPIPE := SigDfl)" using assms by blast
  obtain r3 w3 where 3: "K w2 (Proc (SetSignal SIGPIPE SigDfl)) = (Some r3, w3)" "\<not> failed r3"
    "old_handler r3 = disp_of w2 SIGPIPE" "disp_of w3 = (disp_of w2)(SIGPIPE := SigDfl)" using assms by blast
  obtain r4 w4 where 4: "K w3 (Proc (SetSignal SIGPIPE (old_handler r1))) = (Some r4, w4)" "\<not> failed r4"
    "disp_of w4 = (disp_of w3)(SIGPIPE := old_handler r1)" using assms by blast
  show ?thesis
    using 1 2 3 4 by (simp add: test_reset_sigpipe_restores_default_def expect_def assert_that_def reset_sigpipe_def
        set_signal_def sys_res_def sys_unit_def)
qed

section \<open>The capability tests\<close>

lemma net_raw_names: "collect_names [''CAP_NET_RAW''] [] = Inr [NetRaw]" "collect_names [] [] = Inr []"
  by code_simp+

text \<open>Which calls the kernel grants, beyond those that read: the changes of an id to a process with the
  capability for it, the legal changes of the capability sets, and the securebits to a process with
  \<open>CAP_SETPCAP\<close> (\<open>setuid(2)\<close>, \<open>setgid(2)\<close>, \<open>capset(2)\<close>, \<open>prctl(2)\<close>).\<close>

definition granted_to :: "creds \<Rightarrow> cred_call \<Rightarrow> bool" where
  "granted_to c call =
     (case call of
        SetUid u \<Rightarrow> get_from Setuid (effective (p_caps c))
      | SetGid g \<Rightarrow> get_from Setgid (effective (p_caps c))
      | Capget v pid \<Rightarrow> True
      | Capset v pid lo hi \<Rightarrow> legal_caps (p_caps c) (cap_data_to_result (lo, hi))
      | Prctl op a b d e \<Rightarrow> op = PR_SET_SECUREBITS \<and> get_from Setpcap (effective (p_caps c))
      | _ \<Rightarrow> False)"

definition grants :: "'w kernel \<Rightarrow> ('w \<Rightarrow> creds) \<Rightarrow> bool" where
  "grants K creds_of \<longleftrightarrow>
     (\<forall>w call. \<exists>r w'. K w (Cred call) = (Some r, w') \<and> (granted_to (creds_of w) call \<longrightarrow> \<not> failed r)) \<and>
     (\<forall>w s. s \<in> {Proc GetPid, Sys HashSeed} \<longrightarrow> (\<exists>r w'. K w s = (Some r, w')))"

text \<open>A program that succeeds, for sure, with a result and credentials in \<open>Q\<close>.\<close>

definition sure :: "'w kernel \<Rightarrow> ('w \<Rightarrow> creds) \<Rightarrow> 'w \<Rightarrow> 'a io \<Rightarrow> ('a \<Rightarrow> creds \<Rightarrow> bool) \<Rightarrow> bool" where
  "sure K creds_of w m Q \<longleftrightarrow> (\<exists>tr a w'. succeeds K w m tr a w' \<and> Q a (creds_of w'))"

lemma sure_ok [simp]: "sure K creds_of w (ok a) Q \<longleftrightarrow> Q a (creds_of w)"
  by (auto simp: sure_def)

lemma sure_mono: "sure K creds_of w m Q \<Longrightarrow> (\<And>a c. Q a c \<Longrightarrow> R a c) \<Longrightarrow> sure K creds_of w m R"
  unfolding sure_def by blast

lemma sure_try:
  assumes "sure K creds_of w m R" and "\<And>a w'. R a (creds_of w') \<Longrightarrow> sure K creds_of w' (f a) Q"
  shows "sure K creds_of w (try_io m f) Q"
proof -
  obtain tr a w' where 1: "succeeds K w m tr a w'" "R a (creds_of w')" using assms(1) by (auto simp: sure_def)
  obtain tr' b w'' where "succeeds K w' (f a) tr' b w''" "Q b (creds_of w'')"
    using assms(2) [OF 1(2)] by (auto simp: sure_def)
  with 1(1) show ?thesis unfolding sure_def succeeds_try by blast
qed

lemma sure_or_return:
  assumes "sure K creds_of w m R" and "\<And>a w'. R a (creds_of w') \<Longrightarrow> outcome_of K w' (f a) = Done c"
  shows "outcome_of K w (or_return m code f) = Done c"
proof -
  obtain tr a w' where "succeeds K w m tr a w'" "R a (creds_of w')" using assms(1) by (auto simp: sure_def)
  with assms(2) [of a w'] show ?thesis
    by (cases "run K w' (f a)") (simp add: or_return_def outcome_of_def succeeds_def run_bind)
qed

text \<open>A kernel that keeps the documented laws and grants these calls.\<close>

definition obliging :: "'w kernel \<Rightarrow> ('w \<Rightarrow> creds) \<Rightarrow> bool" where
  "obliging K creds_of \<longleftrightarrow> documented K creds_of \<and> grants K creds_of"

lemma cred_call:
  assumes "obliging K creds_of"
  obtains r w' where "K w (Cred call) = (Some r, w')" "granted_to (creds_of w) call \<Longrightarrow> \<not> failed r"
    "honest (creds_of w) (Cred call) r" "creds_of w' = cred_eff (creds_of w) (Cred call, Some r)"
proof -
  obtain r w' where K: "K w (Cred call) = (Some r, w')" "granted_to (creds_of w) call \<longrightarrow> \<not> failed r"
    using assms unfolding obliging_def grants_def by blast
  moreover have "honest (creds_of w) (Cred call) r \<and> creds_of w' = cred_eff (creds_of w) (Cred call, Some r)"
    using assms K(1) unfolding obliging_def documented_def by blast
  ultimately show thesis using that by blast
qed

lemma plain_sys:
  assumes "obliging K creds_of" and "s \<in> {Proc GetPid, Sys HashSeed}"
  obtains r w' where "K w s = (Some r, w')" "creds_of w' = creds_of w"
proof -
  obtain r w' where K: "K w s = (Some r, w')" using assms unfolding obliging_def grants_def by blast
  moreover have "creds_of w' = cred_eff (creds_of w) (s, Some r)"
    using K(1) assms unfolding obliging_def documented_def by auto
  ultimately show thesis using that assms by auto
qed

lemma sure_pid:
  assumes "obliging K creds_of"
  shows "sure K creds_of w get_pid (\<lambda>_ c. c = creds_of w)"
  by (rule plain_sys [OF assms, of "Proc GetPid" w]) (auto simp: sure_def get_pid_def succeeds_try)

lemma sure_keep_caps:
  assumes "obliging K creds_of" and "get_from Setpcap (effective (p_caps (creds_of w)))"
  shows "sure K creds_of w set_keep_caps (\<lambda>_ c. c = (creds_of w)\<lparr>p_fixup := False\<rparr>)"
proof (rule cred_call [OF assms(1), of w "Prctl PR_SET_SECUREBITS SECBIT_NO_SETUID_FIXUP 0 0 0"])
  fix r w'
  assume "K w (Cred (Prctl PR_SET_SECUREBITS SECBIT_NO_SETUID_FIXUP 0 0 0)) = (Some r, w')"
    "granted_to (creds_of w) (Prctl PR_SET_SECUREBITS SECBIT_NO_SETUID_FIXUP 0 0 0) \<Longrightarrow> \<not> failed r"
    "creds_of w' = cred_eff (creds_of w) (Cred (Prctl PR_SET_SECUREBITS SECBIT_NO_SETUID_FIXUP 0 0 0), Some r)"
  with assms show ?thesis
    by (auto simp: sure_def set_keep_caps_def succeeds_try granted_to_def prctl_eff_def SECBIT_NO_SETUID_FIXUP_def)
qed

lemma sure_get_caps:
  assumes "obliging K creds_of"
  shows "sure K creds_of w get_caps (\<lambda>cur c. cur = p_caps (creds_of w) \<and> c = creds_of w)"
  unfolding get_caps_def
proof (rule sure_try [OF sure_pid [OF assms(1)]])
  fix pid w1
  assume w1: "creds_of w1 = creds_of w"
  show "sure K creds_of w1 (try_io (capget pid) (\<lambda>data. ok (cap_data_to_result data)))
      (\<lambda>cur c. cur = p_caps (creds_of w) \<and> c = creds_of w)"
    by (rule cred_call [OF assms(1), of w1 "Capget LINUX_CAPABILITY_VERSION_3 pid"])
      (auto simp: sure_def capget_def succeeds_try granted_to_def honest_def w1)
qed

lemma sure_set_caps:
  assumes "obliging K creds_of" and "legal_caps (p_caps (creds_of w)) d"
  shows "sure K creds_of w (set_caps d) (\<lambda>_ c. c = change_caps d (creds_of w))"
  unfolding set_caps_def
proof (rule sure_try [OF sure_pid [OF assms(1)]])
  fix pid w1
  assume w1: "creds_of w1 = creds_of w"
  let ?call = "Capset LINUX_CAPABILITY_VERSION_3 pid (fst (cap_result_to_data d)) (snd (cap_result_to_data d))"
  have d: "cap_data_to_result (cap_result_to_data d) = d" by (rule cap_result_to_data_back)
  show "sure K creds_of w1 (capset pid (cap_result_to_data d)) (\<lambda>_ c. c = change_caps d (creds_of w))"
    by (rule cred_call [OF assms(1), of w1 ?call])
      (use assms in \<open>auto simp: sure_def capset_def succeeds_try granted_to_def d w1\<close>)
qed

lemma sure_names:
  assumes "obliging K creds_of" and "collect_names ns [] = Inr bits"
  shows "sure K creds_of w (names_as_bits ns) (\<lambda>b c. mset b = mset bits \<and> c = creds_of w)"
  by (rule plain_sys [OF assms(1), of "Sys HashSeed" w])
    (auto simp: sure_def names_as_bits_def succeeds_try assms(2))

text \<open>A process with every capability permitted and effective, as root has them.\<close>

definition full_caps :: "creds \<Rightarrow> bool" where
  "full_caps c \<longleftrightarrow> permitted (p_caps c) = effective (p_caps c) \<and> (\<forall>b. get_from b (effective (p_caps c)))"

lemma add_to_present: "get_from b v \<Longrightarrow> add_to b v = v"
  by (rule mask_ext) (auto simp: get_from_set_bits [of _ v "[b]", unfolded set_bits_def, simplified]
      bit_set_bits_high [of _ v "[b]", unfolded set_bits_def, simplified])

lemma sure_raise:
  assumes "obliging K creds_of" and "full_caps (creds_of w)"
  shows "sure K creds_of w (apply_capabilities (Some raise_net_raw))
    (\<lambda>_ c. full_caps c \<and> p_uid c = p_uid (creds_of w) \<and> p_fixup c = p_fixup (creds_of w))"
proof -
  let ?c = "creds_of w"
  let ?e = "effective (p_caps ?c)"
  have e: "set_bits (clear_bits ?e []) [NetRaw] = ?e"
    using assms(2) by (simp add: set_bits_def clear_bits_def add_to_present full_caps_def)
  have legal: "legal_caps (p_caps ?c) \<lparr>effective = ?e, permitted = ?e, inheritable = ?e\<rparr>"
    using assms(2) by (auto simp: legal_caps_def full_caps_def bit_eq_iff bit_simps)
  have c': "change_caps \<lparr>effective = ?e, permitted = ?e, inheritable = ?e\<rparr> ?c =
      ?c\<lparr>p_caps := \<lparr>effective = ?e, permitted = ?e, inheritable = ?e\<rparr>,
        p_ambient := {b \<in> p_ambient ?c. get_from b ?e}\<rparr>" by (simp add: change_caps_def)
  note names = sure_names [OF assms(1) net_raw_names(2)] sure_names [OF assms(1) net_raw_names(1)]
  have fin: "sure K creds_of w' (set_caps ((p_caps ?c)\<lparr>permitted := ?e, inheritable := ?e\<rparr>))
      (\<lambda>_ c. full_caps c \<and> p_uid c = p_uid ?c \<and> p_fixup c = p_fixup ?c)"
    if "creds_of w' = ?c" for w'
  proof -
    have "sure K creds_of w' (set_caps \<lparr>effective = ?e, permitted = ?e, inheritable = ?e\<rparr>) (\<lambda>_ c. c =
        change_caps \<lparr>effective = ?e, permitted = ?e, inheritable = ?e\<rparr> ?c)"
      using sure_set_caps [OF assms(1), of w' "\<lparr>effective = ?e, permitted = ?e, inheritable = ?e\<rparr>"] legal that by simp
    then have "sure K creds_of w' (set_caps \<lparr>effective = ?e, permitted = ?e, inheritable = ?e\<rparr>)
        (\<lambda>_ c. full_caps c \<and> p_uid c = p_uid ?c \<and> p_fixup c = p_fixup ?c)"
      by (rule sure_mono) (use assms(2) in \<open>simp add: c' full_caps_def\<close>)
    moreover have "(p_caps ?c)\<lparr>permitted := ?e, inheritable := ?e\<rparr> =
        \<lparr>effective = ?e, permitted = ?e, inheritable = ?e\<rparr>" by (rule CapResult.equality) simp_all
    ultimately show ?thesis by (simp only:)
  qed
  have "sure K creds_of w (try_io get_caps (\<lambda>current.
      try_io (names_as_bits []) (\<lambda>drops.
      try_io (names_as_bits [''CAP_NET_RAW'']) (\<lambda>raises.
      try_io (names_as_bits []) (\<lambda>raises_ambient.
      try_io (for_io (\<lambda>d. if d \<notin> set raises \<and> d \<notin> set raises_ambient
                          then prctl_check ''failed to drop bounding capability: '' (bset_drop d) else ok ()) drops) (\<lambda>_.
      let eff = set_bits (clear_bits (effective current) drops) raises in
      try_io (set_caps (current\<lparr>effective := eff, permitted := eff, inheritable := eff\<rparr>)) (\<lambda>_.
      try_io (for_io (\<lambda>d. prctl_check ''failed to drop ambient capability: '' (ambient_lower d)) drops) (\<lambda>_.
      for_io (\<lambda>r. prctl_check ''failed to raise ambient capability: '' (ambient_raise r)) raises_ambient))))))))
    (\<lambda>_ c. full_caps c \<and> p_uid c = p_uid ?c \<and> p_fixup c = p_fixup ?c)"
    apply (rule sure_try [OF sure_get_caps [OF assms(1)]], elim conjE)
    apply (rule sure_try [OF names(1)], elim conjE)
    apply (rule sure_try [OF names(2)], elim conjE)
    apply (rule sure_try [OF names(1)], elim conjE)
    apply (simp add: e Let_def)
    apply (rule sure_try [OF fin])
    apply (simp_all add: e)
    done
  then show ?thesis
    by (simp add: apply_capabilities_def raise_net_raw_def unwrap_names_def)
qed

lemma sure_warned:
  assumes "obliging K creds_of" and "granted_to (creds_of w) call"
  shows "sure K creds_of w (warn_on_err (sys_unit (Cred call))) (\<lambda>_ c. \<exists>r. \<not> failed r \<and> c = cred_eff (creds_of w) (Cred call, Some r))"
proof (rule cred_call [OF assms(1), of w call])
  fix r w'
  assume "K w (Cred call) = (Some r, w')" "granted_to (creds_of w) call \<Longrightarrow> \<not> failed r"
    "creds_of w' = cred_eff (creds_of w) (Cred call, Some r)"
  with assms(2) show ?thesis by (auto simp: sure_def sys_unit_def succeeds_warn)
qed

lemma sure_read:
  assumes "obliging K creds_of" and "call \<in> {GetUid, GetGid}"
  shows "sure K creds_of w (sys (Cred call))
    (\<lambda>r c. c = creds_of w \<and> rc r = uint (if call = GetUid then p_uid c else p_gid c))"
proof (rule cred_call [OF assms(1), of w call])
  fix r w'
  assume "K w (Cred call) = (Some r, w')" "honest (creds_of w) (Cred call) r"
    "creds_of w' = cred_eff (creds_of w) (Cred call, Some r)"
  with assms(2) show ?thesis by (auto simp: sure_def sys_def honest_def)
qed

text \<open>The change of the group and the user, for a process that may change both and is not yet the user.\<close>

lemma sure_ids:
  assumes "obliging K creds_of" and "full_caps (creds_of w)" and "p_uid (creds_of w) \<noteq> u"
  shows "sure K creds_of w (apply_gid_uid (Some g) (Some u) None)
    (\<lambda>_ c. c = change_uid u ((creds_of w)\<lparr>p_gid := g\<rparr>))"
proof -
  let ?c = "creds_of w"
  have may: "granted_to c (SetUid u)" "granted_to c (SetGid g)" if "p_caps c = p_caps ?c" for c
    using assms(2) that by (simp_all add: granted_to_def full_caps_def)
  have group: "sure K creds_of w (try_io (sys (Cred GetGid)) (\<lambda>r.
      if word_of_int (rc r) \<noteq> g then warn_on_err (sys_unit (Cred (SetGid g))) else ok ()))
      (\<lambda>_ c. c = ?c\<lparr>p_gid := g\<rparr>)"
  proof (rule sure_try [OF sure_read [OF assms(1), of GetGid]])
    fix r w1
    assume w1: "creds_of w1 = ?c \<and> rc r = uint (if GetGid = GetUid then p_uid (creds_of w1) else p_gid (creds_of w1))"
    then have "sure K creds_of w1 (warn_on_err (sys_unit (Cred (SetGid g)))) (\<lambda>_ c. c = ?c\<lparr>p_gid := g\<rparr>)"
      by (intro sure_mono [OF sure_warned [OF assms(1)]]) (auto intro: may)
    with w1 show "sure K creds_of w1 (if word_of_int (rc r) \<noteq> g then warn_on_err (sys_unit (Cred (SetGid g))) else ok ())
        (\<lambda>_ c. c = ?c\<lparr>p_gid := g\<rparr>)" by simp
  qed simp
  have user: "sure K creds_of w2 (try_io (sys (Cred GetUid)) (\<lambda>r.
      if word_of_int (rc r) \<noteq> u then warn_on_err (sys_unit (Cred (SetUid u))) else ok ()))
      (\<lambda>_ c. c = change_uid u (?c\<lparr>p_gid := g\<rparr>))" if w2: "creds_of w2 = ?c\<lparr>p_gid := g\<rparr>" for w2
  proof (rule sure_try [OF sure_read [OF assms(1), of GetUid]])
    fix r w1
    assume w1: "creds_of w1 = creds_of w2 \<and> rc r = uint (if GetUid = GetUid then p_uid (creds_of w1) else p_gid (creds_of w1))"
    then have "sure K creds_of w1 (warn_on_err (sys_unit (Cred (SetUid u))))
        (\<lambda>_ c. c = change_uid u (?c\<lparr>p_gid := g\<rparr>))"
      by (intro sure_mono [OF sure_warned [OF assms(1)]]) (auto intro: may simp: w2)
    with w1 w2 assms(3) show "sure K creds_of w1
        (if word_of_int (rc r) \<noteq> u then warn_on_err (sys_unit (Cred (SetUid u))) else ok ())
        (\<lambda>_ c. c = change_uid u (?c\<lparr>p_gid := g\<rparr>))" by simp
  qed simp
  show ?thesis
    unfolding apply_gid_uid_def option.case
    by (rule sure_try [OF group], rule sure_try [where R = "\<lambda>_ c. c = ?c\<lparr>p_gid := g\<rparr>"]) (simp_all add: user)
qed

text \<open>The two programs, for a root process with every capability.\<close>

lemma kept_result:
  assumes "obliging K creds_of" and "full_caps (creds_of w)" and "p_uid (creds_of w) = 0"
  shows "outcome_of K w raised_cap_kept = Done 0"
proof -
  have prep: "sure K creds_of w (preexec_prep nobody_exec (Some raise_net_raw)) (\<lambda>_ c. full_caps c)"
    unfolding preexec_prep_def
  proof (rule sure_try [OF sure_keep_caps [OF assms(1)]])
    show "get_from Setpcap (effective (p_caps (creds_of w)))" using assms(2) by (simp add: full_caps_def)
  next
    fix u w1
    assume w1: "creds_of w1 = (creds_of w)\<lparr>p_fixup := False\<rparr>"
    have "sure K creds_of w1 (apply_gid_uid (Some NOBODY_UID) (Some NOBODY_UID) None) (\<lambda>_ c. full_caps c)"
      by (rule sure_mono [OF sure_ids [OF assms(1)]])
        (use w1 assms(2,3) in \<open>simp_all add: full_caps_def change_uid_def NOBODY_UID_def\<close>)
    then show "sure K creds_of w1 (try_io (apply_gid_uid (ex_gid nobody_exec) (ex_uid nobody_exec) (supplemental_gids nobody_exec))
        (\<lambda>_. apply_capabilities (Some raise_net_raw))) (\<lambda>_ c. full_caps c)"
      by (simp add: nobody_exec_def ExecutableSpec_default_def)
        (erule sure_try, rule sure_mono [OF sure_raise [OF assms(1)]], simp_all)
  qed
  show ?thesis
    unfolding raised_cap_kept_def
    by (rule sure_or_return [OF prep], rule sure_or_return [OF sure_get_caps [OF assms(1)]]) (simp add: full_caps_def)
qed

lemma lost_result:
  assumes "obliging K creds_of" and "full_caps (creds_of w)" and "p_uid (creds_of w) = 0" and "p_fixup (creds_of w)"
  shows "outcome_of K w raised_cap_lost = Done 0"
proof -
  have ids: "sure K creds_of w1 (apply_gid_uid (Some NOBODY_UID) (Some NOBODY_UID) None)
      (\<lambda>_ c. effective (p_caps c) = 0 \<and> permitted (p_caps c) = 0)"
    if "full_caps (creds_of w1)" "p_uid (creds_of w1) = 0" "p_fixup (creds_of w1)" for w1
    by (rule sure_mono [OF sure_ids [OF assms(1) that(1)]])
      (use that in \<open>simp_all add: change_uid_def NOBODY_UID_def\<close>)
  show ?thesis
    unfolding raised_cap_lost_def
    apply (rule sure_or_return [OF sure_raise [OF assms(1,2)]])
    apply (rule sure_or_return [OF sure_get_caps [OF assms(1)]], elim conjE)
    apply (simp add: full_caps_def)
    apply (rule sure_or_return [OF ids])
    apply (simp_all add: full_caps_def assms(3,4))
    apply (rule sure_or_return [OF sure_get_caps [OF assms(1)]], elim conjE)
    apply simp
    done
qed

section \<open>The tests of \<open>pivot_fs\<close>\<close>

text \<open>A kernel in which every call succeeds; paths have no NUL, and the children exit with 0.\<close>

definition all_succeed :: "syscall \<Rightarrow> reply \<Rightarrow> bool" where
  "all_succeed s r \<longleftrightarrow> \<not> failed r \<and> CHR 0x00 \<notin> set (contents r) \<and> contents r \<noteq> ''/'' \<and> (\<exists>pid. status r = Exited_status pid 0)"

text \<open>A kernel in which every mount call fails, and every other call succeeds.\<close>

definition mounts_refused :: "syscall \<Rightarrow> reply \<Rightarrow> bool" where
  "mounts_refused s r \<longleftrightarrow> (failed r \<longleftrightarrow> (\<exists>m. s = Mnt m)) \<and> (\<exists>pid. status r = Exited_status pid 0)"

definition returns_ok :: "'a result outcome \<Rightarrow> bool" where
  "returns_ok x \<longleftrightarrow> (\<exists>a. x = Done (Inr a))"

lemma ensures_try:
  assumes "ensures P returns_ok m" and "\<And>a. ensures P Q (f a)"
  shows "ensures P Q (try_io m f)"
  using assms(1) by (induction m rule: prog_induct) (auto simp: returns_ok_def assms(2))

lemma ensures_map_err: "ensures P returns_ok m \<Longrightarrow> ensures P returns_ok (map_err g m)"
  by (induction m rule: prog_induct) (auto simp: returns_ok_def)

lemma sys_ok:
  "ensures all_succeed returns_ok (sys s)" "ensures all_succeed returns_ok (sys_unit s)"
  "ensures all_succeed returns_ok (ok a)"
  by (simp_all add: sys_def sys_unit_def all_succeed_def returns_ok_def)

lemma mount_ok:
  "CHR 0x00 \<notin> set (ms_target ms) \<Longrightarrow> ms_data ms = None \<Longrightarrow> \<not> ms_create_mountpoint ms \<Longrightarrow>
     ensures all_succeed returns_ok (mount ms)"
  by (auto simp: mount_def do_mount_def mount_data_def mount_setattr_def cstring_new_def Let_def sys_def sys_unit_def
      all_succeed_def returns_ok_def)

lemmas request_with_rootfs_simps = request_with_rootfs_def CreateRequest_default_def

lemma identity_ok: "ensures all_succeed returns_ok (create_identity req)"
  by (auto simp: create_identity_def identity_of_def get_pid_def intro!: ensures_try sys_ok split: option.split)

lemma pivot_ok:
  assumes "CHR 0x00 \<notin> set dir" and "dir \<noteq> ''/''"
  shows "ensures all_succeed returns_ok (pivot_fs (request_with_rootfs dir))"
proof -
  have "ensures all_succeed returns_ok (populate (request_with_rootfs dir) dir)"
    using assms by (auto simp: populate_def request_with_rootfs_simps opt_list_def bind_tree_def procfs_def
        intro!: ensures_try ensures_map_err mount_ok sys_ok)
  then show ?thesis
    using assms by (auto simp: pivot_fs_def assemble_root_def request_with_rootfs_simps oldroot_def pivot_def Let_def
        intro!: ensures_try ensures_map_err mount_ok sys_ok identity_ok)
qed

lemma pivot_refused: "ensures mounts_refused (\<lambda>x. \<exists>a. x = Done a \<and> (\<exists>e. a = Inl e)) (pivot_fs (request_with_rootfs dir))"
  by (auto simp: pivot_fs_def assemble_root_def request_with_rootfs_simps oldroot_def mount_def do_mount_def
      mount_data_def cstring_new_def Let_def sys_def mounts_refused_def)

text \<open>A closure, and the child that leaves with its value.\<close>

abbreviation passed :: "int outcome \<Rightarrow> bool" where
  "passed x \<equiv> x = Done 0 \<or> x = Exited 0"

lemma ensures_or_return:
  "ensures P returns_ok m \<Longrightarrow> (\<And>a. ensures P Q (f a)) \<Longrightarrow> ensures P Q (or_return m code f)"
  unfolding or_return_def by (induction m rule: prog_induct) (auto simp: returns_ok_def)

lemma ensures_code:
  "ensures P passed m \<Longrightarrow> (\<And>r. P (Run (TempDirDrop dir)) r \<Longrightarrow> True) \<Longrightarrow>
     ensures P passed (bind m (\<lambda>code. Call (Run (TempDirDrop dir)) (\<lambda>_. Ret code)))"
  by (induction m rule: prog_induct) auto

lemma ensures_with_rootfs:
  assumes "\<And>s r. P s r \<Longrightarrow> \<not> (\<exists>m. s = Mnt m) \<Longrightarrow> \<not> failed r"
    and "\<And>dir. P (Run TempDirNew) dir \<Longrightarrow> ensures P passed (body (request_with_rootfs (contents dir)))"
  shows "ensures P passed (with_rootfs body)"
  using assms(1) ensures_code [OF assms(2)]
  by (fastforce simp: with_rootfs_def make_minimal_rootfs_def)

lemma ensures_root_only:
  assumes "ensures P passed f" and "\<And>s r. P s r \<Longrightarrow> \<not> (\<exists>m. s = Mnt m) \<Longrightarrow> \<not> failed r \<and> (\<exists>pid. status r = Exited_status pid 0)"
  shows "ensures P (\<lambda>x. x = Done (Inr ()) \<or> x = Exited 0) (root_only f)"
proof -
  have "ensures P (\<lambda>x. x = Done (Inr ()) \<or> x = Exited 0) (try_io (bind f Halt) assert_that)"
    using assms(1) by (induction f rule: prog_induct) auto
  then show ?thesis
    using assms(2)
    by (fastforce simp: root_only_def is_root_def in_child_def expect_def sys_def sys_res_def assert_that_def)
qed

lemma pivot_closures:
  "ensures all_succeed passed pivot_before_user_ns" "ensures all_succeed passed pivot_mount_only"
  "ensures all_succeed passed pivot_skip_two_stage" "ensures mounts_refused passed pivot_after_user_ns"
proof -
  have ok: "all_succeed s r \<Longrightarrow> \<not> failed r" "mounts_refused s r \<Longrightarrow> \<not> (\<exists>m. s = Mnt m) \<Longrightarrow> \<not> failed r" for s r
    by (auto simp: all_succeed_def mounts_refused_def)
  have returns_ok: "returns_ok = (\<lambda>x. \<exists>a. x = Done (Inr a))"
    by (rule ext) (simp add: returns_ok_def)
  have pivot: "ensures all_succeed returns_ok (pivot_fs (request_with_rootfs (contents dir)))"
    if "all_succeed s dir" for s dir
    using that by (intro pivot_ok) (simp_all add: all_succeed_def)
  have unshare: "ensures all_succeed returns_ok (unshare ns)" "ensures mounts_refused returns_ok (unshare ns)" for ns
    by (simp_all add: unshare_def sys_ok) (simp add: sys_unit_def mounts_refused_def returns_ok_def)
  show "ensures all_succeed passed pivot_before_user_ns" "ensures all_succeed passed pivot_mount_only"
    unfolding pivot_before_user_ns_def pivot_mount_only_def
    by (auto intro!: ensures_with_rootfs ensures_or_return unshare pivot dest: ok)
  have "ensures all_succeed passed (bind (pivot_fs (request_with_rootfs (contents dir)))
      (\<lambda>x. Halt (case x of Inl e \<Rightarrow> 1 | Inr a \<Rightarrow> 0)))" if "all_succeed s dir" for s dir
    by (rule ensures_bind [where R = "\<lambda>x. \<exists>a. x = Inr a"])
      (use pivot [OF that] in \<open>auto simp: returns_ok\<close>)
  then show "ensures all_succeed passed pivot_skip_two_stage"
    unfolding pivot_skip_two_stage_def
    by (intro ensures_with_rootfs ensures_or_return unshare) (auto simp: all_succeed_def)
  show "ensures mounts_refused passed pivot_after_user_ns"
    unfolding pivot_after_user_ns_def
    by (intro ensures_with_rootfs ensures_or_return unshare ensures_bind [where R = "\<lambda>x. \<exists>e. x = Inl e"])
      (use pivot_refused ok in auto)
qed

section \<open>Properties\<close>


lemma creds_kernel_obliging: "obliging (creds_kernel {}) (\<lambda>c. c)"
  unfolding obliging_def grants_def
proof (intro conjI allI impI)
  show "documented (creds_kernel {}) (\<lambda>c. c)" by (rule creds_kernel_documented)
  show "\<exists>r w'. creds_kernel {} w (Cred call) = (Some r, w') \<and> (granted_to w call \<longrightarrow> \<not> failed r)" for w call
    by (cases call)
      (auto simp: creds_kernel_def creds_answer_def id_answer_def granted_to_def reply0_def prctl_defs PR_SET_SECUREBITS_def)
  show "\<exists>r w'. creds_kernel {} w s = (Some r, w')" if "s \<in> {Proc GetPid, Sys HashSeed}" for w s
    using that by (auto simp: creds_kernel_def)
qed


text \<open>The tests of the order of \<open>pivot_fs\<close> and the user namespace pass, in both processes of each: where
  every call succeeds, those in which the root is changed before the user namespace is entered, at once
  with it, or without one; and where the kernel refuses every mount, as it does to a process that has left
  the user namespace its mount namespace belongs to, the one that expects the failure.\<close>

theorem pivot_tests_agree:
  "(replies K all_succeed \<longrightarrow>
      outcome_of K w root_only_two_stage_pivot_fs_before_user_ns_succeeds \<in> {Done (Inr ()), Exited 0} \<and>
      outcome_of K w root_only_skip_two_stage_pivot_fs_succeeds \<in> {Done (Inr ()), Exited 0} \<and>
      outcome_of K w root_only_mount_only_ns_pivot_fs_succeeds \<in> {Done (Inr ()), Exited 0}) \<and>
   (replies K mounts_refused \<longrightarrow>
      outcome_of K w root_only_two_stage_pivot_fs_after_user_ns_fails \<in> {Done (Inr ()), Exited 0})"
proof -
  have a: "all_succeed s r \<Longrightarrow> \<not> failed r \<and> (\<exists>pid. status r = Exited_status pid 0)"
    and m: "mounts_refused s r \<Longrightarrow> \<not> (\<exists>m. s = Mnt m) \<Longrightarrow> \<not> failed r \<and> (\<exists>pid. status r = Exited_status pid 0)" for s r
    by (auto simp: all_succeed_def mounts_refused_def)
  have p1: "outcome_of K w (root_only f) \<in> {Done (Inr ()), Exited 0}" if "ensures all_succeed passed f" "replies K all_succeed" for f
    using ensures_outcome [OF that(2) ensures_root_only [OF that(1)]] a by auto
  have p2: "outcome_of K w (root_only f) \<in> {Done (Inr ()), Exited 0}" if "ensures mounts_refused passed f" "replies K mounts_refused" for f
    using ensures_outcome [OF that(2) ensures_root_only [OF that(1)]] m by auto
  show ?thesis
    unfolding root_only_two_stage_pivot_fs_before_user_ns_succeeds_def root_only_skip_two_stage_pivot_fs_succeeds_def
      root_only_mount_only_ns_pivot_fs_succeeds_def root_only_two_stage_pivot_fs_after_user_ns_fails_def
    using p1 [OF pivot_closures(1)] p1 [OF pivot_closures(2)] p1 [OF pivot_closures(3)] p2 [OF pivot_closures(4)] by simp
qed

theorem pivot_tests_agree_witness:
  "outcome_of (scripted (\<lambda>_. False) (\<lambda>s. reply0\<lparr>status := Exited_status 7 0\<rparr>)) ()
     root_only_two_stage_pivot_fs_before_user_ns_succeeds \<in> {Done (Inr ()), Exited 0} \<and>
   outcome_of (scripted (\<lambda>_. False) (\<lambda>s. case s of Mnt m \<Rightarrow> reply0\<lparr>rc := -1, status := Exited_status 7 0\<rparr> | _ \<Rightarrow> reply0\<lparr>status := Exited_status 7 0\<rparr>)) ()
     root_only_two_stage_pivot_fs_after_user_ns_fails \<in> {Done (Inr ()), Exited 0}"
proof -
  have 1: "replies (scripted (\<lambda>_. False) (\<lambda>s. reply0\<lparr>status := Exited_status 7 0\<rparr>)) all_succeed"
    by (simp add: replies_def scripted_def all_succeed_def reply0_def)
  have 2: "replies (scripted (\<lambda>_. False) (\<lambda>s. case s of Mnt m \<Rightarrow> reply0\<lparr>rc := -1, status := Exited_status 7 0\<rparr>
      | _ \<Rightarrow> reply0\<lparr>status := Exited_status 7 0\<rparr>)) mounts_refused"
    by (simp add: replies_def scripted_def mounts_refused_def reply0_def split: syscall.split)
  show ?thesis
    using pivot_tests_agree [THEN conjunct1, rule_format, OF 1, of "()"]
      pivot_tests_agree [THEN conjunct2, rule_format, OF 2, of "()"] by (rule conjI [OF conjunct1])
qed

end
