(* ===== verification/Spec2Isabelle.thy ===== *)
theory Spec2Isabelle
  imports Jail Progress Rendezvous Requests SignalFlow UnitTests
begin

text \<open>
  Verification of styrolite, a container runtime for Linux written in Rust.

  \<^bold>\<open>The program.\<close> A caller builds a request with the builders of \<open>src/runner.rs\<close> (a create request
  for a new container, an attach request for a running one); the \<open>Runner\<close> writes it as JSON to a
  temporary file and starts the program \<open>styrolite\<close> (\<open>src/bin/styrolite.rs\<close>) on it, which reads it back
  and calls \<open>wrap\<close> of \<open>src/wrap.rs\<close>. For a create request \<open>wrap\<close> prepares the cgroup, unshares the first
  namespaces and forks: the parent becomes the supervisor, which configures the user namespace,
  forwards signals, waits and reaps; the child assembles the root file system, pivots to it, changes
  its identity and capabilities, confines itself and executes the workload. The two meet over two
  event counters. For an attach request \<open>wrap\<close> joins the cgroup and the namespaces of a running child
  first. \<open>src/bin/styrojail.rs\<close> is a command line front end for the runner.

  \<^bold>\<open>The method.\<close> What the program does is calls to the kernel. \<open>Effects\<close> models a program as the tree of
  its calls: a node names a call with its arguments and continues with any reply. A function of the
  source that makes calls is a HOL function to such trees with the same calls in the same order under
  the same conditions; \<open>?\<close> is \<open>try_io\<close>, \<open>map_err\<close> and \<open>context\<close> are \<open>map_err\<close>, an \<open>is_err\<close> that is only
  logged is \<open>warn_on_err\<close>, \<open>process::exit\<close> is \<open>Halt\<close>. Pure functions are HOL functions over words of
  their width and strings of bytes. A kernel is an arbitrary function from its state and a call to a
  reply, or to none where the call does not return (an \<open>execve\<close>, a fatal signal); the theorems hold for
  all kernels, so for every pattern of failures. \<open>wp\<close> (a guard on each call given the calls before it,
  and a postcondition) and \<open>succeeds\<close> (a successful run with its trace) are the proof interface.

  \<^bold>\<open>The theories, and the code they model.\<close>
  \<^item> \<open>Prelude\<close>, \<open>RustStr\<close>, \<open>RustPath\<close>, \<open>BTree\<close>: fixed-width types, the parts of Rust's standard library the
    code uses (string functions, integer parsing and printing, paths, \<open>BTreeMap\<close>), and the interfaces
    \<open>flag_adder\<close>, \<open>flag_set\<close> (words as sets) and \<open>ordered_map\<close>, interpreted for the capability masks, the
    namespace flags and the sorted list behind \<open>BTreeMap\<close>.
  \<^item> \<open>Effects\<close>: calls, replies, programs, runs, \<open>wp\<close>.
  \<^item> \<open>Caps\<close> (\<open>src/caps.rs\<close>): capability names, masks and the two-word kernel layout. \<open>Namespaces\<close>
    (\<open>src/namespace.rs\<close>, \<open>src/unshare.rs\<close>). \<open>Lsm\<close> (\<open>src/seccomp.rs\<close>, \<open>src/apparmor.rs\<close>). \<open>Signals\<close>
    (\<open>src/signal.rs\<close>). \<open>CGroups\<close> (\<open>src/cgroup.rs\<close>). \<open>Mounts\<close> (\<open>src/mount.rs\<close>). \<open>Config\<close> (\<open>src/config.rs\<close>).
  \<^item> \<open>src/wrap.rs\<close>, in the order of a run: \<open>CreateSetup\<close> (cgroup, boot time, host name, id maps), \<open>PivotFs\<close>
    (the root file system), \<open>Console\<close>, \<open>Privileges\<close> (\<open>apply_gid_uid\<close>, \<open>apply_capabilities\<close>, \<open>preexec_prep\<close>),
    \<open>ExecSpec\<close> (limits, confinement and \<open>execvpe\<close>), \<open>Supervise\<close> (waiting, reaping, \<open>fork_and_wait\<close>, the
    search for a child), \<open>CreateWrap\<close> and \<open>AttachReq\<close> (the two \<open>wrap\<close> functions).
  \<^item> \<open>Handshake\<close>: both sides of the fork in \<open>wrap\<close> at once, as an inductive step relation on a pair of
    programs that share the event counters and the end of the child; \<open>moves\<close> executes schedules.
    \<open>Progress\<close>: the complete runs of this relation, and that each comes to a standstill.
    \<open>Rendezvous\<close>: the abstract machine \<open>meet\<close> that this relation refines, by the map \<open>facts\<close>.
  \<^item> \<open>SignalFlow\<close>: the signal dispositions and \<open>CHILD_PID\<close> through a run of \<open>wrap\<close>.
  \<^item> \<open>Credentials\<close> and \<open>Workload\<close>: the ids, capability sets and securebits of the process, and with which
    of them the workload is executed, in every kernel that keeps the documented laws.
  \<^item> \<open>Requests\<close>: the interface \<open>Wrappable\<close> of \<open>src/config.rs\<close> as the locale \<open>wrappable\<close>, which both requests
    provide, and the program \<open>styrolite\<close> over it.
  \<^item> \<open>Builders\<close> and \<open>Runner\<close> (\<open>src/runner.rs\<close>, \<open>src/bin/styrolite.rs\<close>), \<open>Jail\<close> (\<open>src/bin/styrojail.rs\<close> and
    \<open>src/examples\<close>).
  \<^item> \<open>UnitTests\<close>: the unit tests of \<open>src\<close>, as programs of the model, and what they can end with.
  \<^item> This theory: the property that spans all of it, from a command line to the workload.

  \<^bold>\<open>What is shown.\<close>
  \<^item> Whatever reaches the execution has been prepared: for the create and attach requests, the
    program \<open>styrolite\<close> on any configuration and the whole chain from the front end, any run against any kernel that executes the
    workload has made exactly the preparing calls before, in order, each with success.
  \<^item> The interleavings of supervisor and child: the workload runs only after the supervisor has
    configured the user namespace; the supervisor reports the right exit code; every run in which
    fewer children are reaped than there is fuel ends; the standstills are exactly two, and one is reached by a request that fails early (a finding).
  \<^item> The handshake refines a rendezvous of five facts: signal, release, run, end of the child, exit of the
    supervisor, each step of the code being one of those or none.
  \<^item> The credentials of the workload are those that the request asks for, but for changes of identity
    that the kernel refused (a finding); dropped capabilities are out of its reach.
  \<^item> What becomes of a signal at the fork, during the wait and in the workload.
  \<^item> The operations one by one: what a success has done and which calls a failure stops at (mounts,
    masks, \<open>pivot_fs\<close>, cgroups, id maps, capabilities, console, limits, the runner).
  \<^item> Data: round trips of the capability layout, masks and id maps; the exact languages of the command
    line parsers; well-formedness of every request a builder makes; \<open>ns_flags\<close> as a set.
  \<^item> Behaviour that deviates from its documentation or intent is stated as a theorem where it can be.

  \<^bold>\<open>Bounds and fuel.\<close> Only \<open>reap_children\<close> loops on what the kernel says; it takes fuel, and
  \<open>reap_enough_fuel\<close> shows that one more round than there are children to reap is enough. In \<open>Handshake\<close>
  a supervisor out of fuel goes on reaping for ever and never counts as ended or stuck; \<open>Progress\<close> shows
  that it is not out of fuel as long as it has reaped fewer children than it had fuel. All other loops
  are over lists of the request or of a reply and are structural.

  \<^bold>\<open>Parameters.\<close> The JSON encoder and decoder (serde_json) are the parameters \<open>ser\<close> and \<open>dec\<close>; a theorem
  that needs it assumes that \<open>dec\<close> undoes \<open>ser\<close> on the request at hand. The seed of a hash set is a reply.
  What the kernel does to the credentials of a process is not in the repository: \<open>Workload\<close> and
  \<open>UnitTests\<close> take any kernel with a view \<open>creds_of\<close> of its state and assume \<open>documented K creds_of\<close>: a
  successful \<open>setuid\<close>, \<open>setgid\<close>, \<open>setgroups\<close>, \<open>capset\<close> or \<open>prctl\<close> changes the credentials as its manual page
  says, a failed one and every other call do not, and the calls that read them report them. Nothing is
  assumed of the calls that change namespaces, nor of the reads of an event counter, in whose wait the
  supervisor may write the id maps. There is one user id: the real, effective and saved ones are taken to
  be equal. That a call is granted is assumed only in \<open>UnitTests\<close>, as \<open>obliging\<close>: a change of an id or of the
  securebits to a process with the capability for it, and \<open>capset\<close> within what \<open>legal_caps\<close> allows. \<open>exec_rule\<close> bounds the capabilities after an execution as
  \<open>capabilities(7)\<close> does. \<open>creds_kernel\<close> is a kernel with these laws.

  \<^bold>\<open>Not modelled.\<close> Log output; the command line parser of clap (the parsers the code gives it are
  modelled); the removal of the temporary file by mktemp; the scheduling of tokio behind the feature \<open>async\<close>
  (\<open>run_async\<close> is modelled by its calls); arguments and paths that are not UTF-8, but for the two checks of
  the front end; raw pointers and the memory behind them. A \<open>write\<close> of a text to a file is
  one call that succeeds or fails as a whole. In \<open>Handshake\<close> no signal ends a process before the
  workload runs, and reads of the event counters are restarted rather than interrupted, as \<open>signal\<close> of
  the C library installs its handlers for that.
\<close>

section \<open>From the command line of the jail to its workload\<close>

lemma jail_request_simps [simp]:
  "skips_two_stage (jail_request cli uid gid pid wd mounts)"
  "cr_namespaces (jail_request cli uid gid pid wd mounts) = Some [Uts, Time, Pid, User, Ipc, Mount]"
  "executable (cr_exec (jail_request cli uid gid pid wd mounts)) = Some (program cli)"
  "exec_args (cr_exec (jail_request cli uid gid pid wd mounts)) = cli_args cli"
  "exec_env (cr_exec (jail_request cli uid gid pid wd mounts)) = []"
  by (simp_all add: jail_request_def skips_two_stage_def exec_args_def exec_env_def ExecutableSpec_default_def)

text \<open>The requests of a command line: any ids and working directory, and mounts that end in its own.\<close>

definition jail_of :: "Cli \<Rightarrow> CreateRequest \<Rightarrow> bool" where
  "jail_of cli req \<longleftrightarrow>
     (\<exists>uid gid pid wd mounts. req = jail_request cli uid gid pid wd mounts \<and> suffix (cli_mount cli) mounts)"

lemma jail_ofI: "suffix (cli_mount cli) mounts \<Longrightarrow> jail_of cli (jail_request cli uid gid pid wd mounts)"
  unfolding jail_of_def by blast

lemma jail_ofD:
  assumes "jail_of cli req"
  shows "skips_two_stage req" "cr_namespaces req = Some [Uts, Time, Pid, User, Ipc, Mount]"
    "executable (cr_exec req) = Some (program cli)" "exec_args (cr_exec req) = cli_args cli"
    "exec_env (cr_exec req) = []"
  using assms by (auto simp: jail_of_def jail_request_def skips_two_stage_def exec_args_def exec_env_def
      ExecutableSpec_default_def)

text \<open>Building the request writes no file.\<close>

lemma built_request:
  assumes "outcome_of K w (build_request cli) = Done (Inr req)"
  shows "written f (trace K w (build_request cli)) = []" and "jail_of cli req"
  using request_built [OF assms]
  by (auto simp: written_by_def split: if_splits intro!: jail_ofI suffix_ConsI)

text \<open>The part of the run of \<open>styrolite\<close> on such a request.\<close>

lemma jail_of_child:
  assumes "jail_of cli req" and "trace K w (child_side req pe ce) = pre @ (Proc (Execvpe prog argv env), y) # post"
  shows "post = [] \<and> prog = program cli \<and> argv = program cli # cli_args cli \<and> env = [] \<and>
    (\<exists>a t b c. pre = a @ t @ b @ c \<and> pivoted req t \<and> confined (cr_exec req) c)"
proof -
  note j = jail_ofD [OF assms(1)]
  from child_reaches_exec [OF assms(2)] obtain t1 r1 r2 t2 t3 where
    pre: "pre = t1 @ [(Proc (EventFdWrite pe 2), Some r1), (Proc (EventFdRead ce), Some r2)] @ t2 @ t3" and t2: "after_done K req t2" and c: "confined (cr_exec req) t3"
    and e: "post = []" "prog = program cli" "argv = program cli # cli_args cli" "env = []"
    using j by auto
  from t2 j obtain pv rest where "t2 = pv @ rest" "pivoted req pv"
    by (auto simp: after_done_def root_done_def target_ns_def)
  then have "pre = (t1 @ [(Proc (EventFdWrite pe 2), Some r1), (Proc (EventFdRead ce), Some r2)]) @ pv @ rest @ t3"
    using pre by simp
  with \<open>pivoted req pv\<close> c e show ?thesis by blast
qed

section \<open>Properties\<close>

text \<open>C3. From the command line of \<open>styrojail\<close> to the workload, through the runner's file and the
  \<open>styrolite\<close> program: if \<open>styrojail\<close> starts the runner with every call before it a success, the file
  is not changed in between, and the JSON decoder undoes the encoder on the request, then whatever
  \<open>styrolite\<close> executes is the program of the command line with its arguments and an empty
  environment; it is the last call; and before it, in this order and with success, all six namespaces
  were unshared in one call, a child was forked, the child pivoted to the root of the request of the
  command line (\<open>jail_of\<close>), and it was confined.\<close>

theorem jailed_workload:
  assumes "trace K w (jail_main ser cli) = pre @ (Run (CommandExec p args), x) # post"
    and "list_all event_ok pre"
    and "\<And>req. outcome_of K w (build_request cli) = Done (Inr req) \<Longrightarrow>
      dec (concat (ser (Create req))) = Inr (Create req)"
    and "trace K' v (styrolite_main fuel dec (p # args)) = pre' @ (Proc (Execvpe prog argv env), y) # post'"
    and "\<And>r. (Fs (ReadFile (hd args)), Some r) \<in> set pre' \<Longrightarrow> contents r = written (hd args) pre"
  shows "post' = [] \<and> prog = program cli \<and> argv = program cli # cli_args cli \<and> env = [] \<and>
    (\<exists>req a t b c d e. jail_of cli req \<and>
       pre' = a @ b @ c @ t @ d @ e \<and>
       list_ex (\<lambda>e. event_ok e \<and> (\<exists>flags. fst e = Ns (UnshareSys flags) \<and>
         (\<forall>ns. has_flag ns flags \<longleftrightarrow> ns \<in> {Uts, Time, Pid, User, Ipc, Mount}))) a \<and>
       (\<exists>r. b = [(Proc Fork, Some r)] \<and> rc r = 0) \<and>
       pivoted req t \<and> confined (cr_exec req) e)"
proof -
  from jail_reaches_exec [OF assms(1)] obtain req f wr where
    req: "outcome_of K w (build_request cli) = Done (Inr req)" and args: "args = [contents f]"
    and pre: "pre = trace K w (build_request cli) @ (Run (TempFileNew ''styrolite-cfg-'' ''.json''), Some f) # wr"
    and saved: "config_saved (concat (ser (Create req))) (contents f) wr"
    by blast
  have j: "jail_of cli req" and "written (contents f) (trace K w (build_request cli)) = []"
    using built_request [OF req] by simp_all
  then have text_read: "written (contents f) pre = concat (ser (Create req))"
    using saved_written [OF saved] assms(2) by (simp add: pre)
  let ?e = "Proc (Execvpe prog argv env)"
  have ex: "is_exec ?e" by simp
  obtain r1 r2 conf w1 pre1 where p1: "pre' = [(Fs (PathExists (contents f)), Some r1), (Fs (ReadFile (contents f)), Some r2)] @ pre1"
    and conf: "dec (contents r2) = Inr conf"
    and run: "trace K' w1 (case conf of Create req \<Rightarrow> create_wrap fuel req | Attach req \<Rightarrow> attach_wrap fuel req) =
      pre1 @ (?e, y) # post'"
    by (rule main_reaches_exec [OF assms(4) [unfolded args] ex], rule that)
  have "conf = Create req"
    using assms(3) [OF req] assms(5) [of r2] conf text_read by (simp add: args p1)
  with run have run: "trace K' w1 (create_wrap fuel req) = pre1 @ (?e, y) # post'" by simp
  from wrap_reaches_exec [OF run, where ns = User] obtain b ra rb r3 pre2 w2 where
    p2: "pre1 = b @ [(Proc (EventFdNew 0 True), Some ra), (Proc (EventFdNew 0 True), Some rb), (Proc Fork, Some r3)] @ pre2"
      "rc r3 = 0"
    and un: "list_ex (\<lambda>e. fst e = Ns (UnshareSys (ns_flags (first_level_ns req))) \<and> event_ok e) b"
    and child: "trace K' w2 (child_side req (rc ra) (rc rb)) = pre2 @ (?e, y) # post'"
    by blast
  have flags: "has_flag ns (ns_flags (first_level_ns req)) \<longleftrightarrow> ns \<in> {Uts, Time, Pid, User, Ipc, Mount}" for ns
    using jail_ofD [OF j] by (auto simp: has_flag_ns_flags first_level_ns_def target_ns_def)
  from jail_of_child [OF j child] obtain c t d e where
    p3: "pre2 = c @ t @ d @ e" "pivoted req t" "confined (cr_exec req) e"
    and w: "post' = []" "prog = program cli" "argv = program cli # cli_args cli" "env = []"
    by auto
  let ?a = "[(Fs (PathExists (contents f)), Some r1), (Fs (ReadFile (contents f)), Some r2)] @ b @
    [(Proc (EventFdNew 0 True), Some ra), (Proc (EventFdNew 0 True), Some rb)]"
  have "pre' = ?a @ [(Proc Fork, Some r3)] @ c @ t @ d @ e"
    using p1 p2 p3 by simp
  moreover have "list_ex (\<lambda>e. event_ok e \<and> (\<exists>flags. fst e = Ns (UnshareSys flags) \<and>
         (\<forall>ns. has_flag ns flags \<longleftrightarrow> ns \<in> {Uts, Time, Pid, User, Ipc, Mount}))) ?a"
    using un flags by (auto simp: list_ex_iff)
  ultimately show ?thesis
    using w j p2(2) p3 by blast
qed

text \<open>The small jail, with a kernel on which all goes well.\<close>

definition small_request :: CreateRequest where
  "small_request = create_to_request (fold (\<lambda>m. create_push_mount (to_styrolite_mount m)) (cli_mount small_jail)
     (create_set_arguments [] (jail_base small_jail 1000 1000 7)))"

definition small_dec :: "string \<Rightarrow> Config result" where
  "small_dec s = (if s = ''{}'' then Inr (Create small_request) else Inl ParseError)"

definition small_kernel :: "unit kernel" where
  "small_kernel = scripted is_exec
     (\<lambda>s. if s = Fs (ReadFile ''/tmp/c.json'') then reply0\<lparr>contents := ''{}''\<rparr> else reply0)"

lemma small_run:
  obtains pre where
    "trace small_kernel () (styrolite_main 1 small_dec [''styrolite'', ''/tmp/c.json'']) =
       pre @ (Proc (Execvpe ''sh'' [''sh''] []), None) # []"
    "\<And>r. (Fs (ReadFile ''/tmp/c.json''), Some r) \<in> set pre \<Longrightarrow> contents r = ''{}''"
proof -
  let ?T = "trace small_kernel () (styrolite_main 1 small_dec [''styrolite'', ''/tmp/c.json''])"
  have 1: "?T \<noteq> []" by code_simp
  have 2: "last ?T = (Proc (Execvpe ''sh'' [''sh''] []), None)" by code_simp
  have 3: "list_all (\<lambda>e. fst e = Fs (ReadFile ''/tmp/c.json'') \<longrightarrow>
      (case snd e of Some r \<Rightarrow> contents r = ''{}'' | None \<Rightarrow> True)) ?T" by code_simp
  show thesis
    by (rule that [OF append_butlast_last_id [OF 1, unfolded 2, symmetric]],
        drule in_set_butlastD, use 3 in \<open>fastforce simp only: list_all_iff fst_conv snd_conv option.case\<close>)
qed

lemma small_request_eq: "small_request = jail_request small_jail 1000 1000 7 None (cli_mount small_jail)"
  using jail_request_from_builder(1) [of small_jail "cli_mount small_jail" 1000 1000 7]
  by (simp add: small_request_def small_jail_def)

theorem jailed_workload_witness:
  "\<exists>pre' req a t c. trace small_kernel () (styrolite_main 1 small_dec [''styrolite'', ''/tmp/c.json'']) =
       pre' @ [(Proc (Execvpe ''sh'' [''sh''] []), None)] \<and>
     jail_of small_jail req \<and> pre' = a @ t @ c \<and> pivoted req t"
proof -
  obtain pre where T: "trace small_kernel () (styrolite_main 1 small_dec [''styrolite'', ''/tmp/c.json'']) =
       pre @ (Proc (Execvpe ''sh'' [''sh''] []), None) # []"
    and text_read: "\<And>r. (Fs (ReadFile ''/tmp/c.json''), Some r) \<in> set pre \<Longrightarrow> contents r = ''{}''"
    by (rule small_run, rule that)
  have dec: "small_dec (concat (toy_ser (Create req))) = Inr (Create req)"
    if "outcome_of jail_kernel () (build_request small_jail) = Done (Inr req)" for req
    using that succeeds_trace [OF small_jail_built]
    by (simp add: small_dec_def toy_ser_def small_request_eq)
  have "contents r = written (hd [''/tmp/c.json'']) small_jail_calls"
    if "(Fs (ReadFile (hd [''/tmp/c.json''])), Some r) \<in> set pre" for r
    using that text_read small_jail_trace(3) by simp
  from jailed_workload [OF small_jail_trace(1,2) dec T this] obtain req a b c t d e where
    "jail_of small_jail req" "pre = a @ b @ c @ t @ d @ e" "pivoted req t" by blast
  then have "jail_of small_jail req" "pre = (a @ b @ c) @ t @ (d @ e)" "pivoted req t" by simp_all
  with T show ?thesis by blast
qed

end
